(* ===== verification/Prelude.thy ===== *)
theory Prelude
  imports Main "HOL-Library.Word"
begin

text \<open>
  Shared vocabulary of the development.

  The program is Go: a function returns a value, returns an error, or panics. A result is
  therefore a sum whose left side is a \<open>fault\<close>: \<open>Fail e\<close> for a returned error,
  \<open>Panic\<close> for a run-time panic (an index or slice out of range, or an explicit
  \<open>panic\<close>). Slices of bytes are lists of 8-bit words, fixed-width integers are words of
  their width. The little-endian accessors of \<open>encoding/binary\<close> are defined once, over a
  generic byte split, and their laws are stated as the locale \<open>wire_field\<close>, which every
  codec of the development uses through its interpretations \<open>u16\<close>, \<open>u32\<close> and
  \<open>u64\<close>. A second locale, \<open>consuming_reader\<close>, is the contract of a cursor
  that consumes its input.
\<close>

unbundle bit_operations_syntax

named_theorems go_simps \<open>evaluation rules of the result monad\<close>
named_theorems wire_simps \<open>laws of the little-endian field codecs\<close>

section \<open>Types\<close>

type_synonym byte = "8 word"
type_synonym bytes = "8 word list"
type_synonym u16 = "16 word"
type_synonym u32 = "32 word"
type_synonym u64 = "64 word"

datatype 'e fault = Fail 'e | Panic

type_synonym ('e, 'a) go = "'e fault + 'a"

text \<open>Sequencing: the first fault ends the computation.\<close>

definition and_then :: "('e, 'a) go \<Rightarrow> ('a \<Rightarrow> ('e, 'b) go) \<Rightarrow> ('e, 'b) go" where
  "and_then m f = (case m of Inl e \<Rightarrow> Inl e | Inr x \<Rightarrow> f x)"

lemma and_then_simps [simp, go_simps]:
  "and_then (Inl e) f = Inl e"
  "and_then (Inr x) f = f x"
  by (simp_all add: and_then_def)

lemma and_then_Inr_iff [go_simps]:
  "and_then m f = Inr y \<longleftrightarrow> (\<exists>x. m = Inr x \<and> f x = Inr y)"
  by (cases m) (simp_all add: and_then_def)

lemma and_then_Panic_iff [go_simps]:
  "and_then m f = Inl Panic \<longleftrightarrow> m = Inl Panic \<or> (\<exists>x. m = Inr x \<and> f x = Inl Panic)"
  by (cases m) (simp_all add: and_then_def)

lemma and_then_cong [fundef_cong]:
  assumes "m = m'" and "\<And>x. m' = Inr x \<Longrightarrow> f x = g x"
  shows "and_then m f = and_then m' g"
  using assms by (cases m') (simp_all add: and_then_def)

section \<open>Slices\<close>

text \<open>
  \<open>b[i]\<close>, \<open>b[i:]\<close>, \<open>b[:j]\<close> and \<open>b[i:j]\<close> with Go's range checks. A slice's capacity is
  taken to be its length, so the model panics wherever the program does.
\<close>

definition index :: "bytes \<Rightarrow> nat \<Rightarrow> ('e, byte) go" where
  "index b i = (if i < length b then Inr (b ! i) else Inl Panic)"

definition slice_from :: "bytes \<Rightarrow> nat \<Rightarrow> ('e, bytes) go" where
  "slice_from b i = (if i \<le> length b then Inr (drop i b) else Inl Panic)"

definition slice :: "bytes \<Rightarrow> nat \<Rightarrow> nat \<Rightarrow> ('e, bytes) go" where
  "slice b i j = (if i \<le> j \<and> j \<le> length b then Inr (take (j - i) (drop i b)) else Inl Panic)"

lemma index_simps [simp]:
  "index (x # xs) 0 = Inr x"
  "index (x # xs) (Suc i) = index xs i"
  by (simp_all add: index_def)

lemma index_numeral [simp]: "index (x # xs) (numeral k) = index xs (pred_numeral k)"
  by (simp add: numeral_eq_Suc)

section \<open>Words\<close>

lemma word_take_bit_self:
  fixes w :: "'a::len word"
  shows "unat w < 2 ^ n \<Longrightarrow> take_bit n w = w"
  by (simp add: word_unat_eq_iff unsigned_take_bit_eq take_bit_nat_eq_self)

lemma ucast_ucast_id:
  fixes n :: "'a::len word"
  assumes "unat n < 2 ^ LENGTH('b::len)"
  shows "(ucast (ucast n :: 'b word) :: 'a word) = n"
  using assms by (simp add: unsigned_ucast_eq word_take_bit_self)

lemma scast_ucast_id:
  fixes v :: "'a::len word"
  assumes "- (2 ^ (LENGTH('b::len) - 1)) \<le> sint v" and "sint v < 2 ^ (LENGTH('b) - 1)"
    and "LENGTH('b) \<le> LENGTH('a)"
  shows "(scast (ucast v :: 'b word) :: 'a word) = v"
proof -
  have l: "LENGTH('b) - 1 < LENGTH('a)"
    using assms(3) len_gt_0 [where 'a = 'b] by linarith
  have u: "uint v = take_bit LENGTH('a) (sint v)"
    by (simp add: uint_sint)
  have "sint (ucast v :: 'b word) = signed_take_bit (LENGTH('b) - 1) (sint v)"
    using l by (simp add: signed_ucast_eq u signed_take_bit_take_bit)
  also have "\<dots> = sint v"
    using assms(1,2) by (simp add: signed_take_bit_int_eq_self)
  finally have "sint (ucast v :: 'b word) = sint v" .
  then show ?thesis
    by (metis scast_id of_int_sint)
qed

section \<open>Little-endian integers\<close>

fun le_bytes :: "nat \<Rightarrow> nat \<Rightarrow> bytes" where
  "le_bytes 0 v = []"
| "le_bytes (Suc n) v = word_of_nat v # le_bytes n (v div 256)"

fun le_value :: "bytes \<Rightarrow> nat" where
  "le_value [] = 0"
| "le_value (b # bs) = unat b + 256 * le_value bs"

lemma length_le_bytes [simp]: "length (le_bytes n v) = n"
  by (induction n arbitrary: v) auto

lemma unat_byte_of_nat: "unat (word_of_nat v :: byte) = v mod 256"
  by (simp add: unat_of_nat)

lemma le_value_le_bytes: "le_value (le_bytes n v) = v mod 256 ^ n"
proof (induction n arbitrary: v)
  case 0
  show ?case by simp
next
  case (Suc n)
  have "v mod 256 + 256 * (v div 256 mod 256 ^ n) = v mod (256 * 256 ^ n)"
    by (simp add: mod_mult2_eq)
  with Suc show ?case by (simp add: unat_byte_of_nat)
qed

lemma le_bytes_le_value: "le_bytes (length bs) (le_value bs) = bs"
proof (induction bs)
  case Nil
  show ?case by simp
next
  case (Cons b bs)
  have b: "unat b < 256"
    using unsigned_less [of b] by simp
  have "(256 :: byte) = 0" by simp
  then have "(word_of_nat (unat b + 256 * le_value bs) :: byte) = b"
    by (simp only: of_nat_add of_nat_mult of_nat_numeral) simp
  with Cons b show ?case by simp
qed

lemma le_value_bound: "le_value bs < 256 ^ length bs"
  by (metis le_bytes_le_value le_value_le_bytes mod_less_divisor zero_less_numeral zero_less_power)

definition put_u16 :: "u16 \<Rightarrow> bytes" where
  "put_u16 v = le_bytes 2 (unat v)"

definition put_u32 :: "u32 \<Rightarrow> bytes" where
  "put_u32 v = le_bytes 4 (unat v)"

definition put_u64 :: "u64 \<Rightarrow> bytes" where
  "put_u64 v = le_bytes 8 (unat v)"

definition get_u16 :: "bytes \<Rightarrow> ('e, u16) go" where
  "get_u16 b = (if length b < 2 then Inl Panic else Inr (word_of_nat (le_value (take 2 b))))"

definition get_u32 :: "bytes \<Rightarrow> ('e, u32) go" where
  "get_u32 b = (if length b < 4 then Inl Panic else Inr (word_of_nat (le_value (take 4 b))))"

definition get_u64 :: "bytes \<Rightarrow> ('e, u64) go" where
  "get_u64 b = (if length b < 8 then Inl Panic else Inr (word_of_nat (le_value (take 8 b))))"

text \<open>
  The contract of a fixed-width field: what is written is read back whatever follows, a
  short buffer panics, and a successful read is the inverse of the write.
\<close>

locale wire_field =
  fixes put :: "'a \<Rightarrow> bytes"
    and get :: "bytes \<Rightarrow> ('e, 'a) go"
    and w :: nat
  assumes length_put: "length (put x) = w"
    and get_put: "get (put x @ r) = Inr x"
    and get_short: "length b < w \<Longrightarrow> get b = Inl Panic"
    and get_long: "w \<le> length b \<Longrightarrow> \<exists>x. get b = Inr x \<and> put x = take w b"
begin

lemma put_inject: "put x = put y \<longleftrightarrow> x = y"
proof
  assume "put x = put y"
  then have "get (put x @ []) = get (put y @ [])" by simp
  then show "x = y" unfolding get_put by simp
qed simp

lemma get_Inr_iff: "get b = Inr x \<longleftrightarrow> w \<le> length b \<and> take w b = put x"
proof
  assume g: "get b = Inr x"
  then have "w \<le> length b"
    using get_short [of b] by (cases "w \<le> length b") simp_all
  with g get_long [of b] show "w \<le> length b \<and> take w b = put x"
    by auto
next
  assume a: "w \<le> length b \<and> take w b = put x"
  then have "get (put x @ drop w b) = Inr x"
    by (simp add: get_put)
  with a show "get b = Inr x"
    by (metis append_take_drop_id)
qed

lemma get_Panic_iff: "get b = Inl Panic \<longleftrightarrow> length b < w"
proof (cases "length b < w")
  case True
  then show ?thesis by (simp add: get_short)
next
  case False
  then obtain x where "get b = Inr x" using get_long [of b] by fastforce
  with False show ?thesis by simp
qed

lemma get_no_fail: "get b \<noteq> Inl (Fail e)"
proof (cases "length b < w")
  case True
  then show ?thesis by (simp add: get_short)
next
  case False
  then obtain x where "get b = Inr x" using get_long [of b] by fastforce
  then show ?thesis by simp
qed

lemma get_append: "w \<le> length b \<Longrightarrow> get (b @ r) = get b"
proof -
  assume w: "w \<le> length b"
  then obtain x where x: "get b = Inr x" using get_long by blast
  with w have "get (b @ r) = Inr x" by (simp add: get_Inr_iff)
  with x show ?thesis by simp
qed

lemma get_drop:
  assumes "get (drop n b) = Inr x"
  shows "n + w \<le> length b \<or> w = 0"
  using assms unfolding get_Inr_iff by auto

lemma put_Nil_iff: "put x = [] \<longleftrightarrow> w = 0"
  using length_put [of x] by auto

end

lemma word_of_nat_le_value:
  fixes v :: "'a::len word"
  assumes "LENGTH('a) = 8 * n"
  shows "(word_of_nat (le_value (le_bytes n (unat v))) :: 'a word) = v"
proof -
  have "(256::nat) ^ n = 2 ^ LENGTH('a)"
    using assms by (simp add: power_mult)
  then show ?thesis
    by (simp add: le_value_le_bytes)
qed

lemma le_bytes_word_of_nat:
  assumes "LENGTH('a::len) = 8 * n" and "length bs = n"
  shows "le_bytes n (unat (word_of_nat (le_value bs) :: 'a word)) = bs"
proof -
  have "le_value bs < 2 ^ LENGTH('a)"
    using le_value_bound [of bs] assms by (simp add: power_mult)
  then have "unat (word_of_nat (le_value bs) :: 'a word) = le_value bs"
    by (simp add: unat_of_nat)
  then show ?thesis
    using le_bytes_le_value [of bs] assms(2) by simp
qed

interpretation u16: wire_field put_u16 get_u16 2
  by unfold_locales
    (auto simp: put_u16_def get_u16_def word_of_nat_le_value le_bytes_word_of_nat)

interpretation u32: wire_field put_u32 get_u32 4
  by unfold_locales
    (auto simp: put_u32_def get_u32_def word_of_nat_le_value le_bytes_word_of_nat)

interpretation u64: wire_field put_u64 get_u64 8
  by unfold_locales
    (auto simp: put_u64_def get_u64_def word_of_nat_le_value le_bytes_word_of_nat)

lemmas field_put_laws [simp, wire_simps] =
  u16.length_put u32.length_put u64.length_put
  u16.get_put u32.get_put u64.get_put
  u16.put_inject u32.put_inject u64.put_inject
  u16.put_Nil_iff u32.put_Nil_iff u64.put_Nil_iff

lemmas field_get_laws [wire_simps] =
  u16.get_Panic_iff u32.get_Panic_iff u64.get_Panic_iff
  u16.get_no_fail u32.get_no_fail u64.get_no_fail

lemma get_put_Nil [simp]:
  "get_u16 (put_u16 v) = Inr v" "get_u32 (put_u32 x) = Inr x" "get_u64 (put_u64 y) = Inr y"
  using u16.get_put [of v "[]"] u32.get_put [of x "[]"] u64.get_put [of y "[]"] by simp_all

section \<open>Stateful readers\<close>

text \<open>
  A method that reads through a cursor returns its result together with the cursor as it
  left it, on success and on a fault alike.
\<close>

type_synonym ('s, 'e, 'a) reader = "'s \<Rightarrow> ('e, 'a) go \<times> 's"

definition read_then :: "('s, 'e, 'a) reader \<Rightarrow> ('a \<Rightarrow> ('s, 'e, 'b) reader) \<Rightarrow> ('s, 'e, 'b) reader" where
  "read_then m f s = (case m s of (Inl e, s') \<Rightarrow> (Inl e, s') | (Inr x, s') \<Rightarrow> f x s')"

lemma read_then_simps [go_simps]:
  "m s = (Inl e, s') \<Longrightarrow> read_then m f s = (Inl e, s')"
  "m s = (Inr x, s') \<Longrightarrow> read_then m f s = f x s'"
  by (simp_all add: read_then_def)

lemma read_then_Inr_iff [go_simps]:
  "read_then m f s = (Inr y, t) \<longleftrightarrow> (\<exists>x s'. m s = (Inr x, s') \<and> f x s' = (Inr y, t))"
  by (auto simp: read_then_def split: prod.splits sum.splits)

lemma read_then_Panic_iff [go_simps]:
  "fst (read_then m f s) = Inl Panic \<longleftrightarrow>
     fst (m s) = Inl Panic \<or> (\<exists>x s'. m s = (Inr x, s') \<and> fst (f x s') = Inl Panic)"
  by (auto simp: read_then_def split: prod.splits sum.splits)

text \<open>A run of successful reads.\<close>

inductive reads :: "('s, 'e, 'x) reader \<Rightarrow> 's \<Rightarrow> 'x list \<Rightarrow> 's \<Rightarrow> bool" for nx where
  reads_done: "reads nx s [] s"
| reads_more: "nx s = (Inr x, s') \<Longrightarrow> reads nx s' xs t \<Longrightarrow> reads nx s (x # xs) t"

inductive_simps reads_Nil_iff [simp]: "reads nx s [] t"
inductive_simps reads_Cons_iff: "reads nx s (x # xs) t"

lemma reads_append:
  "reads nx s (xs @ ys) t \<longleftrightarrow> (\<exists>u. reads nx s xs u \<and> reads nx u ys t)"
proof (induction xs arbitrary: s)
  case (Cons x xs)
  then show ?case by (simp add: reads_Cons_iff) blast
qed simp

text \<open>
  The contract of a cursor that consumes its input: a successful read leaves strictly less.
  Every loop over such a cursor ends, and a run of reads is no longer than its input.
\<close>

locale consuming_reader =
  fixes nx :: "('s, 'e, 'x) reader"
    and remaining :: "'s \<Rightarrow> nat"
  assumes consumes: "nx s = (Inr x, s') \<Longrightarrow> remaining s' < remaining s"
begin

lemma reads_bound: "reads nx s xs t \<Longrightarrow> length xs + remaining t \<le> remaining s"
  by (induction rule: reads.induct) (auto dest: consumes)

lemma reads_deterministic:
  "reads nx s xs t \<Longrightarrow> reads nx s ys u \<Longrightarrow> length xs = length ys \<Longrightarrow> xs = ys \<and> t = u"
proof (induction arbitrary: ys u rule: reads.induct)
  case (reads_done s)
  then show ?case by simp
next
  case (reads_more s x s' xs t)
  obtain y ys' where ys: "ys = y # ys'" "length xs = length ys'"
    using reads_more.prems(2) by (cases ys) simp_all
  then have y: "y = x" "reads nx s' ys' u"
    using reads_more.prems(1) reads_more.hyps(1) by (simp_all add: reads_Cons_iff)
  then have "xs = ys' \<and> t = u"
    using reads_more.IH ys(2) by blast
  with y(1) ys(1) show ?case by simp
qed

lemma reads_exhausted:
  assumes "remaining s = 0" and r: "reads nx s xs t"
  shows "xs = [] \<and> t = s"
proof -
  have "xs = []"
    using reads_bound [OF r] assms(1) by simp
  with r show ?thesis by simp
qed

end

end
