(* ===== verification/Utf8.thy ===== *)
theory Utf8
  imports Prelude
begin

text \<open>
  Character strings (\<^verbatim>\<open>tlv/utf8.go\<close>). A Go string is its bytes. \<open>utf8_valid\<close> is the
  standard library's \<^verbatim>\<open>utf8.Valid\<close>, written as the table of well-formed byte sequences of
  the Unicode standard; \<open>decode_rune\<close> is the rune iteration of Go's \<^verbatim>\<open>range\<close> over a
  string. \<open>decodeUTF8\<close> has a fast path for valid input and a replacement loop; the
  lemmas show that the loop alone computes the same function, that its output is always
  well-formed and that a well-formed string is unchanged.
\<close>

section \<open>Standard library: validity and rune iteration\<close>

definition is_cont :: "byte \<Rightarrow> bool" where
  "is_cont b \<longleftrightarrow> 0x80 \<le> b \<and> b \<le> 0xBF"

text \<open>
  The library's table of lead bytes: the number of bytes that follow and the range of the
  first of them; \<open>None\<close> for ASCII and for a byte that starts no sequence.
\<close>

definition first_byte :: "byte \<Rightarrow> (nat \<times> byte \<times> byte) option" where
  "first_byte c =
     (if c < 0xC2 then None
      else if c \<le> 0xDF then Some (1, 0x80, 0xBF)
      else if c = 0xE0 then Some (2, 0xA0, 0xBF)
      else if c \<le> 0xEC then Some (2, 0x80, 0xBF)
      else if c = 0xED then Some (2, 0x80, 0x9F)
      else if c \<le> 0xEF then Some (2, 0x80, 0xBF)
      else if c = 0xF0 then Some (3, 0x90, 0xBF)
      else if c \<le> 0xF3 then Some (3, 0x80, 0xBF)
      else if c = 0xF4 then Some (3, 0x80, 0x8F)
      else None)"

text \<open>The length of the well-formed sequence at the front of a string; 0 if there is none.\<close>

definition seq_len :: "bytes \<Rightarrow> nat" where
  "seq_len s = (case s of
      [] \<Rightarrow> 0
    | c # r \<Rightarrow>
        if c < 0x80 then 1
        else (case first_byte c of
            None \<Rightarrow> 0
          | Some (n, lo, hi) \<Rightarrow>
              if n \<le> length r \<and> lo \<le> hd r \<and> hd r \<le> hi \<and> list_all is_cont (take (n - 1) (tl r))
              then Suc n else 0))"

lemma seq_len_Nil [simp]: "seq_len [] = 0"
  by (simp add: seq_len_def)

lemma seq_len_le: "seq_len s \<le> length s"
  by (auto simp: seq_len_def split: list.split option.split)

function utf8_valid :: "bytes \<Rightarrow> bool" where
  "utf8_valid s =
     (if s = [] then True
      else if seq_len s = 0 then False
      else utf8_valid (drop (seq_len s) s))"
  by pat_completeness auto
termination
  by (relation "measure length") auto

declare utf8_valid.simps [simp del]

text \<open>
  \<^verbatim>\<open>utf8.DecodeRune\<close>: the code point at the front and its width; an ill-formed byte reads
  as U+FFFD with width 1.
\<close>

definition decode_rune :: "bytes \<Rightarrow> nat \<times> nat" where
  "decode_rune s =
     (let v = (\<lambda>i. unat (s ! i)) in
      if seq_len s = 1 then (v 0, 1)
      else if seq_len s = 2 then (v 0 mod 32 * 64 + v 1 mod 64, 2)
      else if seq_len s = 3 then (v 0 mod 16 * 4096 + v 1 mod 64 * 64 + v 2 mod 64, 3)
      else if seq_len s = 4 then
        (v 0 mod 8 * 262144 + v 1 mod 64 * 4096 + v 2 mod 64 * 64 + v 3 mod 64, 4)
      else (0xFFFD, 1))"

section \<open>The decoder\<close>

text \<open>
  The switch over the lead byte: the number of continuation bytes it needs and the range
  of the first of them; \<open>None\<close> is the default arm.
\<close>

definition lead_byte :: "byte \<Rightarrow> (nat \<times> byte \<times> byte) option" where
  "lead_byte c =
     (if 0xC2 \<le> c \<and> c \<le> 0xDF then Some (1, 0x80, 0xBF)
      else if c = 0xE0 then Some (2, 0xA0, 0xBF)
      else if c = 0xED then Some (2, 0x80, 0x9F)
      else if 0xE1 \<le> c \<and> c \<le> 0xEF then Some (2, 0x80, 0xBF)
      else if c = 0xF0 then Some (3, 0x90, 0xBF)
      else if c = 0xF4 then Some (3, 0x80, 0x8F)
      else if 0xF1 \<le> c \<and> c \<le> 0xF3 then Some (3, 0x80, 0xBF)
      else None)"

text \<open>The inner loop: how many continuation bytes are in range, at most \<open>need\<close>.\<close>

fun cont_run :: "nat \<Rightarrow> byte \<Rightarrow> byte \<Rightarrow> bytes \<Rightarrow> nat" where
  "cont_run 0 lower upper body = 0"
| "cont_run (Suc need) lower upper [] = 0"
| "cont_run (Suc need) lower upper (b # body) =
     (if b < lower \<or> b > upper then 0 else Suc (cont_run need 0x80 0xBF body))"

lemma cont_run_numeral [simp]:
  "cont_run (numeral k) lower upper [] = 0"
  "cont_run (numeral k) lower upper (b # body) =
     (if b < lower \<or> b > upper then 0 else Suc (cont_run (pred_numeral k) 0x80 0xBF body))"
  by (simp_all add: numeral_eq_Suc)

definition rune_error :: bytes where
  "rune_error = [0xEF, 0xBF, 0xBD]"

function decode_loop :: "bytes \<Rightarrow> bytes" where
  "decode_loop [] = []"
| "decode_loop (c # body) =
     (if c < 0x80 then c # decode_loop body
      else (case lead_byte c of
          None \<Rightarrow> rune_error @ decode_loop body
        | Some (need, lower, upper) \<Rightarrow>
            (let n = cont_run need lower upper body in
             (if n = need then c # take n body else rune_error)
               @ decode_loop (drop n body))))"
  by pat_completeness auto
termination
  by (relation "measure length") auto

declare decode_loop.simps(2) [simp del]

definition decodeUTF8 :: "bytes \<Rightarrow> bytes" where
  "decodeUTF8 body = (if utf8_valid body then body else decode_loop body)"

function utf16Length :: "bytes \<Rightarrow> nat" where
  "utf16Length s =
     (if s = [] then 0
      else (let (r, width) = decode_rune s in
            (if r \<ge> 0x10000 then 2 else 1) + utf16Length (drop width s)))"
  by pat_completeness auto
termination
  by (relation "measure length") (auto simp: decode_rune_def Let_def split: if_splits)

declare utf16Length.simps [simp del]

section \<open>Lemmas\<close>

lemma utf8_valid_Nil [simp]: "utf8_valid []"
  by (simp add: utf8_valid.simps)

lemma utf8_valid_step: "seq_len s \<noteq> 0 \<Longrightarrow> utf8_valid s = utf8_valid (drop (seq_len s) s)"
  by (subst utf8_valid.simps) auto

lemma first_byte_lead_byte: "first_byte c = lead_byte c"
  unfolding first_byte_def lead_byte_def by (simp add: word_le_nat_alt word_less_nat_alt word_unat_eq_iff)

lemma first_byte_pos: "first_byte c = Some (n, lo, hi) \<Longrightarrow> 0 < n"
  by (auto simp: first_byte_def split: if_splits)

lemma cont_run_le: "cont_run n lo hi r \<le> n"
  by (induction n lo hi r rule: cont_run.induct) auto

lemma cont_run_cont: "cont_run n 0x80 0xBF r = n \<longleftrightarrow> n \<le> length r \<and> list_all is_cont (take n r)"
proof (induction n arbitrary: r)
  case (Suc n)
  then show ?case by (cases r) (auto simp: is_cont_def not_less)
qed simp

lemma cont_run_full:
  "cont_run (Suc n) lo hi r = Suc n \<longleftrightarrow>
     Suc n \<le> length r \<and> lo \<le> hd r \<and> hd r \<le> hi \<and> list_all is_cont (take n (tl r))"
  by (cases r) (auto simp: cont_run_cont not_less)

lemma seq_len_Cons:
  "seq_len (c # body) =
     (if c < 0x80 then 1
      else (case lead_byte c of
          None \<Rightarrow> 0
        | Some (need, lower, upper) \<Rightarrow>
            (if cont_run need lower upper body = need then Suc need else 0)))"
proof (cases "first_byte c")
  case None
  then show ?thesis by (simp add: seq_len_def first_byte_lead_byte)
next
  case (Some t)
  obtain n lo hi where t: "t = (n, lo, hi)" by (cases t)
  with Some obtain m where "n = Suc m" using first_byte_pos by (cases n) fastforce+
  with Some t show ?thesis
    by (simp add: seq_len_def first_byte_lead_byte cont_run_full del: cont_run.simps)
qed

lemma cont_run_append: "cont_run n lo hi r = n \<Longrightarrow> cont_run n lo hi (r @ t) = n"
  by (induction n lo hi r rule: cont_run.induct) (auto split: if_splits)

lemma seq_len_append: "seq_len s \<noteq> 0 \<Longrightarrow> seq_len (s @ t) = seq_len s"
  by (cases s) (auto simp: seq_len_Cons cont_run_append split: option.splits if_splits)

lemma cont_run_take: "cont_run n lo hi r = n \<Longrightarrow> cont_run n lo hi (take n r) = n"
  by (induction n lo hi r rule: cont_run.induct) (auto split: if_splits)

lemma seq_len_take: "seq_len s \<noteq> 0 \<Longrightarrow> seq_len (take (seq_len s) s) = seq_len s"
  by (cases s) (auto simp: seq_len_Cons cont_run_take split: option.splits if_splits)

lemma utf8_valid_prepend:
  assumes "seq_len u = length u" and "u \<noteq> []"
  shows "utf8_valid (u @ s) = utf8_valid s"
proof -
  have n: "seq_len u \<noteq> 0"
    using assms by simp
  have "seq_len (u @ s) = length u"
    using seq_len_append [OF n, of s] assms(1) by simp
  with assms show ?thesis
    by (simp add: utf8_valid_step)
qed

lemma seq_len_rune_error: "seq_len rune_error = length rune_error"
  by (simp add: seq_len_Cons rune_error_def lead_byte_def)

lemma lead_not_ascii: "lead_byte c = Some t \<Longrightarrow> \<not> c < 0x80"
  by (auto simp: lead_byte_def word_less_nat_alt word_le_nat_alt split: if_splits)

lemma cont_run_length: "cont_run n lo hi r \<le> length r"
  by (induction n lo hi r rule: cont_run.induct) auto

lemma seq_len_whole:
  assumes "\<not> c < 0x80" and "lead_byte c = Some (n, lo, hi)" and "cont_run n lo hi body = n"
  shows "seq_len (c # take n body) = Suc n"
proof -
  have "cont_run n lo hi (take n body) = n"
    using assms(3) by (induction n lo hi body rule: cont_run.induct) (auto split: if_splits)
  with assms(1,2) show ?thesis by (simp add: seq_len_Cons)
qed

lemma utf8_valid_ascii: "c < 0x80 \<Longrightarrow> utf8_valid (c # s) = utf8_valid s"
  using utf8_valid_prepend [of "[c]" s] by (simp add: seq_len_Cons)

lemma decode_loop_valid: "utf8_valid (decode_loop body)"
proof (induction body rule: decode_loop.induct)
  case 1
  show ?case by simp
next
  case (2 c body)
  have err: "utf8_valid (rune_error @ s) = utf8_valid s" for s
    by (rule utf8_valid_prepend [OF seq_len_rune_error]) (simp add: rune_error_def)
  consider "c < 0x80" | "\<not> c < 0x80" "lead_byte c = None"
    | n lo hi where "\<not> c < 0x80" "lead_byte c = Some (n, lo, hi)"
    by (cases "lead_byte c") auto
  then show ?case
  proof cases
    case 1
    with "2.IH"(1) show ?thesis by (simp add: decode_loop.simps(2) utf8_valid_ascii)
  next
    case 2
    with "2.IH"(2) show ?thesis by (simp add: decode_loop.simps(2) err)
  next
    case 3
    let ?n = "cont_run n lo hi body"
    have IH: "utf8_valid (decode_loop (drop ?n body))"
      using "2.IH"(3) 3 by simp
    show ?thesis
    proof (cases "?n = n")
      case True
      then have len: "length (take n body) = n"
        using cont_run_length [of n lo hi body] by simp
      have "utf8_valid ((c # take n body) @ decode_loop (drop n body)) = utf8_valid (decode_loop (drop n body))"
        by (rule utf8_valid_prepend) (use seq_len_whole [OF 3 True] len in simp_all)
      with IH 3 True show ?thesis by (simp add: decode_loop.simps(2))
    next
      case False
      with IH 3 show ?thesis by (simp add: decode_loop.simps(2) err)
    qed
  qed
qed

lemma decode_loop_id: "utf8_valid body \<Longrightarrow> decode_loop body = body"
proof (induction body rule: decode_loop.induct)
  case 1
  show ?case by simp
next
  case (2 c body)
  show ?case
  proof (cases "c < 0x80")
    case True
    with 2 show ?thesis by (simp add: decode_loop.simps(2) utf8_valid_ascii)
  next
    case False
    from "2.prems" have s: "seq_len (c # body) \<noteq> 0"
      by (subst (asm) utf8_valid.simps) (auto split: if_splits)
    then obtain n lo hi where l: "lead_byte c = Some (n, lo, hi)" "cont_run n lo hi body = n"
      using False by (auto simp: seq_len_Cons split: option.splits if_splits)
    then have "utf8_valid (drop n body)"
      using "2.prems" False utf8_valid_step [OF s] by (simp add: seq_len_Cons)
    with "2.IH"(3) [OF False l(1)] l have "decode_loop (drop n body) = drop n body"
      by simp
    with False l show ?thesis by (simp add: decode_loop.simps(2))
  qed
qed

lemma decodeUTF8_loop: "decodeUTF8 body = decode_loop body"
  by (simp add: decodeUTF8_def decode_loop_id)

lemma decodeUTF8_valid [simp]: "utf8_valid (decodeUTF8 body)"
  by (simp add: decodeUTF8_loop decode_loop_valid)

lemma decodeUTF8_id [simp]: "utf8_valid body \<Longrightarrow> decodeUTF8 body = body"
  by (simp add: decodeUTF8_def)

lemma utf16Length_le: "utf16Length s \<le> 2 * length s"
proof (induction s rule: utf16Length.induct)
  case (1 s)
  show ?case
  proof (cases "s = []")
    case True
    then show ?thesis by (simp add: utf16Length.simps)
  next
    case False
    obtain r w where rw: "decode_rune s = (r, w)" by (cases "decode_rune s")
    then have "w = 1 \<or> w = seq_len s \<and> 0 < w"
      by (auto simp: decode_rune_def Let_def split: if_splits)
    then have w: "0 < w" "w \<le> length s"
      using False seq_len_le [of s] by (auto simp: Suc_le_eq)
    from 1 [OF False rw [symmetric]] have "utf16Length (drop w s) \<le> 2 * (length s - w)" by simp
    with w False rw show ?thesis by (subst utf16Length.simps) auto
  qed
qed

lemma cont_run_high:
  "cont_run n lo hi r = n \<Longrightarrow> 0x80 \<le> lo \<Longrightarrow> b \<in> set (take n r) \<Longrightarrow> 0x80 \<le> b"
  by (induction n lo hi r rule: cont_run.induct) (auto split: if_splits)

lemma lead_byte_low: "lead_byte c = Some (n, lo, hi) \<Longrightarrow> 0x80 \<le> lo"
  by (auto simp: lead_byte_def split: if_splits)

lemma seq_len_multi:
  assumes "seq_len s = n" and "n \<noteq> 0" and "b \<in> set (take n s)"
  shows "n = 1 \<and> s \<noteq> [] \<and> b = hd s \<or> 0x80 \<le> b"
proof (cases s)
  case Nil
  with assms show ?thesis by simp
next
  case (Cons c body)
  show ?thesis
  proof (cases "c < 0x80")
    case True
    with assms Cons show ?thesis by (auto simp: seq_len_Cons)
  next
    case False
    with assms Cons obtain k lo hi where
      k: "lead_byte c = Some (k, lo, hi)" "cont_run k lo hi body = k" "n = Suc k"
      by (auto simp: seq_len_Cons split: option.splits if_splits)
    with assms(3) Cons consider "b = c" | "b \<in> set (take k body)" by auto
    then show ?thesis
      using False k(2) lead_byte_low [OF k(1)] cont_run_high [of k lo hi body b]
      by cases (auto simp: not_less)
  qed
qed

lemma utf8_valid_takeWhile:
  assumes "z < 0x80"
  shows "utf8_valid s \<Longrightarrow> utf8_valid (takeWhile (\<lambda>b. b \<noteq> z) s)"
proof (induction s rule: utf8_valid.induct)
  case (1 s)
  show ?case
  proof (cases "s = [] \<or> hd s = z")
    case True
    then show ?thesis by (cases s) simp_all
  next
    case False
    let ?n = "seq_len s"
    from False have ne: "s \<noteq> []" "hd s \<noteq> z" by simp_all
    have n: "?n \<noteq> 0"
      using "1.prems" ne(1) utf8_valid.simps [of s] by (simp split: if_splits)
    have rest: "utf8_valid (drop ?n s)"
      using "1.prems" utf8_valid_step [OF n] by simp
    have neq: "b \<noteq> z" if "b \<in> set (take ?n s)" for b
    proof -
      from seq_len_multi [OF refl n that] consider "b = hd s" | "0x80 \<le> b" by blast
      then show ?thesis using ne(2) assms by cases auto
    qed
    have "takeWhile (\<lambda>b. b \<noteq> z) (take ?n s @ drop ?n s) =
        take ?n s @ takeWhile (\<lambda>b. b \<noteq> z) (drop ?n s)"
      by (rule takeWhile_append2) (rule neq)
    then have tw: "takeWhile (\<lambda>b. b \<noteq> z) s = take ?n s @ takeWhile (\<lambda>b. b \<noteq> z) (drop ?n s)"
      by simp
    have "seq_len (take ?n s) = ?n"
      by (rule seq_len_take) (fact n)
    then have "utf8_valid (take ?n s @ t) = utf8_valid t" for t
      using utf8_valid_prepend [of "take ?n s" t] seq_len_le [of s] n ne(1) by auto
    moreover have "utf8_valid (takeWhile (\<lambda>b. b \<noteq> z) (drop ?n s))"
      by (rule "1.IH") (use ne n rest in simp_all)
    ultimately show ?thesis by (simp only: tw)
  qed
qed

end
