(* ===== verification/Tlv.thy ===== *)
theory Tlv
  imports Utf8
begin

text \<open>
  The TLV data model and encoder (\<^verbatim>\<open>tlv/tlv.go\<close>, \<^verbatim>\<open>tlv/encode.go\<close>, \<open>PutRawElement\<close> of
  \<^verbatim>\<open>tlv/raw.go\<close>). An \<open>ElementType\<close> and a \<open>TagKind\<close> are the byte the source
  declares; the constants are abbreviations of their values. The encoder is a record of the
  buffer, the open-container count and the stack of open container types; each method
  takes the encoder and returns the updated one, a returned error or a panic. A
  floating-point value is its IEEE bit pattern. Log output is not modelled.
\<close>

unbundle bit_operations_syntax

section \<open>Constants and data\<close>

type_synonym element_type = byte
type_synonym tag_kind = byte

abbreviation TypeSignedInt1 :: element_type where "TypeSignedInt1 \<equiv> 0x00"
abbreviation TypeSignedInt2 :: element_type where "TypeSignedInt2 \<equiv> 0x01"
abbreviation TypeSignedInt4 :: element_type where "TypeSignedInt4 \<equiv> 0x02"
abbreviation TypeSignedInt8 :: element_type where "TypeSignedInt8 \<equiv> 0x03"
abbreviation TypeUnsignedInt1 :: element_type where "TypeUnsignedInt1 \<equiv> 0x04"
abbreviation TypeUnsignedInt2 :: element_type where "TypeUnsignedInt2 \<equiv> 0x05"
abbreviation TypeUnsignedInt4 :: element_type where "TypeUnsignedInt4 \<equiv> 0x06"
abbreviation TypeUnsignedInt8 :: element_type where "TypeUnsignedInt8 \<equiv> 0x07"
abbreviation TypeBoolFalse :: element_type where "TypeBoolFalse \<equiv> 0x08"
abbreviation TypeBoolTrue :: element_type where "TypeBoolTrue \<equiv> 0x09"
abbreviation TypeFloat4 :: element_type where "TypeFloat4 \<equiv> 0x0A"
abbreviation TypeFloat8 :: element_type where "TypeFloat8 \<equiv> 0x0B"
abbreviation TypeUTF8Str1 :: element_type where "TypeUTF8Str1 \<equiv> 0x0C"
abbreviation TypeUTF8Str2 :: element_type where "TypeUTF8Str2 \<equiv> 0x0D"
abbreviation TypeUTF8Str4 :: element_type where "TypeUTF8Str4 \<equiv> 0x0E"
abbreviation TypeUTF8Str8 :: element_type where "TypeUTF8Str8 \<equiv> 0x0F"
abbreviation TypeOctetStr1 :: element_type where "TypeOctetStr1 \<equiv> 0x10"
abbreviation TypeOctetStr2 :: element_type where "TypeOctetStr2 \<equiv> 0x11"
abbreviation TypeOctetStr4 :: element_type where "TypeOctetStr4 \<equiv> 0x12"
abbreviation TypeOctetStr8 :: element_type where "TypeOctetStr8 \<equiv> 0x13"
abbreviation TypeNull :: element_type where "TypeNull \<equiv> 0x14"
abbreviation TypeStructure :: element_type where "TypeStructure \<equiv> 0x15"
abbreviation TypeArray :: element_type where "TypeArray \<equiv> 0x16"
abbreviation TypeList :: element_type where "TypeList \<equiv> 0x17"
abbreviation TypeEndContainer :: element_type where "TypeEndContainer \<equiv> 0x18"

abbreviation TagKindAnonymous :: tag_kind where "TagKindAnonymous \<equiv> 0"
abbreviation TagKindContext :: tag_kind where "TagKindContext \<equiv> 1"
abbreviation TagKindCommonProfile2 :: tag_kind where "TagKindCommonProfile2 \<equiv> 2"
abbreviation TagKindCommonProfile4 :: tag_kind where "TagKindCommonProfile4 \<equiv> 3"
abbreviation TagKindImplicitProfile2 :: tag_kind where "TagKindImplicitProfile2 \<equiv> 4"
abbreviation TagKindImplicitProfile4 :: tag_kind where "TagKindImplicitProfile4 \<equiv> 5"
abbreviation TagKindFullyQualified6 :: tag_kind where "TagKindFullyQualified6 \<equiv> 6"
abbreviation TagKindFullyQualified8 :: tag_kind where "TagKindFullyQualified8 \<equiv> 7"

record tag =
  tag_Kind :: tag_kind
  tag_Vendor :: u16
  tag_Profile :: u16
  tag_Number :: u32

definition AnonymousTag :: tag where
  "AnonymousTag = \<lparr>tag_Kind = TagKindAnonymous, tag_Vendor = 0, tag_Profile = 0, tag_Number = 0\<rparr>"

definition ContextTag :: "byte \<Rightarrow> tag" where
  "ContextTag n =
     \<lparr>tag_Kind = TagKindContext, tag_Vendor = 0, tag_Profile = 0, tag_Number = ucast n\<rparr>"

definition CommonTag :: "u32 \<Rightarrow> tag" where
  "CommonTag n =
     (if n \<le> 0xFFFF
      then \<lparr>tag_Kind = TagKindCommonProfile2, tag_Vendor = 0, tag_Profile = 0, tag_Number = n\<rparr>
      else \<lparr>tag_Kind = TagKindCommonProfile4, tag_Vendor = 0, tag_Profile = 0, tag_Number = n\<rparr>)"

definition ImplicitTag :: "u32 \<Rightarrow> tag" where
  "ImplicitTag n =
     (if n \<le> 0xFFFF
      then \<lparr>tag_Kind = TagKindImplicitProfile2, tag_Vendor = 0, tag_Profile = 0, tag_Number = n\<rparr>
      else \<lparr>tag_Kind = TagKindImplicitProfile4, tag_Vendor = 0, tag_Profile = 0, tag_Number = n\<rparr>)"

definition FullyQualifiedTag :: "u16 \<Rightarrow> u16 \<Rightarrow> u32 \<Rightarrow> tag" where
  "FullyQualifiedTag vendor profile number =
     (let kind = (if number > 0xFFFF then TagKindFullyQualified8 else TagKindFullyQualified6)
      in \<lparr>tag_Kind = kind, tag_Vendor = vendor, tag_Profile = profile, tag_Number = number\<rparr>)"

record element =
  el_Tag :: tag
  el_Type :: element_type
  el_Bool :: bool
  el_Uint :: u64
  el_Int :: "64 word"
  el_Float :: u64
  el_String :: bytes
  el_Octets :: bytes
  el_IsNull :: bool
  el_IsContainer :: bool
  el_IsEndContainer :: bool
  el_RawLength :: u32

text \<open>The zero value of \<open>Element\<close> with a tag and a type, as the decoder starts it.\<close>

definition new_element :: "tag \<Rightarrow> element_type \<Rightarrow> element" where
  "new_element t ty =
     \<lparr>el_Tag = t, el_Type = ty, el_Bool = False, el_Uint = 0, el_Int = 0, el_Float = 0,
      el_String = [], el_Octets = [], el_IsNull = False, el_IsContainer = False,
      el_IsEndContainer = False, el_RawLength = 0\<rparr>"

datatype tlv_error =
    ErrTruncated | ErrInvalidElementType | ErrInvalidTagKind | ErrStrictTagViolation
  | ErrImplicitProfileTag | ErrLengthOverflow | ErrUnbalancedContainer
  | ErrInt8NullableSentinel | ErrInt16NullableSentinel | ErrInt32NullableSentinel
  | ErrUint8NullableSentinel | ErrUint16NullableSentinel | ErrUint32NullableSentinel
  | ErrUint64NullableSentinel
  | ErrNotArray | ErrTrailingBytes | ErrEmptyRawElement | ErrRawElementTagged
  | ErrEOF

section \<open>Encoder\<close>

record encoder =
  enc_buf :: bytes
  enc_openCont :: nat
  enc_containerStack :: "element_type list"

definition NewEncoder :: encoder where
  "NewEncoder = \<lparr>enc_buf = [], enc_openCont = 0, enc_containerStack = []\<rparr>"

definition emit :: "encoder \<Rightarrow> bytes \<Rightarrow> encoder" where
  "emit e bs = e\<lparr>enc_buf := enc_buf e @ bs\<rparr>"

definition Bytes :: "encoder \<Rightarrow> (tlv_error, bytes) go" where
  "Bytes e = (if enc_openCont e \<noteq> 0 then Inl (Fail ErrUnbalancedContainer) else Inr (enc_buf e))"

text \<open>The tag bytes that follow the control byte.\<close>

definition tag_bytes :: "tag \<Rightarrow> bytes" where
  "tag_bytes t =
     (let k = tag_Kind t in
      if k = TagKindAnonymous then []
      else if k = TagKindContext then [ucast (tag_Number t)]
      else if k = TagKindCommonProfile2 \<or> k = TagKindImplicitProfile2 then
        put_u16 (ucast (tag_Number t))
      else if k = TagKindCommonProfile4 \<or> k = TagKindImplicitProfile4 then put_u32 (tag_Number t)
      else if k = TagKindFullyQualified6 then
        put_u16 (tag_Vendor t) @ put_u16 (tag_Profile t) @ put_u16 (ucast (tag_Number t))
      else if k = TagKindFullyQualified8 then
        put_u16 (tag_Vendor t) @ put_u16 (tag_Profile t) @ put_u32 (tag_Number t)
      else [])"

definition control_byte :: "element_type \<Rightarrow> tag \<Rightarrow> byte" where
  "control_byte t tg = push_bit 5 (tag_Kind tg) OR t"

definition writeControlAndTag :: "encoder \<Rightarrow> element_type \<Rightarrow> tag \<Rightarrow> (tlv_error, encoder) go" where
  "writeControlAndTag e t tg =
     (if enc_containerStack e \<noteq> [] \<and> last (enc_containerStack e) = TypeArray
         \<and> tag_Kind tg = TagKindContext
      then Inl Panic
      else Inr (emit e (control_byte t tg # tag_bytes tg)))"

definition PutBool :: "encoder \<Rightarrow> tag \<Rightarrow> bool \<Rightarrow> (tlv_error, encoder) go" where
  "PutBool e tg v = writeControlAndTag e (if v then TypeBoolTrue else TypeBoolFalse) tg"

definition PutNull :: "encoder \<Rightarrow> tag \<Rightarrow> (tlv_error, encoder) go" where
  "PutNull e tg = writeControlAndTag e TypeNull tg"

text \<open>Control byte and tag, then the bytes of the value.\<close>

definition put_value :: "encoder \<Rightarrow> element_type \<Rightarrow> tag \<Rightarrow> bytes \<Rightarrow> (tlv_error, encoder) go" where
  "put_value e t tg bs = and_then (writeControlAndTag e t tg) (\<lambda>e'. Inr (emit e' bs))"

definition PutUint16 :: "encoder \<Rightarrow> tag \<Rightarrow> u16 \<Rightarrow> (tlv_error, encoder) go" where
  "PutUint16 e tg v = put_value e TypeUnsignedInt2 tg (put_u16 v)"

definition PutUint32 :: "encoder \<Rightarrow> tag \<Rightarrow> u32 \<Rightarrow> (tlv_error, encoder) go" where
  "PutUint32 e tg v = put_value e TypeUnsignedInt4 tg (put_u32 v)"

definition PutUint :: "encoder \<Rightarrow> tag \<Rightarrow> u64 \<Rightarrow> (tlv_error, encoder) go" where
  "PutUint e tg v =
     (if v \<le> 0xFF then put_value e TypeUnsignedInt1 tg [ucast (v AND 0xFF)]
      else if v \<le> 0xFFFF then put_value e TypeUnsignedInt2 tg (put_u16 (ucast (v AND 0xFFFF)))
      else if v \<le> 0xFFFFFFFF then
        put_value e TypeUnsignedInt4 tg (put_u32 (ucast (v AND 0xFFFFFFFF)))
      else put_value e TypeUnsignedInt8 tg (put_u64 v))"

definition PutUint64 :: "encoder \<Rightarrow> tag \<Rightarrow> u64 \<Rightarrow> (tlv_error, encoder) go" where
  "PutUint64 e tg v = PutUint e tg v"

definition PutUintWidth :: "encoder \<Rightarrow> tag \<Rightarrow> u64 \<Rightarrow> int \<Rightarrow> (tlv_error, encoder) go" where
  "PutUintWidth e tg v widthBytes =
     (if widthBytes = 1 then put_value e TypeUnsignedInt1 tg [ucast (v AND 0xFF)]
      else if widthBytes = 2 then put_value e TypeUnsignedInt2 tg (put_u16 (ucast (v AND 0xFFFF)))
      else if widthBytes = 4 then
        put_value e TypeUnsignedInt4 tg (put_u32 (ucast (v AND 0xFFFFFFFF)))
      else if widthBytes = 8 then put_value e TypeUnsignedInt8 tg (put_u64 v)
      else Inl Panic)"

definition PutInt16 :: "encoder \<Rightarrow> tag \<Rightarrow> 16 word \<Rightarrow> (tlv_error, encoder) go" where
  "PutInt16 e tg v = put_value e TypeSignedInt2 tg (put_u16 v)"

definition PutInt32 :: "encoder \<Rightarrow> tag \<Rightarrow> 32 word \<Rightarrow> (tlv_error, encoder) go" where
  "PutInt32 e tg v = put_value e TypeSignedInt4 tg (put_u32 v)"

definition PutInt64 :: "encoder \<Rightarrow> tag \<Rightarrow> 64 word \<Rightarrow> (tlv_error, encoder) go" where
  "PutInt64 e tg v = put_value e TypeSignedInt8 tg (put_u64 v)"

definition PutInt :: "encoder \<Rightarrow> tag \<Rightarrow> 64 word \<Rightarrow> (tlv_error, encoder) go" where
  "PutInt e tg v =
     (if sint v \<ge> - 0x80 \<and> sint v \<le> 0x7F then put_value e TypeSignedInt1 tg [ucast v]
      else if sint v \<ge> - 0x8000 \<and> sint v \<le> 0x7FFF then
        put_value e TypeSignedInt2 tg (put_u16 (ucast v))
      else if sint v \<ge> - 0x80000000 \<and> sint v \<le> 0x7FFFFFFF then
        put_value e TypeSignedInt4 tg (put_u32 (ucast v))
      else put_value e TypeSignedInt8 tg (put_u64 v))"

definition PutFloat32 :: "encoder \<Rightarrow> tag \<Rightarrow> u32 \<Rightarrow> (tlv_error, encoder) go" where
  "PutFloat32 e tg bits = put_value e TypeFloat4 tg (put_u32 bits)"

definition PutFloat64 :: "encoder \<Rightarrow> tag \<Rightarrow> u64 \<Rightarrow> (tlv_error, encoder) go" where
  "PutFloat64 e tg bits = put_value e TypeFloat8 tg (put_u64 bits)"

subsection \<open>Strings\<close>

definition writeStringLike ::
  "encoder \<Rightarrow> tag \<Rightarrow> bytes \<Rightarrow> element_type \<Rightarrow> element_type \<Rightarrow> element_type \<Rightarrow> element_type
    \<Rightarrow> (tlv_error, encoder) go" where
  "writeStringLike e tg b t1 t2 t4 t8 =
     (let n = length b in
      if n \<le> 0xFF then put_value e t1 tg ([word_of_nat n] @ b)
      else if n \<le> 0xFFFF then put_value e t2 tg (put_u16 (word_of_nat n) @ b)
      else if n \<le> 0xFFFFFFFF then put_value e t4 tg (put_u32 (word_of_nat n) @ b)
      else put_value e t8 tg (put_u64 (word_of_nat n) @ b))"

definition validUTF8 :: "bytes \<Rightarrow> bytes" where
  "validUTF8 s = (if utf8_valid s then s else decodeUTF8 s)"

definition put_utf8_bytes :: "encoder \<Rightarrow> tag \<Rightarrow> bytes \<Rightarrow> (tlv_error, encoder) go" where
  "put_utf8_bytes e tg b = writeStringLike e tg b TypeUTF8Str1 TypeUTF8Str2 TypeUTF8Str4 TypeUTF8Str8"

definition PutUTF8 :: "encoder \<Rightarrow> tag \<Rightarrow> bytes \<Rightarrow> (tlv_error, encoder) go" where
  "PutUTF8 e tg s = put_utf8_bytes e tg (validUTF8 s)"

text \<open>The trim loop of \<open>PutUTF8WithMax\<close>: it stops at the empty string.\<close>

function trim_or_empty :: "bytes \<Rightarrow> bytes" where
  "trim_or_empty s =
     (if s = [] then s else if utf8_valid s then s else trim_or_empty (butlast s))"
  by pat_completeness auto
termination
  by (relation "measure length") auto

declare trim_or_empty.simps [simp del]

definition PutUTF8WithMax :: "encoder \<Rightarrow> tag \<Rightarrow> bytes \<Rightarrow> int \<Rightarrow> (tlv_error, encoder) go" where
  "PutUTF8WithMax e tg s maxBytes =
     (let s1 = validUTF8 s in
      if maxBytes > 0 \<and> int (length s1) > maxBytes
      then put_utf8_bytes e tg (trim_or_empty (take (nat maxBytes) s1))
      else put_utf8_bytes e tg s1)"

definition PutOctets :: "encoder \<Rightarrow> tag \<Rightarrow> bytes \<Rightarrow> (tlv_error, encoder) go" where
  "PutOctets e tg b = writeStringLike e tg b TypeOctetStr1 TypeOctetStr2 TypeOctetStr4 TypeOctetStr8"

text \<open>
  The trim loop of \<open>PutUTF8Bounded\<close> has no empty-string guard: cutting the last byte of an
  empty slice would panic.
\<close>

function trim_valid :: "bytes \<Rightarrow> (tlv_error, bytes) go" where
  "trim_valid b =
     (if utf8_valid b then Inr b else if b = [] then Inl Panic else trim_valid (butlast b))"
  by pat_completeness auto
termination
  by (relation "measure length") auto

declare trim_valid.simps [simp del]

definition PutUTF8Bounded :: "encoder \<Rightarrow> tag \<Rightarrow> bytes \<Rightarrow> int \<Rightarrow> (tlv_error, encoder) go" where
  "PutUTF8Bounded e tg s maxBytes =
     (let b = validUTF8 s in
      if maxBytes \<le> 0 \<or> int (length b) \<le> maxBytes then put_utf8_bytes e tg b
      else and_then (trim_valid (take (nat maxBytes) b)) (put_utf8_bytes e tg))"

subsection \<open>Containers\<close>

definition open_container :: "encoder \<Rightarrow> element_type \<Rightarrow> tag \<Rightarrow> (tlv_error, encoder) go" where
  "open_container e t tg =
     and_then (writeControlAndTag e t tg)
       (\<lambda>e'. Inr (e'\<lparr>enc_openCont := enc_openCont e' + 1,
                     enc_containerStack := enc_containerStack e' @ [t]\<rparr>))"

definition StartStruct :: "encoder \<Rightarrow> tag \<Rightarrow> (tlv_error, encoder) go" where
  "StartStruct e tg = open_container e TypeStructure tg"

definition StartArray :: "encoder \<Rightarrow> tag \<Rightarrow> (tlv_error, encoder) go" where
  "StartArray e tg = open_container e TypeArray tg"

definition StartList :: "encoder \<Rightarrow> tag \<Rightarrow> (tlv_error, encoder) go" where
  "StartList e tg = open_container e TypeList tg"

definition EndContainer :: "encoder \<Rightarrow> (tlv_error, encoder) go" where
  "EndContainer e =
     (if enc_openCont e = 0 then Inl (Fail ErrUnbalancedContainer)
      else
        (let e1 = e\<lparr>enc_openCont := enc_openCont e - 1\<rparr>;
             e2 = (if enc_containerStack e1 \<noteq> []
                   then e1\<lparr>enc_containerStack := butlast (enc_containerStack e1)\<rparr> else e1)
         in Inr (emit e2 [TypeEndContainer])))"

subsection \<open>Values with a reserved null sentinel\<close>

definition PutInt8Bounded :: "encoder \<Rightarrow> tag \<Rightarrow> 8 word \<Rightarrow> (tlv_error, encoder) go" where
  "PutInt8Bounded e tg v =
     (if sint v = - 128 then Inl (Fail ErrInt8NullableSentinel) else PutInt e tg (scast v))"

definition PutInt16Bounded :: "encoder \<Rightarrow> tag \<Rightarrow> 16 word \<Rightarrow> (tlv_error, encoder) go" where
  "PutInt16Bounded e tg v =
     (if sint v = - 32768 then Inl (Fail ErrInt16NullableSentinel) else PutInt e tg (scast v))"

definition PutInt32Bounded :: "encoder \<Rightarrow> tag \<Rightarrow> 32 word \<Rightarrow> (tlv_error, encoder) go" where
  "PutInt32Bounded e tg v =
     (if sint v = - 2147483648 then Inl (Fail ErrInt32NullableSentinel)
      else PutInt e tg (scast v))"

definition PutUint8Bounded :: "encoder \<Rightarrow> tag \<Rightarrow> 8 word \<Rightarrow> (tlv_error, encoder) go" where
  "PutUint8Bounded e tg v =
     (if v = 0xFF then Inl (Fail ErrUint8NullableSentinel) else PutUint e tg (ucast v))"

definition PutUint16Bounded :: "encoder \<Rightarrow> tag \<Rightarrow> 16 word \<Rightarrow> (tlv_error, encoder) go" where
  "PutUint16Bounded e tg v =
     (if v = 0xFFFF then Inl (Fail ErrUint16NullableSentinel) else PutUint e tg (ucast v))"

definition PutUint32Bounded :: "encoder \<Rightarrow> tag \<Rightarrow> 32 word \<Rightarrow> (tlv_error, encoder) go" where
  "PutUint32Bounded e tg v =
     (if v = 0xFFFFFFFF then Inl (Fail ErrUint32NullableSentinel) else PutUint e tg (ucast v))"

definition PutUint64Bounded :: "encoder \<Rightarrow> tag \<Rightarrow> 64 word \<Rightarrow> (tlv_error, encoder) go" where
  "PutUint64Bounded e tg v =
     (if v = 0xFFFFFFFFFFFFFFFF then Inl (Fail ErrUint64NullableSentinel) else PutUint e tg v)"

definition PutRawElement :: "encoder \<Rightarrow> tag \<Rightarrow> bytes \<Rightarrow> (tlv_error, encoder) go" where
  "PutRawElement e tg el = (case el of
      [] \<Rightarrow> Inl (Fail ErrEmptyRawElement)
    | c # body \<Rightarrow>
        if drop_bit 5 c \<noteq> TagKindAnonymous then Inl (Fail ErrRawElementTagged)
        else put_value e (c AND 0x1F) tg body)"

end
