(* ===== verification/Tlv_Decode.thy ===== *)
theory Tlv_Decode
  imports Tlv
begin

text \<open>
  The TLV decoder (\<^verbatim>\<open>tlv/decode.go\<close>) and the raw-element helpers (\<^verbatim>\<open>tlv/raw.go\<close>). The
  decoder is a record of the buffer and the read position; \<open>Next\<close> returns its result and the
  decoder as it leaves it. Every index and slice of the source is an operation that panics
  out of range, so that the absence of panics is a theorem. The details that errors carry
  for a log line are not modelled.
\<close>

unbundle bit_operations_syntax

section \<open>Decoder\<close>

record decoder =
  dec_buf :: bytes
  dec_pos :: nat

definition NewDecoder :: "bytes \<Rightarrow> decoder" where
  "NewDecoder buf = \<lparr>dec_buf = buf, dec_pos = 0\<rparr>"

definition Remaining :: "decoder \<Rightarrow> int" where
  "Remaining d = int (length (dec_buf d)) - int (dec_pos d)"

definition advance :: "nat \<Rightarrow> decoder \<Rightarrow> decoder" where
  "advance n d = d\<lparr>dec_pos := dec_pos d + n\<rparr>"

definition need :: "decoder \<Rightarrow> nat \<Rightarrow> (tlv_error, unit) go" where
  "need d n =
     (if dec_pos d + n > length (dec_buf d) then Inl (Fail ErrTruncated) else Inr ())"

text \<open>\<open>need(n)\<close>, then the bytes \<open>f\<close> reads at the position, then the position advances by \<open>n\<close>.\<close>

definition take_field :: "nat \<Rightarrow> (bytes \<Rightarrow> nat \<Rightarrow> (tlv_error, 'a) go) \<Rightarrow> (decoder, tlv_error, 'a) reader" where
  "take_field n f d = (case need d n of
      Inl e \<Rightarrow> (Inl e, d)
    | Inr _ \<Rightarrow> (case f (dec_buf d) (dec_pos d) of
        Inl e \<Rightarrow> (Inl e, d)
      | Inr v \<Rightarrow> (Inr v, advance n d)))"

definition u16_at :: "bytes \<Rightarrow> nat \<Rightarrow> (tlv_error, u16) go" where
  "u16_at b i = and_then (slice_from b i) get_u16"

definition u32_at :: "bytes \<Rightarrow> nat \<Rightarrow> (tlv_error, u32) go" where
  "u32_at b i = and_then (slice_from b i) get_u32"

definition u64_at :: "bytes \<Rightarrow> nat \<Rightarrow> (tlv_error, u64) go" where
  "u64_at b i = and_then (slice_from b i) get_u64"

definition readTag :: "tag_kind \<Rightarrow> (decoder, tlv_error, tag) reader" where
  "readTag kind =
     (let tg = AnonymousTag\<lparr>tag_Kind := kind\<rparr> in
      if kind = TagKindAnonymous then Pair (Inr tg)
      else if kind = TagKindContext then
        take_field 1 (\<lambda>b i. and_then (index b i) (\<lambda>v. Inr (tg\<lparr>tag_Number := ucast v\<rparr>)))
      else if kind = TagKindImplicitProfile2 \<or> kind = TagKindImplicitProfile4 then
        Pair (Inl (Fail ErrImplicitProfileTag))
      else if kind = TagKindCommonProfile2 then
        take_field 2 (\<lambda>b i. and_then (u16_at b i) (\<lambda>v. Inr (tg\<lparr>tag_Number := ucast v\<rparr>)))
      else if kind = TagKindCommonProfile4 then
        take_field 4 (\<lambda>b i. and_then (u32_at b i) (\<lambda>v. Inr (tg\<lparr>tag_Number := v\<rparr>)))
      else if kind = TagKindFullyQualified6 then
        take_field 6 (\<lambda>b i.
          and_then (u16_at b i) (\<lambda>vn. and_then (u16_at b (i + 2)) (\<lambda>pr.
            and_then (u16_at b (i + 4)) (\<lambda>nm.
              Inr (tg\<lparr>tag_Vendor := vn, tag_Profile := pr, tag_Number := ucast nm\<rparr>)))))
      else if kind = TagKindFullyQualified8 then
        take_field 8 (\<lambda>b i.
          and_then (u16_at b i) (\<lambda>vn. and_then (u16_at b (i + 2)) (\<lambda>pr.
            and_then (u32_at b (i + 4)) (\<lambda>nm.
              Inr (tg\<lparr>tag_Vendor := vn, tag_Profile := pr, tag_Number := nm\<rparr>)))))
      else Pair (Inr tg))"

definition readU :: "nat \<Rightarrow> (decoder, tlv_error, u64) reader" where
  "readU w =
     take_field w (\<lambda>b i.
       if w = 1 then and_then (index b i) (\<lambda>v. Inr (ucast v))
       else if w = 2 then and_then (u16_at b i) (\<lambda>v. Inr (ucast v))
       else if w = 4 then and_then (u32_at b i) (\<lambda>v. Inr (ucast v))
       else if w = 8 then u64_at b i
       else Inr 0)"

text \<open>
  The body of a string: the declared length is compared with the bytes that remain;
  \<open>readU\<close> has left the position inside the buffer, so the difference is not negative.
\<close>

definition read_body :: "u64 \<Rightarrow> (decoder, tlv_error, bytes) reader" where
  "read_body n d =
     (let remaining = length (dec_buf d) - dec_pos d in
      if unat n > remaining then (Inl (Fail ErrLengthOverflow), d)
      else (case slice (dec_buf d) (dec_pos d) (dec_pos d + unat n) of
          Inl e \<Rightarrow> (Inl e, d)
        | Inr body \<Rightarrow> (Inr body, advance (unat n) d)))"

definition readStringLike :: "nat \<Rightarrow> (decoder, tlv_error, bytes) reader" where
  "readStringLike w = read_then (readU w) read_body"

text \<open>Widening a single-precision bit pattern to the double-precision one (\<^verbatim>\<open>float64(float32)\<close>).\<close>

fun log2_floor :: "nat \<Rightarrow> nat" where
  "log2_floor n = (if n \<le> 1 then 0 else Suc (log2_floor (n div 2)))"

declare log2_floor.simps [simp del]

definition float64_of_float32 :: "u32 \<Rightarrow> u64" where
  "float64_of_float32 b =
     (let s = push_bit 63 (ucast (drop_bit 31 b)) :: u64;
          ex = unat (drop_bit 23 b AND 0xFF);
          m = b AND 0x7FFFFF
      in if ex = 255 then
           (if m = 0 then s OR 0x7FF0000000000000
            else s OR 0x7FF8000000000000 OR push_bit 29 (ucast m))
         else if ex = 0 then
           (if m = 0 then s
            else (let k = log2_floor (unat m) in
                  s OR push_bit 52 (word_of_nat (874 + k))
                    OR (push_bit (52 - k) (ucast m) AND 0xFFFFFFFFFFFFF)))
         else s OR push_bit 52 (word_of_nat (ex + 896)) OR push_bit 29 (ucast m))"

definition width_of :: "element_type \<Rightarrow> element_type \<Rightarrow> nat" where
  "width_of t base = [1, 2, 4, 8] ! unat (t - base)"

text \<open>The string body before the first IS1; a cut string keeps its whole length in \<open>RawLength\<close>.\<close>

definition utf8_element :: "element \<Rightarrow> bytes \<Rightarrow> (tlv_error, element) go" where
  "utf8_element el body =
     (if 0x1F \<in> set body then
        (let n = utf16Length (decodeUTF8 body) in
         if n > 0xFFFFFFFF then Inl (Fail ErrTruncated)
         else Inr (el\<lparr>el_RawLength := word_of_nat n,
                      el_String := decodeUTF8 (takeWhile (\<lambda>b. b \<noteq> 0x1F) body)\<rparr>))
      else Inr (el\<lparr>el_String := decodeUTF8 body\<rparr>))"

definition readValue :: "element \<Rightarrow> (decoder, tlv_error, element) reader" where
  "readValue el =
     (let t = el_Type el in
      if t = TypeBoolFalse then Pair (Inr (el\<lparr>el_Bool := False\<rparr>))
      else if t = TypeBoolTrue then Pair (Inr (el\<lparr>el_Bool := True\<rparr>))
      else if t = TypeNull then Pair (Inr (el\<lparr>el_IsNull := True\<rparr>))
      else if t = TypeSignedInt1 then
        read_then (readU 1) (\<lambda>v. Pair (Inr (el\<lparr>el_Int := scast (ucast v :: 8 word)\<rparr>)))
      else if t = TypeSignedInt2 then
        read_then (readU 2) (\<lambda>v. Pair (Inr (el\<lparr>el_Int := scast (ucast v :: 16 word)\<rparr>)))
      else if t = TypeSignedInt4 then
        read_then (readU 4) (\<lambda>v. Pair (Inr (el\<lparr>el_Int := scast (ucast v :: 32 word)\<rparr>)))
      else if t = TypeSignedInt8 then
        read_then (readU 8) (\<lambda>v. Pair (Inr (el\<lparr>el_Int := v\<rparr>)))
      else if TypeUnsignedInt1 \<le> t \<and> t \<le> TypeUnsignedInt8 then
        read_then (readU (width_of t TypeUnsignedInt1)) (\<lambda>v. Pair (Inr (el\<lparr>el_Uint := v\<rparr>)))
      else if t = TypeFloat4 then
        read_then (readU 4)
          (\<lambda>v. Pair (Inr (el\<lparr>el_Float := float64_of_float32 (ucast (v AND 0xFFFFFFFF))\<rparr>)))
      else if t = TypeFloat8 then
        read_then (readU 8) (\<lambda>v. Pair (Inr (el\<lparr>el_Float := v\<rparr>)))
      else if TypeUTF8Str1 \<le> t \<and> t \<le> TypeUTF8Str8 then
        read_then (readStringLike (width_of t TypeUTF8Str1)) (\<lambda>body. Pair (utf8_element el body))
      else if TypeOctetStr1 \<le> t \<and> t \<le> TypeOctetStr8 then
        read_then (readStringLike (width_of t TypeOctetStr1))
          (\<lambda>body. Pair (Inr (el\<lparr>el_Octets := body\<rparr>)))
      else if t = TypeStructure \<or> t = TypeArray \<or> t = TypeList then
        Pair (Inr (el\<lparr>el_IsContainer := True\<rparr>))
      else Pair (Inl (Fail ErrInvalidElementType)))"

definition end_element :: element where
  "end_element = (new_element AnonymousTag TypeEndContainer)\<lparr>el_IsEndContainer := True\<rparr>"

text \<open>\<open>Next\<close> after it has read the control byte.\<close>

definition next_after :: "byte \<Rightarrow> (decoder, tlv_error, element) reader" where
  "next_after control =
     (let kind = drop_bit 5 control; etype = control AND 0x1F in
      if kind > TagKindFullyQualified8 then Pair (Inl (Fail ErrInvalidTagKind))
      else read_then (readTag kind) (\<lambda>tg.
        if etype = TypeEndContainer then
          (if kind \<noteq> TagKindAnonymous then Pair (Inl (Fail ErrStrictTagViolation))
           else Pair (Inr end_element))
        else readValue (new_element tg etype)))"

definition Next :: "(decoder, tlv_error, element) reader" where
  "Next d =
     (if dec_pos d \<ge> length (dec_buf d) then (Inl (Fail ErrEOF), d)
      else (case index (dec_buf d) (dec_pos d) of
          Inl e \<Rightarrow> (Inl e, d)
        | Inr control \<Rightarrow> next_after control (advance 1 d)))"

end
