(* ===== verification/Tlv_Decode_Lemmas.thy ===== *)
theory Tlv_Decode_Lemmas
  imports Tlv_Decode
begin

text \<open>
  Facts about the cursor of the TLV decoder. \<open>safe_reader\<close> collects what every read
  guarantees from a position inside the buffer: no panic, the buffer unchanged, the position
  moved forward and still inside the buffer. \<open>cursor pre xs\<close> is a decoder that has consumed
  \<open>pre\<close> and has \<open>xs\<close> left; the reads are described on it.
\<close>

unbundle bit_operations_syntax

named_theorems safe_intros \<open>readers that never panic\<close>
named_theorems cursor_simps \<open>reads on a cursor\<close>

section \<open>Safety of the reads\<close>

definition within :: "decoder \<Rightarrow> bool" where
  "within d \<longleftrightarrow> dec_pos d \<le> length (dec_buf d)"

definition moved :: "decoder \<Rightarrow> decoder \<Rightarrow> bool" where
  "moved d d' \<longleftrightarrow> dec_buf d' = dec_buf d \<and> dec_pos d \<le> dec_pos d' \<and> within d'"

definition safe_reader :: "(decoder, tlv_error, 'a) reader \<Rightarrow> bool" where
  "safe_reader m \<longleftrightarrow> (\<forall>d. within d \<longrightarrow> fst (m d) \<noteq> Inl Panic \<and> moved d (snd (m d)))"

lemma safe_readerI:
  assumes "\<And>d. within d \<Longrightarrow> fst (m d) \<noteq> Inl Panic \<and> moved d (snd (m d))"
  shows "safe_reader m"
  using assms by (simp add: safe_reader_def)

lemma moved_trans: "moved a b \<Longrightarrow> moved b c \<Longrightarrow> moved a c"
  by (auto simp: moved_def)

lemma moved_refl: "within d \<Longrightarrow> moved d d"
  by (simp add: moved_def)

lemma safe_Pair [safe_intros]: "r \<noteq> Inl Panic \<Longrightarrow> safe_reader (Pair r)"
  by (auto intro!: safe_readerI moved_refl)

lemma safe_if [safe_intros]:
  "(c \<Longrightarrow> safe_reader m) \<Longrightarrow> (\<not> c \<Longrightarrow> safe_reader n) \<Longrightarrow> safe_reader (if c then m else n)"
  by simp

lemma safe_read_then [safe_intros]:
  assumes m: "safe_reader m" and f: "\<And>x. safe_reader (f x)"
  shows "safe_reader (read_then m f)"
proof (rule safe_readerI)
  fix d
  assume d: "within d"
  obtain r d1 where r: "m d = (r, d1)" by (cases "m d")
  with m d have m1: "r \<noteq> Inl Panic" "moved d d1"
    by (auto simp: safe_reader_def dest: spec [of _ d])
  show "fst (read_then m f d) \<noteq> Inl Panic \<and> moved d (snd (read_then m f d))"
  proof (cases r)
    case (Inl e)
    with m1 r show ?thesis by (simp add: read_then_def)
  next
    case (Inr x)
    have "within d1" using m1(2) by (simp add: moved_def)
    with f [of x] have "fst (f x d1) \<noteq> Inl Panic \<and> moved d1 (snd (f x d1))"
      by (simp add: safe_reader_def)
    with Inr r m1(2) show ?thesis by (auto simp: read_then_def intro: moved_trans)
  qed
qed

lemma safe_take_field:
  assumes "\<And>b i. i + n \<le> length b \<Longrightarrow> f b i \<noteq> Inl Panic"
  shows "safe_reader (take_field n f)"
proof (rule safe_readerI)
  fix d
  assume d: "within d"
  show "fst (take_field n f d) \<noteq> Inl Panic \<and> moved d (snd (take_field n f d))"
  proof (cases "dec_pos d + n \<le> length (dec_buf d)")
    case True
    with assms [of "dec_pos d" "dec_buf d"] d show ?thesis
      by (auto simp: take_field_def need_def moved_def within_def advance_def split: sum.splits)
  next
    case False
    with d show ?thesis by (simp add: take_field_def need_def moved_refl)
  qed
qed

lemma take_field_Inr:
  "take_field n f d = (Inr v, d') \<Longrightarrow> d' = advance n d \<and> dec_pos d + n \<le> length (dec_buf d)"
  by (auto simp: take_field_def need_def split: if_splits sum.splits)

lemma field_at_panic:
  "u16_at b i = Inl Panic \<longleftrightarrow> length b < i + 2"
  "u32_at b i = Inl Panic \<longleftrightarrow> length b < i + 4"
  "u64_at b i = Inl Panic \<longleftrightarrow> length b < i + 8"
  "index b i = Inl Panic \<longleftrightarrow> length b \<le> i"
  by (auto simp: u16_at_def u32_at_def u64_at_def index_def slice_from_def and_then_Panic_iff
      field_get_laws)

lemma safe_readTag [safe_intros]: "safe_reader (readTag kind)"
  unfolding readTag_def Let_def
  by (intro safe_intros safe_take_field) (simp_all add: and_then_Panic_iff field_at_panic)

lemma safe_readU [safe_intros]: "safe_reader (readU w)"
  unfolding readU_def by (rule safe_take_field) (simp add: and_then_Panic_iff field_at_panic)

lemma safe_read_body [safe_intros]: "safe_reader (read_body n)"
  by (rule safe_readerI)
    (auto simp: read_body_def Let_def slice_def within_def moved_def advance_def)

lemma safe_readStringLike [safe_intros]: "safe_reader (readStringLike w)"
  unfolding readStringLike_def by (intro safe_intros)

lemma utf8_element_no_panic: "utf8_element el body \<noteq> Inl Panic"
  by (simp add: utf8_element_def Let_def)

lemma safe_readValue [safe_intros]: "safe_reader (readValue el)"
  unfolding readValue_def Let_def
  by (intro safe_intros) (simp_all add: utf8_element_no_panic)

lemma safe_next_after: "safe_reader (next_after control)"
  unfolding next_after_def Let_def by (intro safe_intros) simp_all

lemma Next_eq:
  "dec_pos d < length (dec_buf d) \<Longrightarrow> Next d = next_after (dec_buf d ! dec_pos d) (advance 1 d)"
  by (simp add: Next_def index_def)

lemma advance_within: "dec_pos d < length (dec_buf d) \<Longrightarrow> within (advance 1 d)"
  by (simp add: within_def advance_def)

lemma Next_moved:
  assumes "dec_pos d < length (dec_buf d)"
  shows "fst (Next d) \<noteq> Inl Panic \<and> moved (advance 1 d) (snd (Next d))"
  using safe_next_after advance_within [OF assms] unfolding Next_eq [OF assms] safe_reader_def
  by blast

lemma advance_sel [simp]:
  "dec_buf (advance n d) = dec_buf d" "dec_pos (advance n d) = dec_pos d + n"
  by (simp_all add: advance_def)

lemma Next_safe:
  "fst (Next d) \<noteq> Inl Panic \<and> dec_buf (snd (Next d)) = dec_buf d \<and>
   (within d \<longrightarrow> moved d (snd (Next d)))"
proof (cases "dec_pos d < length (dec_buf d)")
  case False
  then show ?thesis by (auto simp: Next_def moved_refl)
next
  case True
  from Next_moved [OF True] show ?thesis by (auto simp: moved_def)
qed

lemma Next_consumes:
  assumes n: "Next d = (Inr el, d')"
  shows "dec_buf d' = dec_buf d" and "dec_pos d < dec_pos d'" and "dec_pos d' \<le> length (dec_buf d)"
proof -
  have "dec_pos d < length (dec_buf d)"
    using n by (auto simp: Next_def split: if_splits)
  from Next_moved [OF this] n have "moved (advance 1 d) d'" by simp
  then show "dec_buf d' = dec_buf d" "dec_pos d < dec_pos d'" "dec_pos d' \<le> length (dec_buf d)"
    by (auto simp: moved_def within_def)
qed

interpretation tlv_cursor: consuming_reader Next "\<lambda>d. length (dec_buf d) - dec_pos d"
  by unfold_locales (use Next_consumes in fastforce)

end
