(* ===== verification/Tlv_Walk.thy ===== *)
theory Tlv_Walk
  imports Tlv_Decode_Lemmas
begin

text \<open>
  The loops over a decoder: the flat decoding loop of the package documentation
  (\<open>decode_all\<close>), the strict check of \<^verbatim>\<open>tlv/decode.go\<close> (\<open>Validate\<close>), and the list splitter of
  \<^verbatim>\<open>tlv/raw.go\<close> (\<open>SplitArrayMembers\<close>, \<open>skipContainer\<close>). They end because each read consumes
  input (\<open>Next_consumes\<close>).
\<close>

section \<open>The decoding loop\<close>

function decode_all :: "decoder \<Rightarrow> (tlv_error, element list) go" where
  "decode_all d = (case Next d of (r, d') \<Rightarrow> (case r of
      Inl f \<Rightarrow> (if f = Fail ErrEOF then Inr [] else Inl f)
    | Inr el \<Rightarrow> and_then (decode_all d') (\<lambda>els. Inr (el # els))))"
  by pat_completeness auto
termination
proof (relation "measure (\<lambda>d. length (dec_buf d) - dec_pos d)", goal_cases)
  case (2 d r d' el)
  then show ?case using tlv_cursor.consumes [of d el d'] by (simp add: eq_commute [of _ "Next d"])
qed simp

declare decode_all.simps [simp del]

section \<open>Validate\<close>

text \<open>The strict rules an element's tag must satisfy under its parent container.\<close>

definition tag_rule :: "element_type list \<Rightarrow> element \<Rightarrow> (tlv_error, unit) go" where
  "tag_rule containers el =
     (let parent = (if containers \<noteq> [] then last containers else 0);
          kind = tag_Kind (el_Tag el)
      in if containers = [] \<and> kind = TagKindContext then Inl (Fail ErrStrictTagViolation)
         else if parent = TypeStructure \<and> kind = TagKindAnonymous then
           Inl (Fail ErrStrictTagViolation)
         else if parent = TypeArray \<and> kind \<noteq> TagKindAnonymous then
           Inl (Fail ErrStrictTagViolation)
         else Inr ())"

definition opens_container :: "element \<Rightarrow> bool" where
  "opens_container el \<longleftrightarrow>
     el_Type el = TypeStructure \<or> el_Type el = TypeArray \<or> el_Type el = TypeList"

definition validate_end :: "element_type list \<Rightarrow> (tlv_error, unit) go" where
  "validate_end containers =
     (if containers \<noteq> [] then Inl (Fail ErrUnbalancedContainer) else Inr ())"

function validate_loop :: "decoder \<Rightarrow> element_type list \<Rightarrow> (tlv_error, unit) go" where
  "validate_loop d containers =
     (if Remaining d = 0 then validate_end containers
      else (case Next d of (r, d') \<Rightarrow> (case r of
          Inl f \<Rightarrow> (if f = Fail ErrEOF then validate_end containers else Inl f)
        | Inr el \<Rightarrow>
            if el_IsEndContainer el then
              (if containers = [] then Inl (Fail ErrStrictTagViolation)
               else validate_loop d' (butlast containers))
            else and_then (tag_rule containers el) (\<lambda>_.
              validate_loop d'
                (if opens_container el then containers @ [el_Type el] else containers)))))"
  by pat_completeness auto
termination
proof (relation "measure (\<lambda>(d, cs). length (dec_buf d) - dec_pos d)", goal_cases)
  case (2 d cs r d' el)
  then show ?case using tlv_cursor.consumes [of d el d'] by (simp add: eq_commute [of _ "Next d"])
next
  case (3 d cs r d' el x)
  then show ?case using tlv_cursor.consumes [of d el d'] by (simp add: eq_commute [of _ "Next d"])
qed simp

declare validate_loop.simps [simp del]

definition Validate :: "bytes \<Rightarrow> (tlv_error, unit) go" where
  "Validate buf = validate_loop (NewDecoder buf) []"

section \<open>SplitArrayMembers\<close>

function skip_loop :: "nat \<Rightarrow> (decoder, tlv_error, unit) reader" where
  "skip_loop depth d =
     (if depth = 0 then (Inr (), d)
      else (case Next d of (r, d') \<Rightarrow> (case r of
          Inl f \<Rightarrow> (Inl (if f = Fail ErrEOF then Fail ErrUnbalancedContainer else f), d')
        | Inr el \<Rightarrow>
            if el_IsEndContainer el then skip_loop (depth - 1) d'
            else if el_IsContainer el then skip_loop (depth + 1) d'
            else skip_loop depth d')))"
  by pat_completeness auto
termination
proof (relation "measure (\<lambda>(depth, d). length (dec_buf d) - dec_pos d)", goal_cases)
  case (2 depth d r d' el)
  then show ?case using tlv_cursor.consumes [of d el d'] by (simp add: eq_commute [of _ "Next d"])
next
  case (3 depth d r d' el)
  then show ?case using tlv_cursor.consumes [of d el d'] by (simp add: eq_commute [of _ "Next d"])
next
  case (4 depth d r d' el)
  then show ?case using tlv_cursor.consumes [of d el d'] by (simp add: eq_commute [of _ "Next d"])
qed simp

declare skip_loop.simps [simp del]

definition skipContainer :: "(decoder, tlv_error, unit) reader" where
  "skipContainer = skip_loop 1"

lemma skip_loop_moves:
  "skip_loop depth d = (Inr u, d') \<Longrightarrow> dec_buf d' = dec_buf d \<and> dec_pos d \<le> dec_pos d'"
proof (induction depth d rule: skip_loop.induct)
  case (1 depth d)
  show ?case
  proof (cases "depth = 0")
    case True
    with "1.prems" show ?thesis by (simp add: skip_loop.simps)
  next
    case False
    obtain r d1 where n: "Next d = (r, d1)" by (cases "Next d")
    with False "1.prems" obtain el where r: "r = Inr el"
      by (cases r) (simp_all add: skip_loop.simps [of depth d])
    have c: "dec_buf d1 = dec_buf d" "dec_pos d \<le> dec_pos d1"
      using Next_consumes [of d el d1] n r by simp_all
    consider "el_IsEndContainer el" | "\<not> el_IsEndContainer el" "el_IsContainer el"
      | "\<not> el_IsEndContainer el" "\<not> el_IsContainer el" by blast
    then have "dec_buf d' = dec_buf d1 \<and> dec_pos d1 \<le> dec_pos d'"
    proof cases
      case 1
      with False n r "1.prems" show ?thesis
        using "1.IH"(1) [OF False n [symmetric] r 1] by (simp add: skip_loop.simps [of depth d])
    next
      case 2
      with False n r "1.prems" show ?thesis
        using "1.IH"(2) [OF False n [symmetric] r 2] by (simp add: skip_loop.simps [of depth d])
    next
      case 3
      with False n r "1.prems" show ?thesis
        using "1.IH"(3) [OF False n [symmetric] r 3] by (simp add: skip_loop.simps [of depth d])
    qed
    with c show ?thesis by simp
  qed
qed

text \<open>What a container's opener leaves to be consumed, before the member is cut out.\<close>

definition finish_member :: "element \<Rightarrow> (decoder, tlv_error, unit) reader" where
  "finish_member el d = (if el_IsContainer el then skipContainer d else (Inr (), d))"

lemma finish_member_moves:
  "finish_member el d = (Inr u, d') \<Longrightarrow> dec_buf d' = dec_buf d \<and> dec_pos d \<le> dec_pos d'"
  using skip_loop_moves [of 1 d u d'] by (auto simp: finish_member_def skipContainer_def split: if_splits)

function split_loop :: "bytes \<Rightarrow> bytes list \<Rightarrow> decoder \<Rightarrow> (tlv_error, bytes list) go" where
  "split_loop encoded out d = (case Next d of (r, d1) \<Rightarrow> (case r of
      Inl f \<Rightarrow> Inl (if f = Fail ErrEOF then Fail ErrUnbalancedContainer else f)
    | Inr el \<Rightarrow>
        if el_IsEndContainer el then
          (if Remaining d1 \<noteq> 0 then Inl (Fail ErrTrailingBytes) else Inr out)
        else (case finish_member el d1 of (s, d2) \<Rightarrow> (case s of
            Inl f \<Rightarrow> Inl f
          | Inr _ \<Rightarrow>
              and_then (slice encoded (dec_pos d) (dec_pos d2)) (\<lambda>member.
                split_loop encoded (out @ [member]) d2)))))"
  by pat_completeness auto
termination
proof (relation "measure (\<lambda>(b, out, d). length (dec_buf d) - dec_pos d)", goal_cases)
  case (2 b out d r d1 el s d2 u member)
  have "dec_buf d1 = dec_buf d" "dec_pos d < dec_pos d1" "dec_pos d1 \<le> length (dec_buf d)"
    using Next_consumes [of d el d1] 2(1,2) by simp_all
  moreover have "dec_buf d2 = dec_buf d1 \<and> dec_pos d1 \<le> dec_pos d2"
    using finish_member_moves [of el d1 u d2] 2(4,5) by simp
  ultimately show ?case by auto
qed simp

declare split_loop.simps [simp del]

definition SplitArrayMembers :: "bytes \<Rightarrow> (tlv_error, bytes list) go" where
  "SplitArrayMembers encoded = (case Next (NewDecoder encoded) of (r, d) \<Rightarrow> (case r of
      Inl f \<Rightarrow> Inl f
    | Inr op \<Rightarrow>
        if el_Type op \<noteq> TypeArray \<and> el_Type op \<noteq> TypeList then Inl (Fail ErrNotArray)
        else split_loop encoded [] d))"

end
