(* ===== verification/Tlv_Cursor.thy ===== *)
theory Tlv_Cursor
  imports Tlv_Walk
begin

text \<open>
  The decoder on a cursor: a read depends only on the bytes it consumes
  (\<open>local_reader\<close>), and the reads invert what the encoder writes.
\<close>

unbundle bit_operations_syntax

section \<open>Reads depend only on what they consume\<close>

definition cursor :: "bytes \<Rightarrow> bytes \<Rightarrow> decoder" where
  "cursor pre xs = \<lparr>dec_buf = pre @ xs, dec_pos = length pre\<rparr>"

lemma cursor_sel [simp]:
  "dec_buf (cursor pre xs) = pre @ xs" "dec_pos (cursor pre xs) = length pre"
  "Remaining (cursor pre xs) = int (length xs)"
  by (simp_all add: cursor_def Remaining_def)

lemma NewDecoder_cursor: "NewDecoder b = cursor [] b"
  by (simp add: NewDecoder_def cursor_def)

lemma advance_cursor [simp]: "n = length c \<Longrightarrow> advance n (cursor pre (c @ ys)) = cursor (pre @ c) ys"
  by (simp add: cursor_def advance_def)

lemma advance_cursor1: "advance (Suc 0) (cursor pre (c # ys)) = cursor (pre @ [c]) ys"
  by (simp add: cursor_def advance_def)

lemma cursor_eq_iff [simp]: "cursor pre xs = cursor pre' xs' \<longleftrightarrow> pre = pre' \<and> xs = xs'"
proof
  assume a: "cursor pre xs = cursor pre' xs'"
  then have "length pre = length pre'"
    by (metis cursor_sel(2))
  moreover from a have "pre @ xs = pre' @ xs'"
    by (metis cursor_sel(1))
  ultimately show "pre = pre' \<and> xs = xs'" by simp
qed simp

lemma within_cursor: "within d \<Longrightarrow> d = cursor (take (dec_pos d) (dec_buf d)) (drop (dec_pos d) (dec_buf d))"
  by (simp add: within_def cursor_def)

definition consumes_chunk :: "(decoder, tlv_error, 'a) reader \<Rightarrow> bytes \<Rightarrow> 'a \<Rightarrow> bool" where
  "consumes_chunk m c x \<longleftrightarrow> (\<forall>pre ys. m (cursor pre (c @ ys)) = (Inr x, cursor (pre @ c) ys))"

definition local_reader :: "(decoder, tlv_error, 'a) reader \<Rightarrow> bool" where
  "local_reader m \<longleftrightarrow> (\<forall>pre xs x d'. m (cursor pre xs) = (Inr x, d') \<longrightarrow>
     (\<exists>c ys. xs = c @ ys \<and> d' = cursor (pre @ c) ys \<and> consumes_chunk m c x))"

named_theorems local_intros \<open>readers that depend only on what they consume\<close>

lemma local_readerI:
  assumes "\<And>pre xs x d'. m (cursor pre xs) = (Inr x, d') \<Longrightarrow>
     \<exists>c ys. xs = c @ ys \<and> d' = cursor (pre @ c) ys \<and> consumes_chunk m c x"
  shows "local_reader m"
  using assms by (simp add: local_reader_def)

lemma local_readerE:
  assumes "local_reader m" and "m (cursor pre xs) = (Inr x, d')"
  obtains c ys where "xs = c @ ys" "d' = cursor (pre @ c) ys" "consumes_chunk m c x"
  using assms by (force simp: local_reader_def)

lemma local_Pair [local_intros]: "local_reader (Pair r)"
  by (rule local_readerI) (simp add: consumes_chunk_def)

lemma local_if [local_intros]:
  "(c \<Longrightarrow> local_reader m) \<Longrightarrow> (\<not> c \<Longrightarrow> local_reader n) \<Longrightarrow> local_reader (if c then m else n)"
  by simp

lemma consumes_read_then:
  assumes "consumes_chunk m c x" and "consumes_chunk (f x) c' y"
  shows "consumes_chunk (read_then m f) (c @ c') y"
  using assms by (simp add: consumes_chunk_def read_then_def)

lemma local_read_then [local_intros]:
  assumes m: "local_reader m" and f: "\<And>x. local_reader (f x)"
  shows "local_reader (read_then m f)"
proof (rule local_readerI)
  fix pre xs y d'
  assume "read_then m f (cursor pre xs) = (Inr y, d')"
  then obtain x d1 where 1: "m (cursor pre xs) = (Inr x, d1)" and 2: "f x d1 = (Inr y, d')"
    by (auto simp: read_then_Inr_iff)
  from m 1 obtain c ys where c: "xs = c @ ys" "d1 = cursor (pre @ c) ys" "consumes_chunk m c x"
    by (rule local_readerE)
  from f 2 [unfolded c(2)] obtain c' zs where
    c': "ys = c' @ zs" "d' = cursor ((pre @ c) @ c') zs" "consumes_chunk (f x) c' y"
    by (rule local_readerE)
  have "consumes_chunk (read_then m f) (c @ c') y"
    by (rule consumes_read_then) (fact c(3), fact c'(3))
  with c c' have "xs = (c @ c') @ zs \<and> d' = cursor (pre @ (c @ c')) zs \<and> consumes_chunk (read_then m f) (c @ c') y"
    by simp
  then show "\<exists>c ys. xs = c @ ys \<and> d' = cursor (pre @ c) ys \<and> consumes_chunk (read_then m f) c y"
    by blast
qed

lemma local_take_field:
  assumes f: "\<And>pre c ys. length c = n \<Longrightarrow> f (pre @ c @ ys) (length pre) = f c 0"
  shows "local_reader (take_field n f)"
proof (rule local_readerI)
  fix pre xs x d'
  assume t: "take_field n f (cursor pre xs) = (Inr x, d')"
  then have len: "n \<le> length xs"
    using take_field_Inr [OF t] by simp
  define c where "c = take n xs"
  define ys where "ys = drop n xs"
  have c: "xs = c @ ys" "length c = n"
    using len by (simp_all add: c_def ys_def)
  have fc: "f c 0 = Inr x" "d' = cursor (pre @ c) ys"
    using t c f [of c pre ys] by (auto simp: take_field_def need_def split: sum.splits)
  have "consumes_chunk (take_field n f) c x"
    using fc(1) c(2) f by (simp add: consumes_chunk_def take_field_def need_def)
  with c fc(2) show "\<exists>c ys. xs = c @ ys \<and> d' = cursor (pre @ c) ys \<and> consumes_chunk (take_field n f) c x"
    by blast
qed

lemma field_at_chunk:
  assumes "k + 2 \<le> length c"
  shows "u16_at (pre @ c @ ys) (length pre + k) = u16_at c k"
  using assms by (simp add: u16_at_def slice_from_def u16.get_append)

lemma field_at_chunk32:
  assumes "k + 4 \<le> length c"
  shows "u32_at (pre @ c @ ys) (length pre + k) = u32_at c k"
  using assms by (simp add: u32_at_def slice_from_def u32.get_append)

lemma field_at_chunk64:
  assumes "k + 8 \<le> length c"
  shows "u64_at (pre @ c @ ys) (length pre + k) = u64_at c k"
  using assms by (simp add: u64_at_def slice_from_def u64.get_append)

lemma index_chunk: "1 \<le> length c \<Longrightarrow> index (pre @ c @ ys) (length pre) = index c 0"
  by (cases c) (simp_all add: index_def nth_append)

lemmas chunk_simps = field_at_chunk field_at_chunk32 field_at_chunk64 index_chunk
  field_at_chunk [where k = 0, simplified] field_at_chunk32 [where k = 0, simplified]
  field_at_chunk64 [where k = 0, simplified]

lemma local_readTag [local_intros]: "local_reader (readTag kind)"
  unfolding readTag_def Let_def
  by (intro local_intros local_take_field)
    (simp_all only: chunk_simps add_0 One_nat_def order_refl)

lemma local_readU [local_intros]: "local_reader (readU w)"
  unfolding readU_def by (intro local_take_field) (simp add: chunk_simps)

lemma consumes_read_body: "length c = unat n \<Longrightarrow> consumes_chunk (read_body n) c c"
  by (simp add: consumes_chunk_def read_body_def slice_def)

lemma local_read_body [local_intros]: "local_reader (read_body n)"
proof (rule local_readerI)
  fix pre xs x d'
  assume a: "read_body n (cursor pre xs) = (Inr x, d')"
  then have "unat n \<le> length xs"
    by (auto simp: read_body_def Let_def split: if_splits)
  then obtain c ys where c: "xs = c @ ys" "length c = unat n"
    by (metis append_take_drop_id length_take min.absorb2)
  from consumes_read_body [OF c(2)]
  have "x = c" "d' = cursor (pre @ c) ys"
    using a c(1) by (auto simp: consumes_chunk_def)
  with c consumes_read_body [OF c(2)]
  show "\<exists>c ys. xs = c @ ys \<and> d' = cursor (pre @ c) ys \<and> consumes_chunk (read_body n) c x"
    by blast
qed

lemma local_readStringLike [local_intros]: "local_reader (readStringLike w)"
  unfolding readStringLike_def by (intro local_intros)

lemma local_readValue [local_intros]: "local_reader (readValue el)"
  unfolding readValue_def Let_def by (intro local_intros)

lemma local_next_after: "local_reader (next_after control)"
  unfolding next_after_def Let_def by (intro local_intros)

lemma Next_cursor:
  "Next (cursor pre (control # xs)) = next_after control (cursor (pre @ [control]) xs)"
  "Next (cursor pre []) = (Inl (Fail ErrEOF), cursor pre [])"
  by (simp_all add: Next_def index_def advance_cursor1)

lemma local_Next: "local_reader Next"
proof (rule local_readerI)
  fix pre xs x d'
  assume n: "Next (cursor pre xs) = (Inr x, d')"
  then obtain control xs' where xs: "xs = control # xs'"
    by (cases xs) (simp_all add: Next_cursor)
  with n have "next_after control (cursor (pre @ [control]) xs') = (Inr x, d')"
    by (simp add: Next_cursor)
  from local_next_after this obtain c ys where
    c: "xs' = c @ ys" "d' = cursor ((pre @ [control]) @ c) ys" "consumes_chunk (next_after control) c x"
    by (rule local_readerE)
  then have "consumes_chunk Next (control # c) x"
    by (simp add: consumes_chunk_def Next_cursor)
  with xs c(1,2) show "\<exists>c ys. xs = c @ ys \<and> d' = cursor (pre @ c) ys \<and> consumes_chunk Next c x"
    by (intro exI [of _ "control # c"] exI [of _ ys]) simp
qed

end
