(* ===== verification/Tlv_Roundtrip.thy ===== *)
theory Tlv_Roundtrip
  imports Tlv_Cursor
begin

text \<open>
  What the encoder writes, the decoder reads back, element by element: the bytes that one
  write appends are one chunk that \<open>Next\<close> consumes, whatever surrounds them (\<open>writes\<close>).
\<close>

unbundle bit_operations_syntax

section \<open>Control byte and tag\<close>

lemma control_split:
  fixes k t :: byte
  assumes k: "k \<le> 7" and t: "t < 0x20"
  shows "drop_bit 5 (push_bit 5 k OR t) = k" and "(push_bit 5 k OR t) AND 0x1F = t"
proof -
  have k': "take_bit 3 k = k"
    using k by (intro word_take_bit_self) (simp add: word_le_nat_alt)
  have t': "take_bit 5 t = t"
    using t by (intro word_take_bit_self) (simp add: word_less_nat_alt)
  have "drop_bit 5 (push_bit 5 (take_bit 3 k) OR take_bit 5 t) = take_bit 3 k"
    by (rule bit_word_eqI) (auto simp: bit_simps)
  then show "drop_bit 5 (push_bit 5 k OR t) = k" by (simp only: k' t')
  have "(push_bit 5 k OR take_bit 5 t) AND mask 5 = take_bit 5 t"
    by (rule bit_word_eqI) (auto simp: bit_simps)
  moreover have "(mask 5 :: 8 word) = 0x1F" by (simp add: mask_eq_exp_minus_1)
  ultimately show "(push_bit 5 k OR t) AND 0x1F = t" by (simp only: t')
qed

text \<open>The tags the constructors of \<^verbatim>\<open>tlv.go\<close> build, implicit-profile tags apart.\<close>

definition wf_tag :: "tag \<Rightarrow> bool" where
  "wf_tag tg \<longleftrightarrow>
     (let k = tag_Kind tg; n = tag_Number tg; plain = (tag_Vendor tg = 0 \<and> tag_Profile tg = 0) in
      (k = TagKindAnonymous \<and> plain \<and> n = 0)
    \<or> (k = TagKindContext \<and> plain \<and> n \<le> 0xFF)
    \<or> (k = TagKindCommonProfile2 \<and> plain \<and> n \<le> 0xFFFF)
    \<or> (k = TagKindCommonProfile4 \<and> plain)
    \<or> (k = TagKindFullyQualified6 \<and> n \<le> 0xFFFF)
    \<or> k = TagKindFullyQualified8)"

lemma wf_tag_kind: "wf_tag tg \<Longrightarrow> tag_Kind tg \<le> 7"
  by (auto simp: wf_tag_def Let_def)

lemma wf_tag_constructors:
  "wf_tag AnonymousTag" "wf_tag (ContextTag n)" "wf_tag (CommonTag m)"
  "wf_tag (FullyQualifiedTag v p m)"
proof -
  have "unat n < 256" using unsigned_less [of n] by simp
  then have "(ucast n :: u32) \<le> 0xFF"
    by (simp add: word_le_nat_alt unsigned_ucast_eq take_bit_nat_eq_self)
  then show "wf_tag (ContextTag n)" by (simp add: wf_tag_def ContextTag_def)
qed (auto simp: wf_tag_def AnonymousTag_def CommonTag_def FullyQualifiedTag_def Let_def)

lemma take_field_chunk:
  assumes "length c = n" and "\<And>pre ys. f (pre @ c @ ys) (length pre) = Inr x"
  shows "consumes_chunk (take_field n f) c x"
  using assms by (simp add: consumes_chunk_def take_field_def need_def)

lemma field_at_put [simp]:
  "u16_at (pre @ put_u16 v @ ys) (length pre) = Inr v"
  "u32_at (pre @ put_u32 w @ ys) (length pre) = Inr w"
  "u64_at (pre @ put_u64 z @ ys) (length pre) = Inr z"
  by (simp_all add: u16_at_def u32_at_def u64_at_def slice_from_def)

lemma field_at_put2 [simp]:
  "u16_at (pre @ put_u16 a @ put_u16 v @ ys) (Suc (Suc (length pre))) = Inr v"
  "u16_at (pre @ put_u16 a @ put_u16 b @ put_u16 v @ ys) (length pre + 4) = Inr v"
  "u32_at (pre @ put_u16 a @ put_u16 b @ put_u32 w @ ys) (length pre + 4) = Inr w"
  using field_at_put(1) [of "pre @ put_u16 a" v ys]
    field_at_put(1) [of "pre @ put_u16 a @ put_u16 b" v ys]
    field_at_put(2) [of "pre @ put_u16 a @ put_u16 b" w ys]
  by (simp_all del: field_at_put)

lemma consumes_readTag:
  assumes "wf_tag tg"
  shows "consumes_chunk (readTag (tag_Kind tg)) (tag_bytes tg) tg"
proof -
  have n1: "tag_Number tg \<le> 0xFF \<Longrightarrow> (ucast (ucast (tag_Number tg) :: byte) :: u32) = tag_Number tg"
    and n2: "tag_Number tg \<le> 0xFFFF \<Longrightarrow> (ucast (ucast (tag_Number tg) :: u16) :: u32) = tag_Number tg"
    by (rule ucast_ucast_id; simp add: word_le_nat_alt)+
  consider (a) "tag_Kind tg = TagKindAnonymous" "tag_Vendor tg = 0" "tag_Profile tg = 0" "tag_Number tg = 0"
    | (c) "tag_Kind tg = TagKindContext" "tag_Vendor tg = 0" "tag_Profile tg = 0" "tag_Number tg \<le> 0xFF"
    | (c2) "tag_Kind tg = TagKindCommonProfile2" "tag_Vendor tg = 0" "tag_Profile tg = 0" "tag_Number tg \<le> 0xFFFF"
    | (c4) "tag_Kind tg = TagKindCommonProfile4" "tag_Vendor tg = 0" "tag_Profile tg = 0"
    | (f6) "tag_Kind tg = TagKindFullyQualified6" "tag_Number tg \<le> 0xFFFF"
    | (f8) "tag_Kind tg = TagKindFullyQualified8"
    using assms by (auto simp: wf_tag_def Let_def)
  then show ?thesis
  proof cases
    case a
    then show ?thesis
      by (simp add: readTag_def tag_bytes_def consumes_chunk_def AnonymousTag_def)
  next
    case c
    then show ?thesis
      by (auto simp: readTag_def tag_bytes_def n1 AnonymousTag_def index_def intro!: take_field_chunk)
  next
    case c2
    then show ?thesis
      by (auto simp: readTag_def tag_bytes_def n2 AnonymousTag_def intro!: take_field_chunk)
  next
    case c4
    then show ?thesis
      by (auto simp: readTag_def tag_bytes_def AnonymousTag_def intro!: take_field_chunk)
  next
    case f6
    then show ?thesis
      by (auto simp: readTag_def tag_bytes_def n2 AnonymousTag_def intro!: take_field_chunk)
  next
    case f8
    then show ?thesis
      by (auto simp: readTag_def tag_bytes_def AnonymousTag_def intro!: take_field_chunk)
  qed
qed

section \<open>Values\<close>

lemma consumes_readU:
  "consumes_chunk (readU 1) [b] (ucast b)"
  "consumes_chunk (readU 2) (put_u16 v) (ucast v)"
  "consumes_chunk (readU 4) (put_u32 w) (ucast w)"
  "consumes_chunk (readU 8) (put_u64 z) z"
  unfolding readU_def by (rule take_field_chunk; simp add: index_def)+

lemma consumes_string:
  assumes "consumes_chunk (readU w) pre n" and "unat n = length body"
  shows "consumes_chunk (readStringLike w) (pre @ body) body"
  unfolding readStringLike_def
  by (rule consumes_read_then [OF assms(1) consumes_read_body]) (simp add: assms(2))

lemma consumes_then_return:
  assumes "consumes_chunk m c x" and "g x = Inr y"
  shows "consumes_chunk (read_then m (\<lambda>v. Pair (g v))) c y"
  using assms by (simp add: consumes_chunk_def read_then_def)

definition element_bytes :: "element_type \<Rightarrow> tag \<Rightarrow> bytes \<Rightarrow> bytes" where
  "element_bytes t tg body = control_byte t tg # tag_bytes tg @ body"

lemma consumes_Next:
  assumes tg: "wf_tag tg" and t: "t < 0x20" "t \<noteq> TypeEndContainer"
    and v: "consumes_chunk (readValue (new_element tg t)) body x"
  shows "consumes_chunk Next (element_bytes t tg body) x"
proof -
  note cs = control_split [OF wf_tag_kind [OF tg] t(1), folded control_byte_def]
  have "consumes_chunk (read_then (readTag (tag_Kind tg)) (\<lambda>tg. readValue (new_element tg t)))
      (tag_bytes tg @ body) x"
    by (rule consumes_read_then) (rule consumes_readTag [OF tg], rule v)
  then have "consumes_chunk (next_after (control_byte t tg)) (tag_bytes tg @ body) x"
    using wf_tag_kind [OF tg, THEN leD] t(2) by (simp add: next_after_def cs Let_def)
  then show ?thesis
    by (simp add: consumes_chunk_def element_bytes_def Next_cursor)
qed

definition len_type :: "element_type \<Rightarrow> nat \<Rightarrow> element_type" where
  "len_type base n = (if n \<le> 0xFF then base else if n \<le> 0xFFFF then base + 1
     else if n \<le> 0xFFFFFFFF then base + 2 else base + 3)"

definition string_element :: "tag \<Rightarrow> bytes \<Rightarrow> element" where
  "string_element tg b =
     (let el = new_element tg (len_type TypeUTF8Str1 (length b)) in
      if 0x1F \<in> set b
      then el\<lparr>el_String := takeWhile (\<lambda>x. x \<noteq> 0x1F) b, el_RawLength := word_of_nat (utf16Length b)\<rparr>
      else el\<lparr>el_String := b\<rparr>)"

section \<open>Writing one element\<close>

definition writes :: "encoder \<Rightarrow> (tlv_error, encoder) go \<Rightarrow> element \<Rightarrow> bool" where
  "writes e r x \<longleftrightarrow> (\<forall>e'. r = Inr e' \<longrightarrow>
     (\<exists>c. enc_buf e' = enc_buf e @ c \<and> consumes_chunk Next c x))"

lemma emit_buf [simp]: "enc_buf (emit e b) = enc_buf e @ b"
  by (simp add: emit_def)

lemma writeControlAndTag_Inr:
  "writeControlAndTag e t tg = Inr e' \<Longrightarrow> e' = emit e (element_bytes t tg [])"
  by (auto simp: writeControlAndTag_def element_bytes_def split: if_splits)

lemma element_bytes_append: "element_bytes t tg [] @ body = element_bytes t tg body"
  by (simp add: element_bytes_def)

lemma writes_put_value:
  assumes "wf_tag tg" "t < 0x20" "t \<noteq> TypeEndContainer"
    and "consumes_chunk (readValue (new_element tg t)) body x"
  shows "writes e (put_value e t tg body) x"
  using consumes_Next [OF assms]
  by (auto simp: writes_def put_value_def and_then_Inr_iff element_bytes_append
      dest!: writeControlAndTag_Inr)

lemma put_value_Nil: "put_value e t tg [] = writeControlAndTag e t tg"
  by (simp add: put_value_def emit_def and_then_def split: sum.splits)

lemma writes_no_value:
  assumes "wf_tag tg" "t < 0x20" "t \<noteq> TypeEndContainer"
    and "readValue (new_element tg t) = Pair (Inr x)"
  shows "writes e (writeControlAndTag e t tg) x"
  using writes_put_value [of tg t "[]" x e] assms by (simp add: put_value_Nil consumes_chunk_def)

lemma new_element_Type [simp]: "el_Type (new_element tg t) = t" "el_Tag (new_element tg t) = tg"
  by (simp_all add: new_element_def)

lemma consumes_uint_value:
  assumes "consumes_chunk (readU (width_of t TypeUnsignedInt1)) c v"
    and "t \<in> {TypeUnsignedInt1, TypeUnsignedInt2, TypeUnsignedInt4, TypeUnsignedInt8}"
  shows "consumes_chunk (readValue (new_element tg t)) c ((new_element tg t)\<lparr>el_Uint := v\<rparr>)"
proof -
  have "readValue (new_element tg t) = read_then (readU (width_of t TypeUnsignedInt1))
      (\<lambda>v. Pair (Inr ((new_element tg t)\<lparr>el_Uint := v\<rparr>)))"
    using assms(2) unfolding readValue_def Let_def new_element_Type by (elim insertE) simp_all
  then show ?thesis
    by (simp only:) (rule consumes_then_return [OF assms(1)], rule refl)
qed

lemma ucast_up_down [simp]:
  "(ucast (ucast (b :: byte) :: u64) :: byte) = b"
  "(ucast (ucast (v :: u16) :: u64) :: u16) = v"
  "(ucast (ucast (w :: u32) :: u64) :: u32) = w"
  by (simp_all add: unsigned_ucast_eq take_bit_word_eq_self)

lemma and_mask_u64:
  fixes v :: u64
  shows "v AND 0xFF = take_bit 8 v" "v AND 0xFFFF = take_bit 16 v"
    "v AND 0xFFFFFFFF = take_bit 32 v"
  by (simp_all add: take_bit_eq_mask mask_eq_exp_minus_1)

lemma ucast_take_bit:
  fixes v :: u64
  shows "(ucast (ucast (take_bit 8 v) :: byte) :: u64) = take_bit 8 v"
    "(ucast (ucast (take_bit 16 v) :: u16) :: u64) = take_bit 16 v"
    "(ucast (ucast (take_bit 32 v) :: u32) :: u64) = take_bit 32 v"
  by (rule ucast_ucast_id; use take_bit_nat_less_exp [of 8 "unat v"] take_bit_nat_less_exp [of 16 "unat v"]
      take_bit_nat_less_exp [of 32 "unat v"] in \<open>simp add: unsigned_take_bit_eq\<close>)+

lemma take_bit_ucast32: "take_bit 32 (ucast (w :: u32) :: u64) = ucast w"
proof (rule word_take_bit_self)
  have "unat w < 2 ^ LENGTH(32)" by (rule unsigned_less)
  then show "unat (ucast w :: u64) < 2 ^ 32"
    by (simp add: unsigned_ucast_eq le_less_trans [OF take_bit_nat_less_eq_self])
qed

lemma take_bit_le:
  fixes v :: u64
  shows "v \<le> 0xFF \<Longrightarrow> take_bit 8 v = v" "v \<le> 0xFFFF \<Longrightarrow> take_bit 16 v = v"
    "v \<le> 0xFFFFFFFF \<Longrightarrow> take_bit 32 v = v"
  by (rule word_take_bit_self; simp add: word_le_nat_alt)+

lemma take_bit_64 [simp]: "take_bit 64 (v :: u64) = v"
  by (rule word_take_bit_self) (use unsigned_less [of v] in simp)

lemma uint_widths [simp]:
  "width_of TypeUnsignedInt1 TypeUnsignedInt1 = 1" "width_of TypeUnsignedInt2 TypeUnsignedInt1 = 2"
  "width_of TypeUnsignedInt4 TypeUnsignedInt1 = 4" "width_of TypeUnsignedInt8 TypeUnsignedInt1 = 8"
  by (simp_all add: width_of_def)

lemma writes_uint:
  assumes "consumes_chunk (readU (width_of t TypeUnsignedInt1)) c v" and "wf_tag tg"
    and "t \<in> {TypeUnsignedInt1, TypeUnsignedInt2, TypeUnsignedInt4, TypeUnsignedInt8}"
  shows "writes e (put_value e t tg c) ((new_element tg t)\<lparr>el_Uint := v\<rparr>)"
  by (rule writes_put_value [OF assms(2) _ _ consumes_uint_value [OF assms(1,3)]])
    (use assms(3) in auto)

lemma readU_masked:
  "consumes_chunk (readU 1) [ucast (v AND 0xFF)] (take_bit 8 v)"
  "consumes_chunk (readU 2) (put_u16 (ucast (v AND 0xFFFF))) (take_bit 16 v)"
  "consumes_chunk (readU 4) (put_u32 (ucast (v AND 0xFFFFFFFF))) (take_bit 32 v)"
  using consumes_readU(1) [of "ucast (take_bit 8 v)"] consumes_readU(2) [of "ucast (take_bit 16 v)"]
    consumes_readU(3) [of "ucast (take_bit 32 v)"]
  by (simp_all only: and_mask_u64 ucast_take_bit)

lemma consumes_int_value:
  "consumes_chunk (readValue (new_element tg TypeSignedInt1)) [b]
     ((new_element tg TypeSignedInt1)\<lparr>el_Int := scast b\<rparr>)"
  "consumes_chunk (readValue (new_element tg TypeSignedInt2)) (put_u16 v)
     ((new_element tg TypeSignedInt2)\<lparr>el_Int := scast v\<rparr>)"
  "consumes_chunk (readValue (new_element tg TypeSignedInt4)) (put_u32 w)
     ((new_element tg TypeSignedInt4)\<lparr>el_Int := scast w\<rparr>)"
  "consumes_chunk (readValue (new_element tg TypeSignedInt8)) (put_u64 z)
     ((new_element tg TypeSignedInt8)\<lparr>el_Int := z\<rparr>)"
  by (simp_all add: readValue_def Let_def del: One_nat_def)
    (rule consumes_then_return, rule consumes_readU, simp)+

lemma consumes_float_value:
  "consumes_chunk (readValue (new_element tg TypeFloat4)) (put_u32 w)
     ((new_element tg TypeFloat4)\<lparr>el_Float := float64_of_float32 w\<rparr>)"
  "consumes_chunk (readValue (new_element tg TypeFloat8)) (put_u64 z)
     ((new_element tg TypeFloat8)\<lparr>el_Float := z\<rparr>)"
  by (simp_all add: readValue_def Let_def)
    (rule consumes_then_return, rule consumes_readU, simp add: and_mask_u64 take_bit_ucast32)+

text \<open>Strings: the length prefix and the body, at the four widths.\<close>

lemma readU_length:
  "n \<le> 0xFF \<Longrightarrow> \<exists>v. unat v = n \<and> consumes_chunk (readU 1) [word_of_nat n] v"
  "n \<le> 0xFFFF \<Longrightarrow> \<exists>v. unat v = n \<and> consumes_chunk (readU 2) (put_u16 (word_of_nat n)) v"
  "n \<le> 0xFFFFFFFF \<Longrightarrow> \<exists>v. unat v = n \<and> consumes_chunk (readU 4) (put_u32 (word_of_nat n)) v"
  "n < 2 ^ 64 \<Longrightarrow> \<exists>v. unat v = n \<and> consumes_chunk (readU 8) (put_u64 (word_of_nat n)) v"
proof -
  show "\<exists>v. unat v = n \<and> consumes_chunk (readU 1) [word_of_nat n] v" if "n \<le> 0xFF"
    by (intro exI conjI, rule_tac [2] consumes_readU)
      (use that in \<open>simp add: unsigned_ucast_eq unsigned_of_nat take_bit_nat_eq_self\<close>)
  show "\<exists>v. unat v = n \<and> consumes_chunk (readU 2) (put_u16 (word_of_nat n)) v" if "n \<le> 0xFFFF"
    by (intro exI conjI, rule_tac [2] consumes_readU)
      (use that in \<open>simp add: unsigned_ucast_eq unsigned_of_nat take_bit_nat_eq_self\<close>)
  show "\<exists>v. unat v = n \<and> consumes_chunk (readU 4) (put_u32 (word_of_nat n)) v" if "n \<le> 0xFFFFFFFF"
    by (intro exI conjI, rule_tac [2] consumes_readU)
      (use that in \<open>simp add: unsigned_ucast_eq unsigned_of_nat take_bit_nat_eq_self\<close>)
  show "\<exists>v. unat v = n \<and> consumes_chunk (readU 8) (put_u64 (word_of_nat n)) v" if "n < 2 ^ 64"
    by (intro exI conjI, rule_tac [2] consumes_readU)
      (use that in \<open>simp add: unsigned_of_nat take_bit_nat_eq_self\<close>)
qed

definition len_prefix :: "nat \<Rightarrow> bytes" where
  "len_prefix n = (if n \<le> 0xFF then [word_of_nat n] else if n \<le> 0xFFFF then put_u16 (word_of_nat n)
     else if n \<le> 0xFFFFFFFF then put_u32 (word_of_nat n) else put_u64 (word_of_nat n))"

definition len_width :: "nat \<Rightarrow> nat" where
  "len_width n = (if n \<le> 0xFF then 1 else if n \<le> 0xFFFF then 2 else if n \<le> 0xFFFFFFFF then 4 else 8)"

lemma consumes_len_prefix:
  assumes "length b < 2 ^ 64"
  shows "consumes_chunk (readStringLike (len_width (length b))) (len_prefix (length b) @ b) b"
proof -
  have "\<exists>v. unat v = length b \<and> consumes_chunk (readU (len_width (length b))) (len_prefix (length b)) v"
    unfolding len_width_def len_prefix_def
    by (cases "length b \<le> 0xFF"; cases "length b \<le> 0xFFFF"; cases "length b \<le> 0xFFFFFFFF";
        simp only: if_True if_False readU_length assms)
  then show ?thesis using consumes_string by blast
qed

lemma writeStringLike_eq:
  "writeStringLike e tg b t (t + 1) (t + 2) (t + 3) =
     put_value e (len_type t (length b)) tg (len_prefix (length b) @ b)"
  by (simp add: writeStringLike_def len_type_def len_prefix_def Let_def)

lemma string_types [simp]:
  "put_utf8_bytes e tg b = put_value e (len_type TypeUTF8Str1 (length b)) tg (len_prefix (length b) @ b)"
  "PutOctets e tg b = put_value e (len_type TypeOctetStr1 (length b)) tg (len_prefix (length b) @ b)"
  using writeStringLike_eq [of e tg b TypeUTF8Str1] writeStringLike_eq [of e tg b TypeOctetStr1]
  by (simp_all add: put_utf8_bytes_def PutOctets_def)

lemma readValue_string:
  "readValue (new_element tg (len_type TypeUTF8Str1 n)) =
     read_then (readStringLike (len_width n))
       (\<lambda>body. Pair (utf8_element (new_element tg (len_type TypeUTF8Str1 n)) body))"
  "readValue (new_element tg (len_type TypeOctetStr1 n)) =
     read_then (readStringLike (len_width n))
       (\<lambda>body. Pair (Inr ((new_element tg (len_type TypeOctetStr1 n))\<lparr>el_Octets := body\<rparr>)))"
  by (simp_all add: readValue_def Let_def len_type_def len_width_def width_of_def)

lemma len_type_bounds:
  "len_type TypeUTF8Str1 n < 0x20" "len_type TypeUTF8Str1 n \<noteq> TypeEndContainer"
  "len_type TypeOctetStr1 n < 0x20" "len_type TypeOctetStr1 n \<noteq> TypeEndContainer"
  by (simp_all add: len_type_def)

lemma utf8_element_valid:
  assumes "utf8_valid b" and "length b < 2 ^ 31"
  shows "utf8_element (new_element tg (len_type TypeUTF8Str1 (length b))) b = Inr (string_element tg b)"
proof -
  have "utf8_valid (takeWhile (\<lambda>x. x \<noteq> 0x1F) b)"
    by (rule utf8_valid_takeWhile) (simp_all add: assms)
  moreover have "\<not> 0xFFFFFFFF < utf16Length b"
    using utf16Length_le [of b] assms(2) by simp
  ultimately show ?thesis
    using assms(1) by (simp add: utf8_element_def string_element_def Let_def)
qed

lemma writes_utf8:
  assumes "wf_tag tg" "utf8_valid b" "length b < 2 ^ 31"
  shows "writes e (put_utf8_bytes e tg b) (string_element tg b)"
proof -
  have "consumes_chunk (readValue (new_element tg (len_type TypeUTF8Str1 (length b))))
      (len_prefix (length b) @ b) (string_element tg b)"
    unfolding readValue_string
    by (rule consumes_then_return [OF consumes_len_prefix utf8_element_valid])
      (use assms in simp_all)
  from writes_put_value [OF assms(1) len_type_bounds(1,2) this] show ?thesis by simp
qed

end
