(* ===== verification/Tlv_Strict.thy ===== *)
theory Tlv_Strict
  imports Tlv_Cursor
begin

text \<open>
  What \<open>Validate\<close> and \<open>SplitArrayMembers\<close> accept, as grammars over the decoded elements:
  \<open>strict_body\<close> is a properly nested sequence that obeys the tag rule of its parent
  container, \<open>balanced\<close> a properly nested sequence, \<open>one_element\<close> one element with
  everything up to the end of its container. The loops of the source keep a stack and a
  depth counter; the lemmas relate these to the grammars.
\<close>

section \<open>Chunks\<close>

abbreviation chunks :: "bytes list \<Rightarrow> element list \<Rightarrow> bool" where
  "chunks \<equiv> list_all2 (consumes_chunk Next)"

lemma chunk_not_Nil: "consumes_chunk Next c x \<Longrightarrow> c \<noteq> []"
proof
  assume "consumes_chunk Next c x" "c = []"
  then have "Next (cursor [] []) = (Inr x, cursor [] [])" by (simp add: consumes_chunk_def)
  then show False by (simp add: Next_cursor)
qed

lemma decode_all_Nil: "decode_all (cursor pre []) = Inr []"
  by (simp add: decode_all.simps Next_cursor)

lemma decode_all_chunk:
  assumes "consumes_chunk Next c x"
  shows "decode_all (cursor pre (c @ ys)) = and_then (decode_all (cursor (pre @ c) ys)) (\<lambda>els. Inr (x # els))"
  using assms by (subst decode_all.simps) (simp add: consumes_chunk_def)

lemma decode_all_chunks: "chunks cs els \<Longrightarrow> decode_all (cursor pre (concat cs)) = Inr els"
  by (induction cs els arbitrary: pre rule: list_all2_induct)
    (simp_all add: decode_all_Nil decode_all_chunk)

text \<open>The end of input is reported only when no byte is left.\<close>

definition no_EOF :: "(decoder, tlv_error, 'a) reader \<Rightarrow> bool" where
  "no_EOF m \<longleftrightarrow> (\<forall>d. fst (m d) \<noteq> Inl (Fail ErrEOF))"

named_theorems eof_intros \<open>reads that never report the end of input\<close>

lemma no_EOF_Pair [eof_intros]: "r \<noteq> Inl (Fail ErrEOF) \<Longrightarrow> no_EOF (Pair r)"
  by (simp add: no_EOF_def)

lemma no_EOF_if [eof_intros]:
  "(c \<Longrightarrow> no_EOF m) \<Longrightarrow> (\<not> c \<Longrightarrow> no_EOF n) \<Longrightarrow> no_EOF (if c then m else n)"
  by simp

lemma no_EOF_read_then [eof_intros]:
  assumes "no_EOF m" and "\<And>x. no_EOF (f x)"
  shows "no_EOF (read_then m f)"
  unfolding no_EOF_def
proof
  fix d
  obtain r d1 where "m d = (r, d1)" by (cases "m d")
  with assms show "fst (read_then m f d) \<noteq> Inl (Fail ErrEOF)"
    by (cases r) (auto simp: no_EOF_def read_then_def, metis fst_conv)
qed

lemma no_EOF_take_field [eof_intros]:
  assumes "\<And>b i. f b i \<noteq> Inl (Fail ErrEOF)"
  shows "no_EOF (take_field n f)"
  using assms by (auto simp: no_EOF_def take_field_def need_def split: sum.splits if_splits)

lemma and_then_no_EOF [eof_intros]:
  "m \<noteq> Inl (Fail ErrEOF) \<Longrightarrow> (\<And>x. g x \<noteq> Inl (Fail ErrEOF)) \<Longrightarrow> and_then m g \<noteq> Inl (Fail ErrEOF)"
  by (cases m) auto

lemma field_no_EOF [eof_intros]:
  "index b i \<noteq> Inl (Fail ErrEOF)" "u16_at b i \<noteq> Inl (Fail ErrEOF)"
  "u32_at b i \<noteq> Inl (Fail ErrEOF)" "u64_at b i \<noteq> Inl (Fail ErrEOF)"
  by (auto simp: index_def u16_at_def u32_at_def u64_at_def slice_from_def
      u16.get_no_fail u32.get_no_fail u64.get_no_fail)

lemma no_EOF_readTag [eof_intros]: "no_EOF (readTag k)"
  unfolding readTag_def Let_def by (intro eof_intros) simp_all

lemma no_EOF_readStringLike [eof_intros]: "no_EOF (readU w)" "no_EOF (readStringLike w)"
proof -
  show u: "no_EOF (readU w)" for w
    unfolding readU_def by (intro eof_intros) (simp_all add: field_no_EOF and_then_no_EOF)
  have "no_EOF (read_body n)" for n
    by (auto simp: no_EOF_def read_body_def slice_def Let_def)
  with u show "no_EOF (readStringLike w)"
    unfolding readStringLike_def by (intro eof_intros)
qed

lemma utf8_element_no_EOF [eof_intros]: "utf8_element el b \<noteq> Inl (Fail ErrEOF)"
  by (simp add: utf8_element_def Let_def)

lemma next_after_no_EOF: "no_EOF (next_after c)"
  unfolding next_after_def readValue_def Let_def by (intro eof_intros) simp_all

lemma Next_EOF: "Next (cursor pre xs) = (Inl (Fail ErrEOF), d') \<Longrightarrow> xs = []"
  using next_after_no_EOF by (cases xs) (auto simp: Next_cursor no_EOF_def, metis fst_conv)

text \<open>A complete decoding splits the input into one chunk per element.\<close>

lemma decode_all_Inr_iff:
  "decode_all (cursor pre xs) = Inr els \<longleftrightarrow> (\<exists>cs. xs = concat cs \<and> chunks cs els)"
proof
  assume "decode_all (cursor pre xs) = Inr els"
  then show "\<exists>cs. xs = concat cs \<and> chunks cs els"
  proof (induction els arbitrary: pre xs)
    case Nil
    then have "\<exists>d'. Next (cursor pre xs) = (Inl (Fail ErrEOF), d')"
      by (auto simp: decode_all.simps [of "cursor pre xs"] and_then_Inr_iff split: prod.splits sum.splits if_splits)
    then show ?case using Next_EOF by (intro exI [of _ "[]"]) auto
  next
    case (Cons el els)
    then obtain d' where n: "Next (cursor pre xs) = (Inr el, d')" and r: "decode_all d' = Inr els"
      by (auto simp: decode_all.simps [of "cursor pre xs"] and_then_Inr_iff split: prod.splits sum.splits if_splits)
    from local_Next n obtain c ys where
      c: "xs = c @ ys" "d' = cursor (pre @ c) ys" "consumes_chunk Next c el"
      by (rule local_readerE)
    with r Cons.IH obtain cs where "ys = concat cs" "chunks cs els" by blast
    with c show ?case by (intro exI [of _ "c # cs"]) simp
  qed
qed (auto simp: decode_all_chunks)

unbundle bit_operations_syntax

section \<open>The strict grammar\<close>

definition tag_allowed :: "element_type option \<Rightarrow> element \<Rightarrow> bool" where
  "tag_allowed parent el = (case parent of
      None \<Rightarrow> tag_Kind (el_Tag el) \<noteq> TagKindContext
    | Some t \<Rightarrow> (t = TypeStructure \<longrightarrow> tag_Kind (el_Tag el) \<noteq> TagKindAnonymous)
        \<and> (t = TypeArray \<longrightarrow> tag_Kind (el_Tag el) = TagKindAnonymous))"

inductive strict_body :: "element_type option \<Rightarrow> element list \<Rightarrow> bool" where
  strict_Nil: "strict_body p []"
| strict_leaf: "strict_body p (el # els)"
    if "\<not> el_IsEndContainer el" "\<not> opens_container el" "tag_allowed p el" "strict_body p els"
| strict_node: "strict_body p (el # inner @ e # els)"
    if "\<not> el_IsEndContainer el" "opens_container el" "tag_allowed p el"
       "strict_body (Some (el_Type el)) inner" "el_IsEndContainer e" "strict_body p els"

text \<open>The loop of \<open>Validate\<close> on decoded elements, with its stack of open containers.\<close>

fun strict_run :: "element_type list \<Rightarrow> element list \<Rightarrow> bool" where
  "strict_run containers [] \<longleftrightarrow> containers = []"
| "strict_run containers (el # els) \<longleftrightarrow>
     (if el_IsEndContainer el then containers \<noteq> [] \<and> strict_run (butlast containers) els
      else tag_rule containers el = Inr () \<and>
        strict_run (if opens_container el then containers @ [el_Type el] else containers) els)"

definition parent_of :: "element_type list \<Rightarrow> element_type option" where
  "parent_of containers = (if containers = [] then None else Some (last containers))"

lemma parent_of_simps [simp]: "parent_of [] = None" "parent_of (ts @ [t]) = Some t"
  by (simp_all add: parent_of_def)

lemma tag_rule_iff: "tag_rule containers el = Inr () \<longleftrightarrow> tag_allowed (parent_of containers) el"
  by (simp add: tag_rule_def tag_allowed_def parent_of_def Let_def)

lemma strict_run_append:
  "strict_body p b \<Longrightarrow> p = parent_of ts \<Longrightarrow> strict_run ts (b @ rest) \<longleftrightarrow> strict_run ts rest"
proof (induction arbitrary: ts rest rule: strict_body.induct)
  case (strict_node el p inner e els)
  then show ?case
    using strict_node.IH(1) [of "ts @ [el_Type el]"] by (simp add: tag_rule_iff)
qed (simp_all add: tag_rule_iff)

definition strict_split :: "element_type list \<Rightarrow> element list \<Rightarrow> bool" where
  "strict_split ts els \<longleftrightarrow>
     (if ts = [] then strict_body None els
      else \<exists>b e rest. els = b @ e # rest \<and> el_IsEndContainer e \<and> strict_body (parent_of ts) b
             \<and> strict_run (butlast ts) rest)"

lemma strict_split_prefix:
  assumes "\<And>b. strict_body (parent_of ts) b \<Longrightarrow> strict_body (parent_of ts) (pre @ b)"
    and "strict_split ts els"
  shows "strict_split ts (pre @ els)"
proof (cases "ts = []")
  case False
  with assms(2) obtain b e rest where b: "els = b @ e # rest" "el_IsEndContainer e"
    "strict_body (parent_of ts) b" "strict_run (butlast ts) rest"
    by (auto simp: strict_split_def)
  with False assms(1) [OF b(3)] show ?thesis
    by (auto simp: strict_split_def intro!: exI [of _ "pre @ b"])
qed (use assms in \<open>simp add: strict_split_def\<close>)

lemma strict_run_split: "strict_run ts els \<Longrightarrow> strict_split ts els"
proof (induction "length els" arbitrary: els ts rule: less_induct)
  case less
  show ?case
  proof (cases els)
    case Nil
    with less.prems show ?thesis by (simp add: strict_split_def strict_Nil)
  next
    case els: (Cons el els')
    consider (e) "el_IsEndContainer el" | (l) "\<not> el_IsEndContainer el" "\<not> opens_container el"
      | (n) "\<not> el_IsEndContainer el" "opens_container el" by blast
    then show ?thesis
    proof cases
      case e
      with less.prems els show ?thesis
        by (auto simp: strict_split_def intro!: exI [of _ "[]"] strict_Nil)
    next
      case l
      with less.prems els have t: "tag_allowed (parent_of ts) el" "strict_run ts els'"
        by (simp_all add: tag_rule_iff)
      with els less.hyps have "strict_split ts els'" by simp
      with strict_split_prefix [of ts "[el]" els'] strict_leaf [OF l t(1)] els show ?thesis by simp
    next
      case n
      with less.prems els have t: "tag_allowed (parent_of ts) el" "strict_run (ts @ [el_Type el]) els'"
        by (simp_all add: tag_rule_iff)
      from less.hyps [OF _ t(2)] els obtain inner e els1 where
        i: "els' = inner @ e # els1" "el_IsEndContainer e" "strict_body (Some (el_Type el)) inner"
          "strict_run ts els1" by (auto simp: strict_split_def)
      with els less.hyps have "strict_split ts els1" by simp
      with strict_split_prefix [of ts "el # inner @ [e]" els1] strict_node [OF n t(1) i(3,2)] els i(1)
      show ?thesis by simp
    qed
  qed
qed

lemma strict_run_iff: "strict_run [] els \<longleftrightarrow> strict_body None els"
  using strict_run_split [of "[]" els] strict_run_append [of None els "[]" "[]"]
  by (auto simp: strict_split_def)

lemma validate_loop_iff:
  "validate_loop (cursor pre xs) ts = Inr () \<longleftrightarrow>
     (\<exists>els. decode_all (cursor pre xs) = Inr els \<and> strict_run ts els)"
proof (induction "length xs" arbitrary: pre xs ts rule: less_induct)
  case less
  obtain r d' where n: "Next (cursor pre xs) = (r, d')" by (cases "Next (cursor pre xs)")
  show ?case
  proof (cases r)
    case (Inl f)
    then have "validate_loop (cursor pre xs) ts = (if f = Fail ErrEOF then validate_end ts else Inl f)"
      using n by (subst validate_loop.simps) (auto simp: Next_cursor)
    moreover have "decode_all (cursor pre xs) = (if f = Fail ErrEOF then Inr [] else Inl f)"
      using n Inl by (subst decode_all.simps) simp
    ultimately show ?thesis by (simp add: validate_end_def)
  next
    case (Inr el)
    from local_Next n [unfolded Inr] obtain c ys where
      c: "xs = c @ ys" "d' = cursor (pre @ c) ys" "consumes_chunk Next c el"
      by (rule local_readerE)
    have ne: "c \<noteq> []" using c(3) by (rule chunk_not_Nil)
    have rem: "Remaining (cursor pre xs) \<noteq> 0" using c(1) ne by (cases c) simp_all
    have IH: "validate_loop d' ts' = Inr () \<longleftrightarrow> (\<exists>els. decode_all d' = Inr els \<and> strict_run ts' els)" for ts'
      using less.hyps [of ys "pre @ c" ts'] c ne by simp
    have "validate_loop (cursor pre xs) ts =
        (if el_IsEndContainer el
         then if ts = [] then Inl (Fail ErrStrictTagViolation) else validate_loop d' (butlast ts)
         else and_then (tag_rule ts el)
           (\<lambda>_. validate_loop d' (if opens_container el then ts @ [el_Type el] else ts)))"
      using n Inr rem by (subst validate_loop.simps) (simp del: cursor_sel)
    moreover have "decode_all (cursor pre xs) = and_then (decode_all d') (\<lambda>els. Inr (el # els))"
      using n Inr by (subst decode_all.simps) simp
    ultimately show ?thesis
      by (simp only: and_then_Inr_iff IH split: if_split) (auto simp: IH and_then_Inr_iff)
  qed
qed

section \<open>Whole elements\<close>

inductive balanced :: "element list \<Rightarrow> bool" where
  balanced_Nil: "balanced []"
| balanced_leaf: "balanced (el # els)"
    if "\<not> el_IsEndContainer el" "\<not> el_IsContainer el" "balanced els"
| balanced_node: "balanced (el # inner @ e # els)"
    if "\<not> el_IsEndContainer el" "el_IsContainer el" "balanced inner" "el_IsEndContainer e" "balanced els"

text \<open>One element: a value, or a container opener with its content and its end marker.\<close>

inductive one_element :: "element list \<Rightarrow> bool" where
  one_value: "one_element [el]" if "\<not> el_IsEndContainer el" "\<not> el_IsContainer el"
| one_container: "one_element (el # inner @ [e])"
    if "\<not> el_IsEndContainer el" "el_IsContainer el" "balanced inner" "el_IsEndContainer e"

text \<open>The depth counter of \<open>skipContainer\<close>: it stops with the end marker that closes the container.\<close>

fun closes :: "nat \<Rightarrow> element list \<Rightarrow> bool" where
  "closes n [] \<longleftrightarrow> n = 0"
| "closes n (el # els) \<longleftrightarrow> n \<noteq> 0 \<and>
     closes (if el_IsEndContainer el then n - 1 else if el_IsContainer el then n + 1 else n) els"

lemma closes_balanced: "balanced b \<Longrightarrow> 0 < n \<Longrightarrow> closes n (b @ rest) \<longleftrightarrow> closes n rest"
  by (induction b arbitrary: n rest rule: balanced.induct) simp_all

lemma closes_split:
  "closes (Suc n) els \<Longrightarrow>
     \<exists>b e rest. els = b @ e # rest \<and> el_IsEndContainer e \<and> balanced b \<and> closes n rest"
proof (induction "length els" arbitrary: els n rule: less_induct)
  case less
  then obtain el els' where els: "els = el # els'" by (cases els) auto
  consider (e) "el_IsEndContainer el" | (l) "\<not> el_IsEndContainer el" "\<not> el_IsContainer el"
    | (n) "\<not> el_IsEndContainer el" "el_IsContainer el" by blast
  then show ?case
  proof cases
    case e
    with less.prems els show ?thesis by (auto intro!: exI [of _ "[]"] balanced_Nil)
  next
    case l
    with less.prems els have "closes (Suc n) els'" by simp
    from less.hyps [OF _ this] els obtain b e rest where
      "els' = b @ e # rest" "el_IsEndContainer e" "balanced b" "closes n rest" by auto
    with els l show ?thesis by (auto intro!: exI [of _ "el # b"] balanced_leaf)
  next
    case n
    with less.prems els have "closes (Suc (Suc n)) els'" by simp
    from less.hyps [OF _ this] els obtain inner e els1 where
      i: "els' = inner @ e # els1" "el_IsEndContainer e" "balanced inner" "closes (Suc n) els1" by auto
    from less.hyps [OF _ i(4)] els i(1) obtain b e' rest where
      "els1 = b @ e' # rest" "el_IsEndContainer e'" "balanced b" "closes n rest" by auto
    with els i n show ?thesis
      by (auto intro!: exI [of _ "el # inner @ e # b"] balanced_node)
  qed
qed

lemma closes_iff: "closes 1 els \<longleftrightarrow> (\<exists>inner e. els = inner @ [e] \<and> balanced inner \<and> el_IsEndContainer e)"
proof
  assume "closes 1 els"
  with closes_split [of 0 els] obtain b e rest where
    b: "els = b @ e # rest" "el_IsEndContainer e" "balanced b" "closes 0 rest" by auto
  then show "\<exists>inner e. els = inner @ [e] \<and> balanced inner \<and> el_IsEndContainer e"
    by (cases rest) auto
qed (auto simp: closes_balanced)

lemma one_element_iff:
  "one_element els \<longleftrightarrow> (\<exists>el els'. els = el # els' \<and> \<not> el_IsEndContainer el \<and>
     (if el_IsContainer el then closes 1 els' else els' = []))"
proof
  assume "one_element els"
  then show "\<exists>el els'. els = el # els' \<and> \<not> el_IsEndContainer el \<and>
     (if el_IsContainer el then closes 1 els' else els' = [])"
  proof cases
    case (one_container el inner e)
    moreover from this have "closes 1 (inner @ [e])" unfolding closes_iff by blast
    ultimately show ?thesis by (intro exI [of _ el] exI [of _ "inner @ [e]"]) simp
  qed simp
next
  assume "\<exists>el els'. els = el # els' \<and> \<not> el_IsEndContainer el \<and>
     (if el_IsContainer el then closes 1 els' else els' = [])"
  then show "one_element els"
    unfolding closes_iff by (auto intro: one_element.intros split: if_splits)
qed

lemma skip_loop_iff:
  "skip_loop n (cursor pre xs) = (Inr u, d') \<longleftrightarrow>
     (\<exists>cs els ys. xs = concat cs @ ys \<and> d' = cursor (pre @ concat cs) ys \<and> chunks cs els \<and> closes n els)"
proof (induction "length xs" arbitrary: n pre xs rule: less_induct)
  case less
  show ?case
  proof (cases "n = 0")
    case True
    have "closes 0 els \<longleftrightarrow> els = []" for els by (cases els) simp_all
    with True show ?thesis by (subst skip_loop.simps) auto
  next
    case False
    show ?thesis
    proof
      assume s: "skip_loop n (cursor pre xs) = (Inr u, d')"
      obtain r d1 where "Next (cursor pre xs) = (r, d1)" by (cases "Next (cursor pre xs)")
      moreover from this s False obtain el where "r = Inr el"
        by (cases r) (simp_all add: skip_loop.simps [of n "cursor pre xs"])
      ultimately have n: "Next (cursor pre xs) = (Inr el, d1)" by simp
      from local_Next n obtain c ys where
        c: "xs = c @ ys" "d1 = cursor (pre @ c) ys" "consumes_chunk Next c el"
        by (rule local_readerE)
      define n' where "n' = (if el_IsEndContainer el then n - 1 else if el_IsContainer el then n + 1 else n)"
      have "skip_loop n' (cursor (pre @ c) ys) = (Inr u, d')"
        using s n False by (simp add: skip_loop.simps [of n "cursor pre xs"] c(2) n'_def split: if_splits)
      with less.hyps [of ys n' "pre @ c"] c(1) chunk_not_Nil [OF c(3)] obtain cs els zs where
        "ys = concat cs @ zs" "d' = cursor ((pre @ c) @ concat cs) zs" "chunks cs els" "closes n' els"
        by auto
      with c False show "\<exists>cs els ys. xs = concat cs @ ys \<and> d' = cursor (pre @ concat cs) ys
          \<and> chunks cs els \<and> closes n els"
        by (intro exI [of _ "c # cs"] exI [of _ "el # els"] exI [of _ zs]) (simp add: n'_def)
    next
      assume "\<exists>cs els ys. xs = concat cs @ ys \<and> d' = cursor (pre @ concat cs) ys
          \<and> chunks cs els \<and> closes n els"
      then obtain cs els ys where a: "xs = concat cs @ ys" "d' = cursor (pre @ concat cs) ys"
        "chunks cs els" "closes n els" by blast
      with False obtain c cs' el els' where
        c: "cs = c # cs'" "els = el # els'" "consumes_chunk Next c el" "chunks cs' els'"
        by (cases els) (auto simp: list_all2_Cons2)
      define n' where "n' = (if el_IsEndContainer el then n - 1 else if el_IsContainer el then n + 1 else n)"
      have "skip_loop n' (cursor (pre @ c) (concat cs' @ ys)) = (Inr u, d')"
        using less.hyps [of "concat cs' @ ys" n' "pre @ c"] chunk_not_Nil [OF c(3)] a c
        by (force simp: n'_def)
      moreover have "Next (cursor pre xs) = (Inr el, cursor (pre @ c) (concat cs' @ ys))"
        using a(1) c(1,3) by (simp add: consumes_chunk_def)
      ultimately show "skip_loop n (cursor pre xs) = (Inr u, d')"
        using False by (subst skip_loop.simps) (simp add: n'_def split: if_splits)
    qed
  qed
qed

section \<open>End markers\<close>

lemma control_join:
  fixes c :: byte
  shows "push_bit 5 (drop_bit 5 c) OR (c AND 0x1F) = c"
proof -
  have "push_bit 5 (drop_bit 5 c) OR (c AND mask 5) = c"
    by (rule bit_word_eqI) (auto simp: bit_simps)
  moreover have "(mask 5 :: 8 word) = 0x1F" by (simp add: mask_eq_exp_minus_1)
  ultimately show ?thesis by simp
qed

definition yields :: "('a \<Rightarrow> bool) \<Rightarrow> (decoder, tlv_error, 'a) reader \<Rightarrow> bool" where
  "yields P m \<longleftrightarrow> (\<forall>d x d'. m d = (Inr x, d') \<longrightarrow> P x)"

named_theorems yields_intros \<open>what a read may return\<close>

lemma yields_Pair [yields_intros]: "(\<And>x. r = Inr x \<Longrightarrow> P x) \<Longrightarrow> yields P (Pair r)"
  by (simp add: yields_def)

lemma yields_if [yields_intros]:
  "(c \<Longrightarrow> yields P m) \<Longrightarrow> (\<not> c \<Longrightarrow> yields P n) \<Longrightarrow> yields P (if c then m else n)"
  by simp

lemma yields_read_then [yields_intros]: "(\<And>x. yields P (f x)) \<Longrightarrow> yields P (read_then m f)"
  by (auto simp: yields_def read_then_Inr_iff)

lemma readValue_not_end: "yields (\<lambda>x. \<not> el_IsEndContainer x) (readValue (new_element tg t))"
  unfolding readValue_def Let_def
  by (intro yields_intros) (auto simp: new_element_def utf8_element_def Let_def split: if_splits)

lemma next_after_end:
  assumes "next_after c d = (Inr el, d')" and "el_IsEndContainer el"
  shows "c = TypeEndContainer \<and> el = end_element \<and> d' = d"
proof -
  from assms(1) obtain tg d1 where tg: "readTag (drop_bit 5 c) d = (Inr tg, d1)" and
    v: "(if c AND 0x1F = TypeEndContainer then
          (if drop_bit 5 c \<noteq> TagKindAnonymous then Pair (Inl (Fail ErrStrictTagViolation))
           else Pair (Inr end_element))
        else readValue (new_element tg (c AND 0x1F))) d1 = (Inr el, d')"
    by (auto simp: next_after_def Let_def read_then_Inr_iff split: if_split_asm)
  have t: "c AND 0x1F = TypeEndContainer"
    using v assms(2) readValue_not_end [of tg "c AND 0x1F"] by (auto simp: yields_def split: if_split_asm)
  with v have k: "drop_bit 5 c = 0" and "el = end_element" "d' = d1"
    by (auto split: if_split_asm)
  moreover have "d1 = d" using tg k by (simp add: readTag_def)
  moreover have "c = TypeEndContainer" using control_join [of c] k t by simp
  ultimately show ?thesis by simp
qed

lemma end_chunk_iff:
  "consumes_chunk Next c el \<and> el_IsEndContainer el \<longleftrightarrow> c = [TypeEndContainer] \<and> el = end_element"
proof
  assume a: "consumes_chunk Next c el \<and> el_IsEndContainer el"
  then obtain b c' where c: "c = b # c'" using chunk_not_Nil by (cases c) auto
  from a have "Next (cursor [] (c @ [])) = (Inr el, cursor ([] @ c) [])"
    unfolding consumes_chunk_def by blast
  with c have "next_after b (cursor [b] c') = (Inr el, cursor (b # c') [])"
    by (simp add: Next_cursor)
  from next_after_end [OF this] a c show "c = [TypeEndContainer] \<and> el = end_element" by simp
next
  assume "c = [TypeEndContainer] \<and> el = end_element"
  then show "consumes_chunk Next c el \<and> el_IsEndContainer el"
    by (simp add: consumes_chunk_def Next_cursor next_after_def readTag_def read_then_def Let_def
        end_element_def)
qed

section \<open>SplitArrayMembers\<close>

definition whole_element :: "bytes \<Rightarrow> bool" where
  "whole_element m \<longleftrightarrow> (\<exists>els. decode_all (NewDecoder m) = Inr els \<and> one_element els)"

lemma whole_elementI:
  assumes "consumes_chunk Next c el" "chunks cs els" "\<not> el_IsEndContainer el"
    and "if el_IsContainer el then closes 1 els else els = []"
  shows "whole_element (c @ concat cs)"
  unfolding whole_element_def NewDecoder_cursor decode_all_Inr_iff one_element_iff
proof (intro exI conjI)
  show "c @ concat cs = concat (c # cs)" by simp
  show "chunks (c # cs) (el # els)" using assms by simp
qed (use assms in auto)

lemma whole_elementE:
  assumes "whole_element m"
  obtains c el cs els where "m = c @ concat cs" "consumes_chunk Next c el" "chunks cs els"
    "\<not> el_IsEndContainer el" "if el_IsContainer el then closes 1 els else els = []"
proof -
  from assms obtain cs' el els where "m = concat cs'" "chunks cs' (el # els)"
    "\<not> el_IsEndContainer el" "if el_IsContainer el then closes 1 els else els = []"
    unfolding whole_element_def NewDecoder_cursor decode_all_Inr_iff one_element_iff by blast
  with that show thesis by (auto simp: list_all2_Cons2 simp del: One_nat_def)
qed

lemma whole_element_not_Nil: "whole_element m \<Longrightarrow> m \<noteq> []"
  by (auto elim!: whole_elementE dest: chunk_not_Nil)

text \<open>One round of the splitter: the opener and \<open>finish_member\<close> consume a whole element.\<close>

definition read_member :: "(decoder, tlv_error, unit) reader" where
  "read_member = read_then Next (\<lambda>el.
     if el_IsEndContainer el then Pair (Inl (Fail ErrTrailingBytes)) else finish_member el)"

lemma read_member_iff:
  "read_member (cursor pre xs) = (Inr u, d') \<longleftrightarrow>
     (\<exists>m ys. xs = m @ ys \<and> d' = cursor (pre @ m) ys \<and> whole_element m)"
proof
  assume "read_member (cursor pre xs) = (Inr u, d')"
  then obtain el d1 where n: "Next (cursor pre xs) = (Inr el, d1)" and e: "\<not> el_IsEndContainer el"
    and f: "finish_member el d1 = (Inr u, d')"
    by (auto simp: read_member_def read_then_Inr_iff split: if_splits)
  from local_Next n obtain c ys where
    c: "xs = c @ ys" "d1 = cursor (pre @ c) ys" "consumes_chunk Next c el"
    by (rule local_readerE)
  show "\<exists>m ys. xs = m @ ys \<and> d' = cursor (pre @ m) ys \<and> whole_element m"
  proof (cases "el_IsContainer el")
    case True
    with f c(2) have "skip_loop 1 (cursor (pre @ c) ys) = (Inr u, d')"
      by (simp add: finish_member_def skipContainer_def)
    then obtain cs els zs where z: "ys = concat cs @ zs" "d' = cursor ((pre @ c) @ concat cs) zs"
      "chunks cs els" "closes 1 els"
      unfolding skip_loop_iff by blast
    then have "whole_element (c @ concat cs)"
      using True whole_elementI [OF c(3) z(3) e] by simp
    with z(1,2) c(1) show ?thesis
      by (intro exI [of _ "c @ concat cs"] exI [of _ zs]) simp
  next
    case False
    then have "whole_element (c @ concat [])"
      using c e by (intro whole_elementI [where els = "[]"]) simp_all
    with False f c show ?thesis
      by (intro exI [of _ c] exI [of _ ys]) (simp add: finish_member_def)
  qed
next
  assume "\<exists>m ys. xs = m @ ys \<and> d' = cursor (pre @ m) ys \<and> whole_element m"
  then obtain m ys where m: "xs = m @ ys" "d' = cursor (pre @ m) ys" "whole_element m" by blast
  from m(3) obtain c el cs els where c: "m = c @ concat cs" "consumes_chunk Next c el" "chunks cs els"
    "\<not> el_IsEndContainer el" and cl: "if el_IsContainer el then closes 1 els else els = []"
    by (rule whole_elementE)
  have n: "Next (cursor pre xs) = (Inr el, cursor (pre @ c) (concat cs @ ys))"
    using m c by (simp add: consumes_chunk_def)
  have "finish_member el (cursor (pre @ c) (concat cs @ ys)) = (Inr u, d')"
  proof (cases "el_IsContainer el")
    case True
    with cl c(3) m(2) c(1) have "skip_loop 1 (cursor (pre @ c) (concat cs @ ys)) = (Inr u, d')"
      unfolding skip_loop_iff by (intro exI [of _ cs] exI [of _ els] exI [of _ ys]) simp
    with True show ?thesis by (simp add: finish_member_def skipContainer_def)
  next
    case False
    with cl c m show ?thesis by (simp add: finish_member_def)
  qed
  with n c(4) show "read_member (cursor pre xs) = (Inr u, d')"
    by (simp add: read_member_def read_then_def)
qed

lemma slice_cursor: "slice (pre @ m @ ys) (length pre) (length (pre @ m)) = Inr m"
  by (simp add: slice_def)

definition array_rest :: "bytes list \<Rightarrow> bytes \<Rightarrow> bool" where
  "array_rest ms xs \<longleftrightarrow> xs = concat ms @ [TypeEndContainer] \<and> list_all whole_element ms"

lemma not_whole_element_end: "TypeEndContainer # ys = m @ zs \<Longrightarrow> \<not> whole_element m"
proof
  define xs where a: "xs = TypeEndContainer # ys"
  assume m: "TypeEndContainer # ys = m @ zs" "whole_element m"
  have "xs = m @ zs \<and> cursor m zs = cursor ([] @ m) zs \<and> whole_element m"
    using m a by simp
  then have "read_member (cursor [] xs) = (Inr (), cursor m zs)"
    unfolding read_member_iff by blast
  moreover have "Next (cursor [] xs) = (Inr end_element, cursor [TypeEndContainer] ys)"
    using end_chunk_iff [of "[TypeEndContainer]" end_element] a by (simp add: consumes_chunk_def)
  moreover have "el_IsEndContainer end_element" by (simp add: end_element_def)
  ultimately show False by (simp add: read_member_def read_then_def)
qed

lemma array_rest_end: "array_rest ms (TypeEndContainer # ys) \<longleftrightarrow> ys = [] \<and> ms = []"
  using not_whole_element_end by (cases ms) (auto simp: array_rest_def)

lemma array_rest_member:
  assumes "xs \<noteq> [TypeEndContainer]"
  shows "array_rest ms xs \<longleftrightarrow> (\<exists>m ys ms'. ms = m # ms' \<and> xs = m @ ys \<and> whole_element m \<and> array_rest ms' ys)"
  using assms by (cases ms) (auto simp: array_rest_def)

lemma split_loop_end:
  assumes "Next (cursor pre xs) = (Inr el, d1)" "el_IsEndContainer el"
  shows "\<exists>ys. xs = TypeEndContainer # ys \<and>
    (split_loop b out (cursor pre xs) = Inr ms \<longleftrightarrow> ys = [] \<and> ms = out)"
proof -
  from local_Next assms(1) obtain c ys where
    c: "xs = c @ ys" "d1 = cursor (pre @ c) ys" "consumes_chunk Next c el"
    by (rule local_readerE)
  with assms end_chunk_iff have "c = [TypeEndContainer]" by blast
  with c(1) have xs: "xs = TypeEndContainer # ys" by simp
  have "split_loop b out (cursor pre xs) = Inr ms \<longleftrightarrow> ys = [] \<and> ms = out"
    using assms c(2) by (subst split_loop.simps) auto
  with xs show ?thesis by blast
qed

lemma split_loop_member:
  assumes "\<And>el d1. Next (cursor pre xs) = (Inr el, d1) \<Longrightarrow> \<not> el_IsEndContainer el"
  shows "split_loop (pre @ xs) out (cursor pre xs) = Inr ms \<longleftrightarrow>
    (\<exists>m ys. xs = m @ ys \<and> whole_element m \<and>
       split_loop (pre @ xs) (out @ [m]) (cursor (pre @ m) ys) = Inr ms)"
proof -
  obtain r d1 where n: "Next (cursor pre xs) = (r, d1)" by (cases "Next (cursor pre xs)")
  have "split_loop (pre @ xs) out (cursor pre xs) = Inr ms \<longleftrightarrow>
      (\<exists>d2. read_member (cursor pre xs) = (Inr (), d2) \<and>
        and_then (slice (pre @ xs) (length pre) (dec_pos d2)) (\<lambda>m. split_loop (pre @ xs) (out @ [m]) d2) = Inr ms)"
  proof (cases r)
    case (Inr el)
    with n assms have "\<not> el_IsEndContainer el" by blast
    with n Inr show ?thesis
      by (subst split_loop.simps)
        (cases "finish_member el d1"; auto simp: read_member_def read_then_def split: sum.splits)
  qed (use n in \<open>subst split_loop.simps, simp add: read_member_def read_then_def\<close>)
  also have "\<dots> \<longleftrightarrow> (\<exists>m ys. xs = m @ ys \<and> whole_element m \<and>
      and_then (slice (pre @ xs) (length pre) (dec_pos (cursor (pre @ m) ys)))
        (\<lambda>m'. split_loop (pre @ xs) (out @ [m']) (cursor (pre @ m) ys)) = Inr ms)"
    unfolding read_member_iff by blast
  also have "\<dots> \<longleftrightarrow> (\<exists>m ys. xs = m @ ys \<and> whole_element m \<and>
      split_loop (pre @ xs) (out @ [m]) (cursor (pre @ m) ys) = Inr ms)"
    by (intro ex_cong1 conj_cong refl) (simp add: slice_cursor del: length_append)
  finally show ?thesis .
qed

lemma split_loop_iff:
  "split_loop (pre @ xs) out (cursor pre xs) = Inr ms \<longleftrightarrow> (\<exists>ms'. ms = out @ ms' \<and> array_rest ms' xs)"
proof (induction "length xs" arbitrary: out pre xs rule: less_induct)
  case less
  show ?case
  proof (cases "\<exists>el d1. Next (cursor pre xs) = (Inr el, d1) \<and> el_IsEndContainer el")
    case True
    then obtain el d1 where "Next (cursor pre xs) = (Inr el, d1)" "el_IsEndContainer el" by blast
    from split_loop_end [OF this, of "pre @ xs" out ms] obtain ys where "xs = TypeEndContainer # ys"
      "split_loop (pre @ xs) out (cursor pre xs) = Inr ms \<longleftrightarrow> ys = [] \<and> ms = out" by blast
    then show ?thesis by (simp only: array_rest_end) blast
  next
    case False
    have "xs \<noteq> [TypeEndContainer]"
    proof
      assume "xs = [TypeEndContainer]"
      then have "Next (cursor pre xs) = (Inr end_element, cursor (pre @ xs) [])"
        using end_chunk_iff [of xs end_element] unfolding consumes_chunk_def by (metis append_Nil2)
      moreover have "el_IsEndContainer end_element" by (simp add: end_element_def)
      ultimately show False using False by blast
    qed
    note G = array_rest_member [OF this]
    have IH: "split_loop (pre @ xs) (out @ [m]) (cursor (pre @ m) ys) = Inr ms \<longleftrightarrow>
        (\<exists>ms'. ms = (out @ [m]) @ ms' \<and> array_rest ms' ys)" if "xs = m @ ys" "whole_element m" for m ys
    proof -
      have "length ys < length xs" using that whole_element_not_Nil [OF that(2)] by simp
      from less.hyps [OF this, of "pre @ m" "out @ [m]"] show ?thesis
        by (simp only: that(1) append_assoc)
    qed
    have "split_loop (pre @ xs) out (cursor pre xs) = Inr ms \<longleftrightarrow>
        (\<exists>m ys. xs = m @ ys \<and> whole_element m \<and>
           split_loop (pre @ xs) (out @ [m]) (cursor (pre @ m) ys) = Inr ms)"
      by (rule split_loop_member) (use False in blast)
    also have "\<dots> \<longleftrightarrow> (\<exists>m ys. xs = m @ ys \<and> whole_element m \<and>
        (\<exists>ms'. ms = (out @ [m]) @ ms' \<and> array_rest ms' ys))"
      by (intro ex_cong1 conj_cong refl) (rule IH)
    also have "\<dots> \<longleftrightarrow> (\<exists>ms'. ms = out @ ms' \<and> array_rest ms' xs)"
      unfolding G append_assoc append_Cons append_Nil by blast
    finally show ?thesis .
  qed
qed

lemma decode_all_single: "decode_all (cursor pre c) = Inr [el] \<longleftrightarrow> consumes_chunk Next c el"
  by (auto simp: decode_all_Inr_iff list_all2_Cons2 intro: exI [of _ "[c]"])

lemma SplitArrayMembers_iff:
  "SplitArrayMembers b = Inr ms \<longleftrightarrow>
     (\<exists>c op ys. b = c @ ys \<and> consumes_chunk Next c op \<and> el_Type op \<in> {TypeArray, TypeList} \<and> array_rest ms ys)"
proof
  assume a: "SplitArrayMembers b = Inr ms"
  then obtain op d where n: "Next (cursor [] b) = (Inr op, d)" and t: "el_Type op \<in> {TypeArray, TypeList}"
    and s: "split_loop b [] d = Inr ms"
    by (auto simp: SplitArrayMembers_def NewDecoder_cursor split: prod.splits sum.splits if_splits)
  from local_Next n obtain c ys where c: "b = c @ ys" "d = cursor ([] @ c) ys" "consumes_chunk Next c op"
    by (rule local_readerE)
  with s split_loop_iff [of c ys "[]" ms] have "array_rest ms ys" by simp
  with c(1,3) t show "\<exists>c op ys. b = c @ ys \<and> consumes_chunk Next c op \<and>
      el_Type op \<in> {TypeArray, TypeList} \<and> array_rest ms ys"
    by blast
next
  assume "\<exists>c op ys. b = c @ ys \<and> consumes_chunk Next c op \<and>
      el_Type op \<in> {TypeArray, TypeList} \<and> array_rest ms ys"
  then obtain c op ys where c: "b = c @ ys" "consumes_chunk Next c op"
    "el_Type op \<in> {TypeArray, TypeList}" "array_rest ms ys" by blast
  have "Next (cursor [] b) = (Inr op, cursor c ys)"
    using c(1,2) unfolding consumes_chunk_def by (metis append_Nil)
  moreover have "split_loop b [] (cursor c ys) = Inr ms"
    using split_loop_iff [of c ys "[]" ms] c(1,4) by simp
  ultimately show "SplitArrayMembers b = Inr ms"
    using c(3) by (auto simp: SplitArrayMembers_def NewDecoder_cursor)
qed

section \<open>No panic\<close>

lemma cursor_induct [case_names step]:
  assumes "\<And>pre xs. (\<And>c ys. xs = c @ ys \<Longrightarrow> c \<noteq> [] \<Longrightarrow> P (pre @ c) ys) \<Longrightarrow> P pre xs"
  shows "P pre xs"
proof (induction "length xs" arbitrary: pre xs rule: less_induct)
  case less
  show ?case
  proof (rule assms)
    fix c ys
    assume "xs = c @ ys" "c \<noteq> []"
    then have "length ys < length xs" by simp
    then show "P (pre @ c) ys" by (rule less)
  qed
qed

lemma Next_cursor_cases:
  obtains (fail) f d' where "Next (cursor pre xs) = (Inl f, d')" "f \<noteq> Panic"
  | (item) el c ys where "xs = c @ ys" "c \<noteq> []" "Next (cursor pre xs) = (Inr el, cursor (pre @ c) ys)"
proof (cases "Next (cursor pre xs)")
  case (Pair r d')
  show thesis
  proof (cases r)
    case (Inl f)
    with Pair Next_safe [of "cursor pre xs"] fail show thesis by (auto simp: within_def)
  next
    case (Inr el)
    with Pair have n: "Next (cursor pre xs) = (Inr el, d')" by simp
    from local_Next n obtain c ys where
      "xs = c @ ys" "d' = cursor (pre @ c) ys" "consumes_chunk Next c el"
      by (rule local_readerE)
    with n item chunk_not_Nil show thesis by blast
  qed
qed

lemma decode_all_no_panic: "decode_all (cursor pre xs) \<noteq> Inl Panic"
proof (induction pre xs rule: cursor_induct)
  case (step pre xs)
  show ?case
    by (cases rule: Next_cursor_cases [of pre xs]; subst decode_all.simps)
      (use step in \<open>auto simp: and_then_Panic_iff\<close>)
qed

lemma validate_loop_no_panic: "validate_loop (cursor pre xs) ts \<noteq> Inl Panic"
proof (induction pre xs arbitrary: ts rule: cursor_induct)
  case (step pre xs)
  have t: "tag_rule ts el \<noteq> Inl Panic" for el by (simp add: tag_rule_def Let_def)
  have v: "validate_end ts \<noteq> Inl Panic" by (simp add: validate_end_def)
  show ?case
    by (cases rule: Next_cursor_cases [of pre xs]; subst validate_loop.simps)
      (use step t v in \<open>auto simp: and_then_Panic_iff\<close>)
qed

lemma skip_loop_no_panic: "fst (skip_loop n (cursor pre xs)) \<noteq> Inl Panic"
proof (induction pre xs arbitrary: n rule: cursor_induct)
  case (step pre xs)
  show ?case
    by (cases rule: Next_cursor_cases [of pre xs]; subst skip_loop.simps) (use step in auto)
qed

lemma read_member_no_panic: "fst (read_member (cursor pre xs)) \<noteq> Inl Panic"
  by (cases rule: Next_cursor_cases [of pre xs])
    (auto simp: read_member_def read_then_def finish_member_def skipContainer_def skip_loop_no_panic)

lemma split_loop_no_panic: "split_loop (pre @ xs) out (cursor pre xs) \<noteq> Inl Panic"
proof (induction pre xs arbitrary: out rule: cursor_induct)
  case (step pre xs)
  show ?case
  proof (cases rule: Next_cursor_cases [of pre xs])
    case (item el c ys)
    show ?thesis
    proof (cases "el_IsEndContainer el")
      case False
      obtain r d2 where f: "finish_member el (cursor (pre @ c) ys) = (r, d2)"
        by (cases "finish_member el (cursor (pre @ c) ys)")
      with item False have m: "read_member (cursor pre xs) = (r, d2)"
        by (simp add: read_member_def read_then_def)
      show ?thesis
      proof (cases r)
        case (Inr u)
        with m obtain mem zs where z: "xs = mem @ zs" "d2 = cursor (pre @ mem) zs" "whole_element mem"
          by (auto simp: read_member_iff)
        have sl: "slice (pre @ xs) (length pre) (dec_pos d2) = (Inr mem :: (tlv_error, bytes) go)"
          using z by (simp add: slice_def)
        have "split_loop (pre @ xs) out (cursor pre xs) = split_loop (pre @ xs) (out @ [mem]) d2"
          using item(3) False f Inr sl by (subst split_loop.simps) simp
        with step [of mem zs "out @ [mem]"] z whole_element_not_Nil show ?thesis by simp
      qed (use item False f m read_member_no_panic [of pre xs] in \<open>subst split_loop.simps, auto\<close>)
    qed (use item in \<open>subst split_loop.simps, auto\<close>)
  qed (subst split_loop.simps, auto)
qed

lemma SplitArrayMembers_no_panic: "SplitArrayMembers b \<noteq> Inl Panic"
  unfolding SplitArrayMembers_def NewDecoder_cursor
  by (cases rule: Next_cursor_cases [of "[]" b]) (use split_loop_no_panic [of _ _ "[]"] in auto)

end
