(* ===== verification/Tlv_Calls.thy ===== *)
theory Tlv_Calls
  imports Tlv_Roundtrip Tlv_Strict "HOL-Library.Sublist"
begin

text \<open>
  Sequences of encoder calls. \<open>enc_call\<close> is one call of an encoder method, \<open>exec_call\<close>
  runs it and \<open>expected_element\<close> is the element the decoder must return for it.
\<close>

unbundle bit_operations_syntax

section \<open>Encoder calls\<close>

datatype enc_call =
    C_Bool tag bool | C_Null tag
  | C_Uint tag u64 | C_Uint16 tag u16 | C_Uint32 tag u32 | C_Uint64 tag u64
  | C_UintWidth tag u64 int
  | C_Int tag "64 word" | C_Int16 tag "16 word" | C_Int32 tag "32 word" | C_Int64 tag "64 word"
  | C_Float32 tag u32 | C_Float64 tag u64
  | C_UTF8 tag bytes | C_UTF8WithMax tag bytes int | C_UTF8Bounded tag bytes int
  | C_Octets tag bytes
  | C_Struct tag | C_Array tag | C_List tag | C_End

fun exec_call :: "encoder \<Rightarrow> enc_call \<Rightarrow> (tlv_error, encoder) go" where
  "exec_call e (C_Bool tg v) = PutBool e tg v"
| "exec_call e (C_Null tg) = PutNull e tg"
| "exec_call e (C_Uint tg v) = PutUint e tg v"
| "exec_call e (C_Uint16 tg v) = PutUint16 e tg v"
| "exec_call e (C_Uint32 tg v) = PutUint32 e tg v"
| "exec_call e (C_Uint64 tg v) = PutUint64 e tg v"
| "exec_call e (C_UintWidth tg v w) = PutUintWidth e tg v w"
| "exec_call e (C_Int tg v) = PutInt e tg v"
| "exec_call e (C_Int16 tg v) = PutInt16 e tg v"
| "exec_call e (C_Int32 tg v) = PutInt32 e tg v"
| "exec_call e (C_Int64 tg v) = PutInt64 e tg v"
| "exec_call e (C_Float32 tg v) = PutFloat32 e tg v"
| "exec_call e (C_Float64 tg v) = PutFloat64 e tg v"
| "exec_call e (C_UTF8 tg s) = PutUTF8 e tg s"
| "exec_call e (C_UTF8WithMax tg s m) = PutUTF8WithMax e tg s m"
| "exec_call e (C_UTF8Bounded tg s m) = PutUTF8Bounded e tg s m"
| "exec_call e (C_Octets tg b) = PutOctets e tg b"
| "exec_call e (C_Struct tg) = StartStruct e tg"
| "exec_call e (C_Array tg) = StartArray e tg"
| "exec_call e (C_List tg) = StartList e tg"
| "exec_call e C_End = EndContainer e"

fun exec_calls :: "encoder \<Rightarrow> enc_call list \<Rightarrow> (tlv_error, encoder) go" where
  "exec_calls e [] = Inr e"
| "exec_calls e (c # cs) = and_then (exec_call e c) (\<lambda>e'. exec_calls e' cs)"

text \<open>The type chosen by the magnitude of a value, and the element that must be read back.\<close>

definition uint_type :: "u64 \<Rightarrow> element_type" where
  "uint_type v = (if v \<le> 0xFF then TypeUnsignedInt1 else if v \<le> 0xFFFF then TypeUnsignedInt2
     else if v \<le> 0xFFFFFFFF then TypeUnsignedInt4 else TypeUnsignedInt8)"

definition int_type :: "64 word \<Rightarrow> element_type" where
  "int_type v = (if - 0x80 \<le> sint v \<and> sint v \<le> 0x7F then TypeSignedInt1
     else if - 0x8000 \<le> sint v \<and> sint v \<le> 0x7FFF then TypeSignedInt2
     else if - 0x80000000 \<le> sint v \<and> sint v \<le> 0x7FFFFFFF then TypeSignedInt4
     else TypeSignedInt8)"

text \<open>The string a bounded write puts on the wire: trimmed to a valid prefix when too long.\<close>

definition bounded_utf8 :: "bytes \<Rightarrow> int \<Rightarrow> bytes" where
  "bounded_utf8 s m =
     (if m > 0 \<and> int (length (decodeUTF8 s)) > m
      then trim_or_empty (take (nat m) (decodeUTF8 s)) else decodeUTF8 s)"

fun expected_element :: "enc_call \<Rightarrow> element" where
  "expected_element (C_Bool tg v) =
     (new_element tg (if v then TypeBoolTrue else TypeBoolFalse))\<lparr>el_Bool := v\<rparr>"
| "expected_element (C_Null tg) = (new_element tg TypeNull)\<lparr>el_IsNull := True\<rparr>"
| "expected_element (C_Uint tg v) = (new_element tg (uint_type v))\<lparr>el_Uint := v\<rparr>"
| "expected_element (C_Uint16 tg v) = (new_element tg TypeUnsignedInt2)\<lparr>el_Uint := ucast v\<rparr>"
| "expected_element (C_Uint32 tg v) = (new_element tg TypeUnsignedInt4)\<lparr>el_Uint := ucast v\<rparr>"
| "expected_element (C_Uint64 tg v) = (new_element tg (uint_type v))\<lparr>el_Uint := v\<rparr>"
| "expected_element (C_UintWidth tg v w) =
     (new_element tg (if w = 1 then TypeUnsignedInt1 else if w = 2 then TypeUnsignedInt2
        else if w = 4 then TypeUnsignedInt4 else TypeUnsignedInt8))\<lparr>el_Uint := take_bit (nat (8 * w)) v\<rparr>"
| "expected_element (C_Int tg v) = (new_element tg (int_type v))\<lparr>el_Int := v\<rparr>"
| "expected_element (C_Int16 tg v) = (new_element tg TypeSignedInt2)\<lparr>el_Int := scast v\<rparr>"
| "expected_element (C_Int32 tg v) = (new_element tg TypeSignedInt4)\<lparr>el_Int := scast v\<rparr>"
| "expected_element (C_Int64 tg v) = (new_element tg TypeSignedInt8)\<lparr>el_Int := v\<rparr>"
| "expected_element (C_Float32 tg v) = (new_element tg TypeFloat4)\<lparr>el_Float := float64_of_float32 v\<rparr>"
| "expected_element (C_Float64 tg v) = (new_element tg TypeFloat8)\<lparr>el_Float := v\<rparr>"
| "expected_element (C_UTF8 tg s) = string_element tg (decodeUTF8 s)"
| "expected_element (C_UTF8WithMax tg s m) = string_element tg (bounded_utf8 s m)"
| "expected_element (C_UTF8Bounded tg s m) = string_element tg (bounded_utf8 s m)"
| "expected_element (C_Octets tg b) =
     (new_element tg (len_type TypeOctetStr1 (length b)))\<lparr>el_Octets := b\<rparr>"
| "expected_element (C_Struct tg) = (new_element tg TypeStructure)\<lparr>el_IsContainer := True\<rparr>"
| "expected_element (C_Array tg) = (new_element tg TypeArray)\<lparr>el_IsContainer := True\<rparr>"
| "expected_element (C_List tg) = (new_element tg TypeList)\<lparr>el_IsContainer := True\<rparr>"
| "expected_element C_End = end_element"

text \<open>
  Calls with a tag built by the constructors and a string whose length is within what the
  decoder's 32-bit \<open>RawLength\<close> (text) and Go's \<open>int\<close> (octets) hold.
\<close>

fun call_ok :: "enc_call \<Rightarrow> bool" where
  "call_ok (C_UTF8 tg s) = (wf_tag tg \<and> length (decodeUTF8 s) < 2 ^ 31)"
| "call_ok (C_UTF8WithMax tg s m) = (wf_tag tg \<and> length (decodeUTF8 s) < 2 ^ 31)"
| "call_ok (C_UTF8Bounded tg s m) = (wf_tag tg \<and> length (decodeUTF8 s) < 2 ^ 31)"
| "call_ok (C_Octets tg b) = (wf_tag tg \<and> length b < 2 ^ 63)"
| "call_ok C_End = True"
| "call_ok c = wf_tag (el_Tag (expected_element c))"

lemma validUTF8_eq [simp]: "validUTF8 s = decodeUTF8 s"
  by (simp add: validUTF8_def)

lemma trim_or_empty_valid [simp]: "utf8_valid (trim_or_empty s)"
  by (induction s rule: trim_or_empty.induct) (simp add: trim_or_empty.simps)

lemma trim_valid_eq: "trim_valid b = Inr (trim_or_empty b)"
proof (induction b rule: trim_valid.induct)
  case (1 b)
  show ?case
  proof (cases "utf8_valid b")
    case True
    then show ?thesis by (simp add: trim_valid.simps trim_or_empty.simps)
  next
    case False
    then have "b \<noteq> []" by auto
    with False 1 show ?thesis by (simp add: trim_valid.simps [of b] trim_or_empty.simps [of b])
  qed
qed

lemma length_trim_or_empty: "length (trim_or_empty s) \<le> length s"
  by (induction s rule: trim_or_empty.induct) (subst trim_or_empty.simps, auto)

lemma bounded_utf8_valid [simp]: "utf8_valid (bounded_utf8 s m)"
  by (simp add: bounded_utf8_def)

lemma trim_or_empty_longest:
  "prefix (trim_or_empty s) s \<and> (\<forall>q. utf8_valid q \<and> prefix q s \<longrightarrow> prefix q (trim_or_empty s))"
proof (induction s rule: trim_or_empty.induct)
  case (1 s)
  show ?case
  proof (cases "s = [] \<or> utf8_valid s")
    case True
    then show ?thesis by (auto simp: trim_or_empty.simps [of s])
  next
    case False
    then have t: "trim_or_empty s = trim_or_empty (butlast s)"
      by (simp add: trim_or_empty.simps [of s])
    have "prefix q (butlast s)" if "utf8_valid q" "prefix q s" for q
      using that False prefix_snoc [of q "butlast s" "last s"] by auto
    with False "1.IH" t prefixeq_butlast [of s] show ?thesis
      by (auto intro: prefix_order.trans)
  qed
qed

lemma bounded_utf8_longest:
  assumes "0 < m"
  shows "prefix (bounded_utf8 s m) (decodeUTF8 s) \<and> int (length (bounded_utf8 s m)) \<le> m \<and>
    (\<forall>q. utf8_valid q \<and> prefix q (decodeUTF8 s) \<and> int (length q) \<le> m \<longrightarrow> length q \<le> length (bounded_utf8 s m))"
proof (cases "int (length (decodeUTF8 s)) > m")
  case True
  let ?t = "take (nat m) (decodeUTF8 s)"
  have b: "bounded_utf8 s m = trim_or_empty ?t" using assms True by (simp add: bounded_utf8_def)
  have "prefix (trim_or_empty ?t) (decodeUTF8 s)"
    using trim_or_empty_longest [of ?t] take_is_prefix [of "nat m" "decodeUTF8 s"]
    by (blast intro: prefix_order.trans)
  moreover have "int (length (trim_or_empty ?t)) \<le> m"
    using length_trim_or_empty [of ?t] assms by (simp add: le_nat_iff)
  moreover have "length q \<le> length (trim_or_empty ?t)"
    if "utf8_valid q" "prefix q (decodeUTF8 s)" "int (length q) \<le> m" for q
  proof -
    have "prefix q ?t"
      using that(2,3) assms by (auto simp: prefix_def)
    with that(1) trim_or_empty_longest [of ?t] show ?thesis
      by (blast intro: prefix_length_le)
  qed
  ultimately show ?thesis by (simp add: b)
next
  case False
  then show ?thesis by (auto simp: bounded_utf8_def prefix_length_le)
qed

lemma length_bounded_utf8: "length (bounded_utf8 s m) \<le> length (decodeUTF8 s)"
  using length_trim_or_empty [of "take (nat m) (decodeUTF8 s)"] by (simp add: bounded_utf8_def)

lemma writes_octets:
  assumes "wf_tag tg" "length b < 2 ^ 63"
  shows "writes e (PutOctets e tg b) (expected_element (C_Octets tg b))"
proof -
  have "consumes_chunk (readValue (new_element tg (len_type TypeOctetStr1 (length b))))
      (len_prefix (length b) @ b) (expected_element (C_Octets tg b))"
    unfolding readValue_string
    by (rule consumes_then_return [OF consumes_len_prefix]) (use assms in simp_all)
  from writes_put_value [OF assms(1) len_type_bounds(3,4) this] show ?thesis by simp
qed

lemma writes_PutUint:
  assumes "wf_tag tg"
  shows "writes e (PutUint e tg v) ((new_element tg (uint_type v))\<lparr>el_Uint := v\<rparr>)"
proof -
  note w = writes_uint [OF _ assms]
  have 1: "v \<le> 0xFF \<Longrightarrow> ?thesis"
    using w [of TypeUnsignedInt1, simplified uint_widths, OF readU_masked(1) [of v], of e]
    by (simp add: PutUint_def uint_type_def take_bit_le)
  have 2: "\<not> v \<le> 0xFF \<Longrightarrow> v \<le> 0xFFFF \<Longrightarrow> ?thesis"
    using w [of TypeUnsignedInt2, simplified uint_widths, OF readU_masked(2) [of v], of e]
    by (simp add: PutUint_def uint_type_def take_bit_le)
  have 4: "\<not> v \<le> 0xFF \<Longrightarrow> \<not> v \<le> 0xFFFF \<Longrightarrow> v \<le> 0xFFFFFFFF \<Longrightarrow> ?thesis"
    using w [of TypeUnsignedInt4, simplified uint_widths, OF readU_masked(3) [of v], of e]
    by (simp add: PutUint_def uint_type_def take_bit_le)
  have 8: "\<not> v \<le> 0xFF \<Longrightarrow> \<not> v \<le> 0xFFFF \<Longrightarrow> \<not> v \<le> 0xFFFFFFFF \<Longrightarrow> ?thesis"
    using w [of TypeUnsignedInt8, simplified uint_widths, OF consumes_readU(4)]
    by (simp add: PutUint_def uint_type_def)
  from 1 2 4 8 show ?thesis by blast
qed

lemma writes_PutUintWidth:
  assumes "wf_tag tg"
  shows "writes e (PutUintWidth e tg v w) (expected_element (C_UintWidth tg v w))"
proof -
  note u = writes_uint [OF _ assms]
  consider "w = 1" | "w = 2" | "w = 4" | "w = 8" | "w \<notin> {1, 2, 4, 8}" by blast
  then show ?thesis
  proof cases
    case 1
    then show ?thesis
      using u [of TypeUnsignedInt1, simplified uint_widths, OF readU_masked(1)]
      by (simp add: PutUintWidth_def)
  next
    case 2
    then show ?thesis
      using u [of TypeUnsignedInt2, simplified uint_widths, OF readU_masked(2)]
      by (simp add: PutUintWidth_def)
  next
    case 3
    then show ?thesis
      using u [of TypeUnsignedInt4, simplified uint_widths, OF readU_masked(3)]
      by (simp add: PutUintWidth_def)
  next
    case 4
    then show ?thesis
      using u [of TypeUnsignedInt8, simplified uint_widths, OF consumes_readU(4)]
      by (simp add: PutUintWidth_def)
  next
    case 5
    then show ?thesis by (simp add: PutUintWidth_def writes_def)
  qed
qed

lemma writes_PutInt:
  assumes "wf_tag tg"
  shows "writes e (PutInt e tg v) ((new_element tg (int_type v))\<lparr>el_Int := v\<rparr>)"
proof -
  note w = writes_put_value [OF assms]
  have 1: "scast (ucast v :: 8 word) = v" if "- 0x80 \<le> sint v" "sint v \<le> 0x7F"
    by (rule scast_ucast_id) (use that in simp_all)
  have 2: "scast (ucast v :: 16 word) = v" if "- 0x8000 \<le> sint v" "sint v \<le> 0x7FFF"
    by (rule scast_ucast_id) (use that in simp_all)
  have 4: "scast (ucast v :: 32 word) = v" if "- 0x80000000 \<le> sint v" "sint v \<le> 0x7FFFFFFF"
    by (rule scast_ucast_id) (use that in simp_all)
  note ws = w [OF _ _ consumes_int_value(1) [where b = "ucast v"], of e]
    w [OF _ _ consumes_int_value(2) [where v = "ucast v"], of e]
    w [OF _ _ consumes_int_value(3) [where w = "ucast v"], of e]
    w [OF _ _ consumes_int_value(4) [where z = v], of e]
  show ?thesis
    unfolding PutInt_def int_type_def using ws 1 2 4 by (auto split: if_split)
qed

lemma writes_container:
  assumes "wf_tag tg" "t \<in> {TypeStructure, TypeArray, TypeList}"
  shows "writes e (open_container e t tg) ((new_element tg t)\<lparr>el_IsContainer := True\<rparr>)"
proof -
  have "readValue (new_element tg t) = Pair (Inr ((new_element tg t)\<lparr>el_IsContainer := True\<rparr>))"
    using assms(2) by (elim insertE) (simp_all add: readValue_def Let_def)
  with assms have "writes e (writeControlAndTag e t tg) ((new_element tg t)\<lparr>el_IsContainer := True\<rparr>)"
    by (intro writes_no_value) auto
  then show ?thesis by (auto simp: writes_def open_container_def and_then_Inr_iff)
qed

lemma writes_EndContainer: "writes e (EndContainer e) end_element"
  using end_chunk_iff [of "[TypeEndContainer]"] by (auto simp: writes_def EndContainer_def Let_def split: if_splits)

lemma writes_bounded:
  assumes "wf_tag tg" "length (decodeUTF8 s) < 2 ^ 31"
  shows "writes e (put_utf8_bytes e tg (bounded_utf8 s m)) (string_element tg (bounded_utf8 s m))"
  using assms length_bounded_utf8 [of s m] by (intro writes_utf8) auto

lemma PutUTF8_bounded:
  "PutUTF8WithMax e tg s m = put_utf8_bytes e tg (bounded_utf8 s m)"
  "PutUTF8Bounded e tg s m = put_utf8_bytes e tg (bounded_utf8 s m)"
  by (auto simp: PutUTF8WithMax_def PutUTF8Bounded_def bounded_utf8_def trim_valid_eq Let_def)

lemma exec_call_writes:
  assumes "call_ok c"
  shows "writes e (exec_call e c) (expected_element c)"
proof (cases c)
  case (C_Bool tg v)
  have "readValue (new_element tg (if v then TypeBoolTrue else TypeBoolFalse)) =
      Pair (Inr (expected_element (C_Bool tg v)))"
    by (simp add: readValue_def Let_def)
  with C_Bool assms show ?thesis
    by (simp add: PutBool_def writes_no_value)
next
  case (C_Null tg)
  have "readValue (new_element tg TypeNull) = Pair (Inr (expected_element (C_Null tg)))"
    by (simp add: readValue_def Let_def)
  with C_Null assms show ?thesis by (simp add: PutNull_def writes_no_value)
next
  case (C_Uint16 tg v)
  then show ?thesis
    using assms writes_uint [of TypeUnsignedInt2, simplified uint_widths, OF consumes_readU(2)]
    by (simp add: PutUint16_def)
next
  case (C_UintWidth tg v w)
  then show ?thesis using assms writes_PutUintWidth by simp
next
  case (C_Uint32 tg v)
  then show ?thesis
    using assms writes_uint [of TypeUnsignedInt4, simplified uint_widths, OF consumes_readU(3)]
    by (simp add: PutUint32_def)
next
  case (C_Int16 tg v)
  then show ?thesis
    using assms writes_put_value [OF _ _ _ consumes_int_value(2)] by (simp add: PutInt16_def)
next
  case (C_Int32 tg v)
  then show ?thesis
    using assms writes_put_value [OF _ _ _ consumes_int_value(3)] by (simp add: PutInt32_def)
next
  case (C_Int64 tg v)
  then show ?thesis
    using assms writes_put_value [OF _ _ _ consumes_int_value(4)] by (simp add: PutInt64_def)
next
  case (C_Float32 tg v)
  then show ?thesis
    using assms writes_put_value [OF _ _ _ consumes_float_value(1)] by (simp add: PutFloat32_def)
next
  case (C_Float64 tg v)
  then show ?thesis
    using assms writes_put_value [OF _ _ _ consumes_float_value(2)] by (simp add: PutFloat64_def)
next
  case (C_UTF8 tg s)
  then show ?thesis using assms writes_utf8 [of tg "decodeUTF8 s" e] by (simp add: PutUTF8_def)
next
  case (C_Octets tg b)
  then show ?thesis using assms writes_octets by simp
qed (use assms in \<open>auto simp: writes_PutUint writes_PutInt PutUint64_def writes_PutUintWidth
      PutUTF8_bounded StartStruct_def StartArray_def StartList_def writes_EndContainer
      simp del: string_types intro!: writes_container writes_bounded\<close>)

lemma exec_calls_decode:
  assumes "exec_calls e cs = Inr e'" and "list_all call_ok cs"
  shows "\<exists>b. enc_buf e' = enc_buf e @ b \<and>
     (\<forall>pre. decode_all (cursor pre b) = Inr (map expected_element cs))"
  using assms
proof (induction cs arbitrary: e)
  case Nil
  then show ?case by (simp add: decode_all.simps Next_cursor)
next
  case (Cons c cs)
  then obtain e1 where 1: "exec_call e c = Inr e1" and 2: "exec_calls e1 cs = Inr e'"
    by (auto simp: and_then_Inr_iff)
  from exec_call_writes [of c e] 1 Cons.prems obtain b1 where
    b1: "enc_buf e1 = enc_buf e @ b1" "consumes_chunk Next b1 (expected_element c)"
    by (auto simp: writes_def)
  from Cons.IH [OF 2] Cons.prems obtain b2 where
    b2: "enc_buf e' = enc_buf e1 @ b2" "\<forall>pre. decode_all (cursor pre b2) = Inr (map expected_element cs)"
    by auto
  show ?case
    using b1 b2 decode_all_chunk [OF b1(2)] by (intro exI [of _ "b1 @ b2"]) simp
qed

section \<open>Which sequences of calls succeed\<close>

definition opened_by :: "enc_call \<Rightarrow> element_type option" where
  "opened_by c = (case c of
      C_Struct _ \<Rightarrow> Some TypeStructure | C_Array _ \<Rightarrow> Some TypeArray | C_List _ \<Rightarrow> Some TypeList
    | _ \<Rightarrow> None)"

text \<open>
  The calls an encoder with the stack \<open>st\<close> of open containers accepts: no end without an
  open container, no context tag directly in an array, no odd integer width, and no
  container left open at the end.
\<close>

fun accepts :: "element_type list \<Rightarrow> enc_call list \<Rightarrow> bool" where
  "accepts st [] \<longleftrightarrow> st = []"
| "accepts st (c # cs) \<longleftrightarrow>
     (if c = C_End then st \<noteq> [] \<and> accepts (butlast st) cs
      else \<not> (st \<noteq> [] \<and> last st = TypeArray \<and> tag_Kind (el_Tag (expected_element c)) = TagKindContext)
        \<and> (\<forall>tg v w. c = C_UintWidth tg v w \<longrightarrow> w \<in> {1, 2, 4, 8})
        \<and> accepts (case opened_by c of Some t \<Rightarrow> st @ [t] | None \<Rightarrow> st) cs)"

definition encoder_inv :: "encoder \<Rightarrow> bool" where
  "encoder_inv e \<longleftrightarrow> enc_openCont e = length (enc_containerStack e)"

definition blocked :: "encoder \<Rightarrow> tag \<Rightarrow> bool" where
  "blocked e tg \<longleftrightarrow> enc_containerStack e \<noteq> [] \<and> last (enc_containerStack e) = TypeArray
     \<and> tag_Kind tg = TagKindContext"

lemma writeControlAndTag_blocked:
  "writeControlAndTag e t tg =
     (if blocked e tg then Inl Panic else Inr (emit e (element_bytes t tg [])))"
  by (simp add: writeControlAndTag_def blocked_def element_bytes_def)

lemma put_value_blocked:
  "put_value e t tg b = (if blocked e tg then Inl Panic else Inr (emit e (element_bytes t tg b)))"
  by (simp add: put_value_def writeControlAndTag_blocked emit_def element_bytes_def)

lemma open_container_blocked:
  "open_container e t tg =
     (if blocked e tg then Inl Panic
      else Inr \<lparr>enc_buf = enc_buf e @ element_bytes t tg [], enc_openCont = enc_openCont e + 1,
                enc_containerStack = enc_containerStack e @ [t]\<rparr>)"
  by (simp add: open_container_def writeControlAndTag_blocked emit_def)

lemma emit_sel [simp]: "enc_openCont (emit e b) = enc_openCont e" "enc_containerStack (emit e b) = enc_containerStack e"
  by (simp_all add: emit_def)

definition call_stack :: "enc_call \<Rightarrow> element_type list \<Rightarrow> element_type list" where
  "call_stack c st = (if c = C_End then butlast st
     else case opened_by c of Some t \<Rightarrow> st @ [t] | None \<Rightarrow> st)"

definition call_accepted :: "encoder \<Rightarrow> enc_call \<Rightarrow> bool" where
  "call_accepted e c \<longleftrightarrow>
     (if c = C_End then enc_containerStack e \<noteq> []
      else \<not> blocked e (el_Tag (expected_element c)) \<and> (\<forall>tg v w. c = C_UintWidth tg v w \<longrightarrow> w \<in> {1, 2, 4, 8}))"

lemmas put_defs = PutBool_def PutNull_def PutUint16_def PutUint32_def PutUint64_def PutUint_def
  PutUintWidth_def PutInt16_def PutInt32_def PutInt64_def PutInt_def PutFloat32_def PutFloat64_def
  PutUTF8_def PutUTF8_bounded StartStruct_def StartArray_def StartList_def

lemma string_element_Tag [simp]: "el_Tag (string_element tg b) = tg"
  by (simp add: string_element_def Let_def)

lemma exec_call_result:
  assumes "encoder_inv e"
  shows "if call_accepted e c
    then \<exists>e'. exec_call e c = Inr e' \<and> encoder_inv e' \<and> enc_containerStack e' = call_stack c (enc_containerStack e)
    else exec_call e c = Inl (if c = C_End then Fail ErrUnbalancedContainer else Panic)"
  using assms
  by (cases c) (simp_all add: put_defs put_value_blocked writeControlAndTag_blocked open_container_blocked
      call_accepted_def call_stack_def opened_by_def encoder_inv_def EndContainer_def Let_def)

lemma exec_calls_accepts:
  assumes "encoder_inv e"
  shows "(\<exists>e' b. exec_calls e cs = Inr e' \<and> Bytes e' = Inr b) \<longleftrightarrow> accepts (enc_containerStack e) cs"
  using assms
proof (induction cs arbitrary: e)
  case Nil
  then show ?case by (auto simp: Bytes_def encoder_inv_def)
next
  case (Cons c cs)
  show ?case
  proof (cases "call_accepted e c")
    case True
    with exec_call_result [OF Cons.prems, of c] obtain e' where
      e': "exec_call e c = Inr e'" "encoder_inv e'" "enc_containerStack e' = call_stack c (enc_containerStack e)"
      by auto
    with Cons.IH [OF e'(2)] True show ?thesis
      by (simp add: call_accepted_def blocked_def call_stack_def split: if_splits)
  next
    case False
    with exec_call_result [OF Cons.prems, of c] have "\<exists>f. exec_call e c = Inl f" by auto
    with False show ?thesis
      by (auto simp: call_accepted_def blocked_def split: if_splits)
  qed
qed

lemma exec_calls_inv: "exec_calls e cs = Inr e' \<Longrightarrow> encoder_inv e \<Longrightarrow> encoder_inv e'"
proof (induction cs arbitrary: e)
  case (Cons c cs)
  then obtain e1 where e1: "exec_call e c = Inr e1" "exec_calls e1 cs = Inr e'"
    by (auto simp: and_then_Inr_iff)
  then have "encoder_inv e1"
    using exec_call_result [OF Cons.prems(2), of c] by (auto split: if_splits)
  with Cons.IH e1(2) show ?case by blast
qed simp

lemma NewEncoder_inv: "encoder_inv NewEncoder" "enc_containerStack NewEncoder = []"
  by (simp_all add: encoder_inv_def NewEncoder_def)

section \<open>Raw elements\<close>

fun put_raw_all :: "encoder \<Rightarrow> bytes list \<Rightarrow> (tlv_error, encoder) go" where
  "put_raw_all e [] = Inr e"
| "put_raw_all e (m # ms) = and_then (PutRawElement e AnonymousTag m) (\<lambda>e'. put_raw_all e' ms)"

definition anonymous_raw :: "bytes \<Rightarrow> bool" where
  "anonymous_raw m \<longleftrightarrow> m \<noteq> [] \<and> drop_bit 5 (hd m) = TagKindAnonymous"

lemma PutRawElement_anonymous:
  assumes "anonymous_raw m"
  shows "PutRawElement e AnonymousTag m = Inr (emit e m)"
proof -
  obtain c body where m: "m = c # body" using assms by (cases m) (auto simp: anonymous_raw_def)
  with assms have k: "drop_bit 5 c = 0" by (simp add: anonymous_raw_def)
  then have "c AND 0x1F = c" using control_join [of c] by simp
  with m k show ?thesis
    by (simp add: PutRawElement_def put_value_blocked blocked_def AnonymousTag_def element_bytes_def
        control_byte_def tag_bytes_def)
qed

lemma put_raw_all_anonymous:
  "list_all anonymous_raw ms \<Longrightarrow> put_raw_all e ms = Inr (emit e (concat ms))"
  by (induction ms arbitrary: e) (simp_all add: PutRawElement_anonymous emit_def)

end
