(* ===== verification/Tlv_Theorems.thy ===== *)
theory Tlv_Theorems
  imports Tlv_Calls
begin

text \<open>
  The properties of the TLV codec: the encoder and the decoder are inverse to each other,
  \<open>Validate\<close> and \<open>SplitArrayMembers\<close> accept exactly their grammars, nothing panics on
  untrusted bytes, and strings are bounded by the longest valid prefix.
\<close>

unbundle bit_operations_syntax

section \<open>Round trip\<close>



text \<open>
  C22. An encoder accepts a complete sequence of calls, from a fresh encoder to \<open>Bytes\<close>,
  exactly when no end marker comes without an open container, no context tag is put
  directly into an array, integer widths are 1, 2, 4 or 8, and every container is closed.
\<close>

theorem encoder_accepts_iff:
  "(\<exists>e b. exec_calls NewEncoder cs = Inr e \<and> Bytes e = Inr b) \<longleftrightarrow> accepts [] cs"
  using exec_calls_accepts [OF NewEncoder_inv(1)] by (simp add: NewEncoder_inv(2))

section \<open>The strict check\<close>

text \<open>
  C21. \<open>Validate\<close> accepts a buffer exactly when it decodes completely and the elements are
  properly nested with every tag allowed by its parent container: no context tag at top
  level, no anonymous tag in a structure, only anonymous tags in an array.
\<close>

theorem Validate_iff:
  "Validate b = Inr () \<longleftrightarrow> (\<exists>els. decode_all (NewDecoder b) = Inr els \<and> strict_body None els)"
  by (simp add: Validate_def NewDecoder_cursor validate_loop_iff strict_run_iff)

text \<open>
  C23. \<open>SplitArrayMembers\<close> returns the members \<open>ms\<close> exactly when the buffer is an array or
  list opener, the members one after the other, each of them one whole element, and the end
  marker as its last byte.
\<close>

theorem SplitArrayMembers_spec:
  "SplitArrayMembers b = Inr ms \<longleftrightarrow>
     (\<exists>c op. b = c @ concat ms @ [TypeEndContainer] \<and> decode_all (NewDecoder c) = Inr [op]
        \<and> el_Type op \<in> {TypeArray, TypeList} \<and> list_all whole_element ms)"
  unfolding SplitArrayMembers_iff NewDecoder_cursor decode_all_single array_rest_def by blast

text \<open>
  No sequence of bytes makes the decoding loop, \<open>Validate\<close> or \<open>SplitArrayMembers\<close>
  panic: every index and slice of the source stays in range on untrusted input.
\<close>

theorem tlv_no_panic:
  "decode_all (NewDecoder b) \<noteq> Inl Panic \<and> Validate b \<noteq> Inl Panic \<and> SplitArrayMembers b \<noteq> Inl Panic"
  by (simp add: NewDecoder_cursor Validate_def decode_all_no_panic validate_loop_no_panic
      SplitArrayMembers_no_panic)

section \<open>Strings\<close>

text \<open>
  C35. A bounded text write puts on the wire the longest prefix of the (sanitised) string that
  fits the bound and is valid UTF-8; both bounded writers agree and neither trim loop runs
  off the front of the string.
\<close>

theorem bounded_write_longest_prefix:
  assumes "0 < m"
  shows "\<exists>p. PutUTF8Bounded e tg s m = put_utf8_bytes e tg p
     \<and> PutUTF8WithMax e tg s m = put_utf8_bytes e tg p
     \<and> utf8_valid p \<and> prefix p (decodeUTF8 s) \<and> int (length p) \<le> m
     \<and> (\<forall>q. utf8_valid q \<and> prefix q (decodeUTF8 s) \<and> int (length q) \<le> m \<longrightarrow> length q \<le> length p)"
  using assms bounded_utf8_longest [of m s] PutUTF8_bounded bounded_utf8_valid by blast

theorem bounded_write_longest_prefix_witness:
  "\<exists>p. PutUTF8Bounded NewEncoder AnonymousTag [0x41, 0xC3, 0xA9] 2 = put_utf8_bytes NewEncoder AnonymousTag p
     \<and> utf8_valid p \<and> prefix p (decodeUTF8 [0x41, 0xC3, 0xA9]) \<and> int (length p) \<le> 2"
  using bounded_write_longest_prefix [of 2 NewEncoder AnonymousTag "[0x41, 0xC3, 0xA9]"] by auto

text \<open>
  C36. Text that leaves the decoder is valid UTF-8 whatever bytes came in, and valid text is
  left as it is.
\<close>

theorem decodeUTF8_sanitises:
  "utf8_valid (decodeUTF8 s) \<and> (utf8_valid s \<longrightarrow> decodeUTF8 s = s) \<and> decodeUTF8 (decodeUTF8 s) = decodeUTF8 s"
  by simp

theorem decodeUTF8_sanitises_witness: "decodeUTF8 [0xC3, 0xA9] = [0xC3, 0xA9]"
  using decodeUTF8_sanitises [of "[0xC3, 0xA9]"] by code_simp

section \<open>Integers\<close>

text \<open>
  \<open>PutUint\<close> writes the shortest encoding: the fixed-width form with the least of the four
  widths that holds the value.
\<close>

theorem PutUint_shortest:
  "\<exists>w \<in> {1, 2, 4, 8}. PutUint e tg v = PutUintWidth e tg v w \<and> uint v < 2 ^ nat (8 * w)
     \<and> (\<forall>w' \<in> {1, 2, 4, 8}. uint v < 2 ^ nat (8 * w') \<longrightarrow> w \<le> w')"
proof -
  have u: "v \<le> 0xFF \<longleftrightarrow> uint v < 2 ^ 8" "v \<le> 0xFFFF \<longleftrightarrow> uint v < 2 ^ 16"
    "v \<le> 0xFFFFFFFF \<longleftrightarrow> uint v < 2 ^ 32"
    by (auto simp: word_le_def)
  have "uint v < 2 ^ 64" using uint_bounded [of v] by simp
  then show ?thesis
    by (cases "uint v < 2 ^ 8"; cases "uint v < 2 ^ 16"; cases "uint v < 2 ^ 32")
      (auto simp: PutUint_def PutUintWidth_def u)
qed

theorem PutUint_shortest_witness:
  "\<exists>w \<in> {1, 2, 4, 8}. PutUint NewEncoder AnonymousTag 300 = PutUintWidth NewEncoder AnonymousTag 300 w
     \<and> w \<le> 2"
proof -
  obtain w :: int where w: "w \<in> {1, 2, 4, 8}"
    "PutUint NewEncoder AnonymousTag 300 = PutUintWidth NewEncoder AnonymousTag 300 w"
    "\<forall>w' \<in> {1, 2, 4, 8}. uint (300 :: u64) < 2 ^ nat (8 * w') \<longrightarrow> w \<le> w'"
    using PutUint_shortest [of NewEncoder AnonymousTag 300] by blast
  from w(3) have "w \<le> 2" by simp
  with w(1,2) show ?thesis by blast
qed

section \<open>Raw elements\<close>

text \<open>
  Whole anonymous elements put one after the other into an array with \<open>PutRawElement\<close>
  come back from \<open>SplitArrayMembers\<close> unchanged and in order.
\<close>

theorem raw_members_roundtrip:
  assumes "list_all whole_element ms" and "list_all anonymous_raw ms"
  shows "\<exists>e1 e2 e3 b. StartArray NewEncoder AnonymousTag = Inr e1 \<and> put_raw_all e1 ms = Inr e2
     \<and> EndContainer e2 = Inr e3 \<and> Bytes e3 = Inr b \<and> SplitArrayMembers b = Inr ms"
proof -
  obtain e1 where e1: "StartArray NewEncoder AnonymousTag = Inr e1"
    "e1 = \<lparr>enc_buf = element_bytes TypeArray AnonymousTag [], enc_openCont = 1, enc_containerStack = [TypeArray]\<rparr>"
    by (simp add: StartArray_def open_container_blocked blocked_def NewEncoder_def)
  let ?e2 = "emit e1 (concat ms)"
  have e2: "put_raw_all e1 ms = Inr ?e2" using assms(2) by (rule put_raw_all_anonymous)
  define b where "b = element_bytes TypeArray AnonymousTag [] @ concat ms @ [TypeEndContainer]"
  have e3: "\<exists>e3. EndContainer ?e2 = Inr e3 \<and> Bytes e3 = Inr b"
    by (simp add: EndContainer_def e1(2) Bytes_def Let_def b_def)
  have "writes NewEncoder (StartArray NewEncoder AnonymousTag) (expected_element (C_Array AnonymousTag))"
    using exec_call_writes [of "C_Array AnonymousTag" NewEncoder] by (simp add: wf_tag_constructors)
  then have "consumes_chunk Next (element_bytes TypeArray AnonymousTag []) (expected_element (C_Array AnonymousTag))"
    using e1 by (auto simp: writes_def NewEncoder_def)
  then have "SplitArrayMembers b = Inr ms"
    unfolding SplitArrayMembers_iff array_rest_def using assms(1) by (auto simp: b_def)
  with e1(1) e2 e3 show ?thesis by blast
qed

theorem raw_members_roundtrip_witness:
  "\<exists>e1 e2 e3 b. StartArray NewEncoder AnonymousTag = Inr e1 \<and> put_raw_all e1 [[0x04, 0x2A], [0x08]] = Inr e2
     \<and> EndContainer e2 = Inr e3 \<and> Bytes e3 = Inr b \<and> SplitArrayMembers b = Inr [[0x04, 0x2A], [0x08]]"
proof (rule raw_members_roundtrip)
  have "decode_all (NewDecoder [0x04, 0x2A]) = Inr [(new_element AnonymousTag TypeUnsignedInt1)\<lparr>el_Uint := 42\<rparr>]"
    "decode_all (NewDecoder [0x08]) = Inr [(new_element AnonymousTag TypeBoolFalse)\<lparr>el_Bool := False\<rparr>]"
    by code_simp+
  then show "list_all whole_element [[0x04, 0x2A], [0x08]]"
    by (simp add: whole_element_def one_element.simps new_element_def)
qed (simp add: anonymous_raw_def)

end
