(* ===== verification/Wire.thy ===== *)
theory Wire
  imports Prelude
begin

text \<open>
  Header codecs over a byte slice and a position. A \<open>parser\<close> reads the slice \<open>buf\<close> from the
  position it is given and returns the position after what it has read, as the decoders of
  the source do with their local \<open>pos\<close>. \<open>parses m P\<close> says exactly what a parser accepts:
  it succeeds with \<open>x\<close> iff the bytes at the position start with a chunk \<open>c\<close> such that
  \<open>P x c\<close>, moves over that chunk, and never panics. It composes, so that a decoder's
  theorem is read off its definition.
\<close>

unbundle bit_operations_syntax

section \<open>Bits of a byte\<close>

lemma less_8_cases: "n < 8 \<longleftrightarrow> n \<in> {0 :: nat, 1, 2, 3, 4, 5, 6, 7}"
  by auto

lemma byte_eqI: "(\<And>n. n < 8 \<Longrightarrow> bit a n = bit b n) \<Longrightarrow> a = (b :: byte)"
  by (rule bit_word_eqI) simp

lemma byte_eq_iff:
  "(a :: byte) = b \<longleftrightarrow> bit a 0 = bit b 0 \<and> bit a 1 = bit b 1 \<and> bit a 2 = bit b 2 \<and> bit a 3 = bit b 3
     \<and> bit a 4 = bit b 4 \<and> bit a 5 = bit b 5 \<and> bit a 6 = bit b 6 \<and> bit a 7 = bit b 7"
  by (auto intro!: byte_eqI simp: less_8_cases)

lemmas byte_bits = byte_eq_iff bit_and_iff bit_or_iff

lemma unat_bounds:
  "unat (b :: byte) < 2 ^ 8" "unat (v :: u16) < 2 ^ 16" "unat (w :: u32) < 2 ^ 32" "unat (z :: u64) < 2 ^ 64"
  using unsigned_less [of b] unsigned_less [of v] unsigned_less [of w] unsigned_less [of z]
  by simp_all

section \<open>One-byte fields\<close>

definition put_u8 :: "byte \<Rightarrow> bytes" where
  "put_u8 b = [b]"

definition get_u8 :: "bytes \<Rightarrow> ('e, byte) go" where
  "get_u8 b = index b 0"

interpretation u8: wire_field put_u8 get_u8 1
proof unfold_locales
  show "1 \<le> length b \<Longrightarrow> \<exists>x. get_u8 b = Inr x \<and> put_u8 x = take 1 b" for b
    by (cases b) (simp_all add: get_u8_def put_u8_def)
qed (simp_all add: put_u8_def get_u8_def index_def)

section \<open>Parsers\<close>

type_synonym ('e, 'a) parser = "bytes \<Rightarrow> (nat, 'e, 'a) reader"

definition ret :: "'a \<Rightarrow> ('e, 'a) parser" where
  "ret x buf pos = (Inr x, pos)"

definition fail_with :: "'e \<Rightarrow> ('e, 'a) parser" where
  "fail_with e buf pos = (Inl (Fail e), pos)"

definition bind_at :: "('e, 'a) parser \<Rightarrow> ('a \<Rightarrow> ('e, 'b) parser) \<Rightarrow> ('e, 'b) parser" where
  "bind_at m f buf = read_then (m buf) (\<lambda>x. f x buf)"

text \<open>
  A field of \<open>n\<close> bytes at the position, after the length check of the source: without it,
  \<open>buf[pos:]\<close> and the read of the field would panic.
\<close>

definition field_at :: "'e \<Rightarrow> nat \<Rightarrow> (bytes \<Rightarrow> ('e, 'a) go) \<Rightarrow> ('e, 'a) parser" where
  "field_at e n get buf pos =
     (if length buf < pos + n then (Inl (Fail e), pos)
      else (case and_then (slice_from buf pos) get of
          Inl f \<Rightarrow> (Inl f, pos)
        | Inr v \<Rightarrow> (Inr v, pos + n)))"

definition parses :: "('e, 'a) parser \<Rightarrow> ('a \<Rightarrow> bytes \<Rightarrow> bool) \<Rightarrow> bool" where
  "parses m P \<longleftrightarrow> (\<forall>pre xs.
     (\<forall>x p. m (pre @ xs) (length pre) = (Inr x, p) \<longleftrightarrow>
        (\<exists>c ys. xs = c @ ys \<and> P x c \<and> p = length pre + length c))
     \<and> fst (m (pre @ xs) (length pre)) \<noteq> Inl Panic)"

lemma parsesI:
  assumes "\<And>pre xs x p. m (pre @ xs) (length pre) = (Inr x, p) \<longleftrightarrow>
        (\<exists>c ys. xs = c @ ys \<and> P x c \<and> p = length pre + length c)"
    and "\<And>pre xs. fst (m (pre @ xs) (length pre)) \<noteq> Inl Panic"
  shows "parses m P"
  using assms by (simp add: parses_def)

lemma parses_iff:
  assumes "parses m P"
  shows "m (pre @ xs) (length pre) = (Inr x, p) \<longleftrightarrow>
    (\<exists>c ys. xs = c @ ys \<and> P x c \<and> p = length pre + length c)"
  using assms by (simp add: parses_def)

lemma parses_no_panic: "parses m P \<Longrightarrow> fst (m (pre @ xs) (length pre)) \<noteq> Inl Panic"
  by (simp add: parses_def)

named_theorems parses_intros \<open>what a parser accepts\<close>

lemma parses_ret [parses_intros]: "parses (ret x) (\<lambda>y c. y = x \<and> c = [])"
  by (rule parsesI) (auto simp: ret_def)

lemma parses_fail [parses_intros]: "parses (fail_with e) (\<lambda>y c. False)"
  by (rule parsesI) (simp_all add: fail_with_def)

lemma parses_if [parses_intros]:
  "(b \<Longrightarrow> parses m P) \<Longrightarrow> (\<not> b \<Longrightarrow> parses n Q) \<Longrightarrow>
    parses (if b then m else n) (\<lambda>x c. if b then P x c else Q x c)"
  by simp

lemma parses_cong: "parses m P \<Longrightarrow> (\<And>x c. P x c \<longleftrightarrow> Q x c) \<Longrightarrow> parses m Q"
  by (simp add: parses_def)

lemma parses_bind [parses_intros]:
  assumes m: "parses m P" and f: "\<And>x. parses (f x) (Q x)"
  shows "parses (bind_at m f) (\<lambda>y c. \<exists>x c1 c2. c = c1 @ c2 \<and> P x c1 \<and> Q x y c2)"
proof (rule parsesI)
  fix pre xs y p
  have step: "f x (pre @ c @ ys) (length pre + length c) = (Inr y, p) \<longleftrightarrow>
      (\<exists>c2 zs. ys = c2 @ zs \<and> Q x y c2 \<and> p = length pre + length c + length c2)" for x c ys
    using parses_iff [OF f, of x "pre @ c" ys y p] by simp
  show "bind_at m f (pre @ xs) (length pre) = (Inr y, p) \<longleftrightarrow>
      (\<exists>c ys. xs = c @ ys \<and> (\<exists>x c1 c2. c = c1 @ c2 \<and> P x c1 \<and> Q x y c2) \<and> p = length pre + length c)"
    (is "?L \<longleftrightarrow> ?R")
  proof
    assume ?L
    then obtain x q where 1: "m (pre @ xs) (length pre) = (Inr x, q)" and 2: "f x (pre @ xs) q = (Inr y, p)"
      by (auto simp: bind_at_def read_then_Inr_iff)
    from 1 obtain c ys where c: "xs = c @ ys" "P x c" "q = length pre + length c"
      unfolding parses_iff [OF m] by blast
    with 2 step obtain c2 zs where "ys = c2 @ zs" "Q x y c2" "p = length pre + length c + length c2"
      by blast
    with c show ?R by (intro exI [of _ "c @ c2"] exI [of _ zs]) auto
  next
    assume ?R
    then obtain c1 c2 x zs where c: "xs = c1 @ c2 @ zs" "P x c1" "Q x y c2"
      "p = length pre + length c1 + length c2" by auto
    then have "m (pre @ xs) (length pre) = (Inr x, length pre + length c1)"
      unfolding parses_iff [OF m] by blast
    moreover have "f x (pre @ xs) (length pre + length c1) = (Inr y, p)"
      using c step [of x c1 "c2 @ zs"] by blast
    ultimately show ?L by (simp add: bind_at_def read_then_def)
  qed
next
  fix pre xs
  show "fst (bind_at m f (pre @ xs) (length pre)) \<noteq> Inl Panic"
  proof (cases "m (pre @ xs) (length pre)")
    case (Pair r q)
    show ?thesis
    proof (cases r)
      case (Inl e)
      with Pair parses_no_panic [OF m, of pre xs] show ?thesis
        by (simp add: bind_at_def read_then_def)
    next
      case (Inr x)
      with Pair obtain c ys where c: "xs = c @ ys" "q = length pre + length c"
        using parses_iff [OF m, of pre xs x q] by blast
      with Pair Inr parses_no_panic [OF f, of x "pre @ c" ys] show ?thesis
        by (simp add: bind_at_def read_then_def)
    qed
  qed
qed

text \<open>Parsers of values that have one encoding each.\<close>

lemma parses_bind_eq:
  assumes "parses m (\<lambda>x c. W x \<and> c = p x)" and "\<And>x. parses (f x) (\<lambda>y c. V x y \<and> c = q x y)"
  shows "parses (bind_at m f) (\<lambda>y c. \<exists>x. W x \<and> V x y \<and> c = p x @ q x y)"
  by (rule parses_cong [OF parses_bind [OF assms]]) auto

lemma parses_map:
  assumes "parses m (\<lambda>x c. W x \<and> c = p x)"
  shows "parses (bind_at m (\<lambda>x. ret (g x))) (\<lambda>y c. \<exists>x. W x \<and> y = g x \<and> c = p x)"
  by (rule parses_cong [OF parses_bind [OF assms parses_ret]]) auto

lemma parses_bind_rel:
  assumes "parses m (\<lambda>x c. W x \<and> c = p x)" and "\<And>x. parses (f x) (R x)"
  shows "parses (bind_at m f) (\<lambda>y c. \<exists>x c'. W x \<and> c = p x @ c' \<and> R x y c')"
  by (rule parses_cong [OF parses_bind [OF assms]]) auto

text \<open>A field read into the record that is returned: the field is a projection \<open>g\<close> of the result.\<close>

lemma parses_into:
  assumes "parses m (\<lambda>x c. W x \<and> c = p x)" and "\<And>x. parses (f x) (\<lambda>y c. (g y = x \<and> V y) \<and> c = q y)"
  shows "parses (bind_at m f) (\<lambda>y c. (W (g y) \<and> V y) \<and> c = p (g y) @ q y)"
  by (rule parses_cong [OF parses_bind [OF assms]]) auto

lemma parses_ret_iff:
  assumes "\<And>y. y = x \<longleftrightarrow> V y"
  shows "parses (ret x) (\<lambda>y c. V y \<and> c = [])"
  using parses_ret [of x] by (simp add: assms)

context wire_field
begin

lemma parses_field: "parses (field_at e w get) (\<lambda>v c. c = put v)"
proof (rule parsesI)
  fix pre xs x p
  show "field_at e w get (pre @ xs) (length pre) = (Inr x, p) \<longleftrightarrow>
      (\<exists>c ys. xs = c @ ys \<and> c = put x \<and> p = length pre + length c)"
  proof
    assume "field_at e w get (pre @ xs) (length pre) = (Inr x, p)"
    then have "get xs = Inr x" "p = length pre + w"
      by (auto simp: field_at_def slice_from_def split: if_splits sum.splits)
    then show "\<exists>c ys. xs = c @ ys \<and> c = put x \<and> p = length pre + length c"
      unfolding get_Inr_iff using length_put [of x] append_take_drop_id [of w xs] by metis
  next
    assume "\<exists>c ys. xs = c @ ys \<and> c = put x \<and> p = length pre + length c"
    then show "field_at e w get (pre @ xs) (length pre) = (Inr x, p)"
      by (auto simp: field_at_def slice_from_def length_put get_put)
  qed
next
  fix pre xs
  show "fst (field_at e w get (pre @ xs) (length pre)) \<noteq> Inl Panic"
    using get_Panic_iff [of xs] by (auto simp: field_at_def slice_from_def split: sum.splits)
qed

end

lemmas parses_fields [parses_intros] =
  u8.parses_field u16.parses_field u32.parses_field u64.parses_field

end
