(* ===== verification/Message.thy ===== *)
theory Message
  imports Wire
begin

text \<open>
  The message and protocol headers of \<^verbatim>\<open>transport/message\<close> (\<^verbatim>\<open>message.go\<close>, \<^verbatim>\<open>packet.go\<close>):
  marshalling, the checked encoders for outbound packets, unmarshalling with its
  cross-field rules, and the bytes bound by authentication. A nil slice and an empty one are
  the same list; what an error says beyond its sentinel is not modelled.
\<close>

unbundle bit_operations_syntax

section \<open>Message header\<close>

datatype msg_error =
    MsgErrTruncated | ErrUnsupportedVersion | ErrReservedDestSize | ErrUnsupportedSessionType
  | ErrControlMessage | ErrUnicastGroupDestination | ErrGroupSessionHeader | ErrUnsecuredNodeIDs
  | ErrExtensionLength | ErrGroupHeader | ErrEncodeExtensions | ErrEncodeSecuredExtensions

abbreviation DestNone :: byte where "DestNone \<equiv> 0"
abbreviation DestNodeID :: byte where "DestNodeID \<equiv> 1"
abbreviation DestGroup :: byte where "DestGroup \<equiv> 2"
abbreviation SessionUnsecured :: byte where "SessionUnsecured \<equiv> 0"
abbreviation SessionGroup :: byte where "SessionGroup \<equiv> 1"

record header =
  h_SessionID :: u16
  h_MessageCounter :: u32
  h_HasSourceNodeID :: bool
  h_SourceNodeID :: u64
  h_DestSize :: byte
  h_DestNodeID :: u64
  h_DestGroupID :: u16
  h_SessionType :: byte
  h_Privacy :: bool
  h_Control :: bool
  h_HasExtension :: bool
  h_MessageExtension :: bytes
  h_Raw :: bytes

definition appendExtension :: "bytes \<Rightarrow> bytes \<Rightarrow> bytes" where
  "appendExtension buf ext = buf @ put_u16 (word_of_nat (length ext)) @ ext"

definition readExtension :: "bytes \<Rightarrow> (msg_error, bytes \<times> nat) go" where
  "readExtension buf =
     (if length buf < 2 then Inl (Fail MsgErrTruncated)
      else and_then (get_u16 buf) (\<lambda>w.
        let n = unat w in
        if n > length buf - 2 then Inl (Fail ErrExtensionLength)
        else if n = 0 then Inr ([], 2)
        else and_then (slice buf 2 (2 + n)) (\<lambda>ext. Inr (ext, 2 + n))))"

definition SecurityFlags :: "header \<Rightarrow> byte" where
  "SecurityFlags h =
     (h_SessionType h AND 0x03) OR (if h_Privacy h then 0x80 else 0)
       OR (if h_Control h then 0x40 else 0) OR (if h_HasExtension h then 0x20 else 0)"

definition message_flags :: "header \<Rightarrow> byte" where
  "message_flags h = (if h_HasSourceNodeID h then 0x04 else 0) OR (h_DestSize h AND 0x03)"

definition node_id_bytes :: "header \<Rightarrow> bytes" where
  "node_id_bytes h =
     (if h_HasSourceNodeID h then put_u64 (h_SourceNodeID h) else []) @
     (if h_DestSize h = DestNone then []
      else if h_DestSize h = DestNodeID then put_u64 (h_DestNodeID h)
      else if h_DestSize h = DestGroup then put_u16 (h_DestGroupID h)
      else [])"

definition Header_Marshal :: "header \<Rightarrow> bytes" where
  "Header_Marshal h =
     (let buf = [message_flags h] @ put_u16 (h_SessionID h) @ [SecurityFlags h]
                @ put_u32 (h_MessageCounter h) @ node_id_bytes h
      in if h_HasExtension h then appendExtension buf (h_MessageExtension h) else buf)"

definition NonceSecurityFlags :: "header \<Rightarrow> (msg_error, byte) go" where
  "NonceSecurityFlags h =
     (if length (h_Raw h) > 3 then index (h_Raw h) 3 else Inr (SecurityFlags h))"

definition AAD :: "header \<Rightarrow> bytes" where
  "AAD h = (if length (h_Raw h) > 0 then h_Raw h else Header_Marshal h)"

text \<open>The rules on the fixed part of the header, checked before any variable field is read.\<close>

definition check_fixed :: "header \<Rightarrow> byte \<Rightarrow> (msg_error, unit) go" where
  "check_fixed h secFlags =
     (if h_SessionType h \<noteq> SessionUnsecured \<and> h_SessionType h \<noteq> SessionGroup then
        Inl (Fail ErrUnsupportedSessionType)
      else if secFlags AND 0x40 \<noteq> 0 then Inl (Fail ErrControlMessage)
      else if h_SessionType h = SessionUnsecured \<and> h_DestSize h = DestGroup then
        Inl (Fail ErrUnicastGroupDestination)
      else if h_SessionType h = SessionUnsecured \<and> h_SessionID h = 0
              \<and> h_HasSourceNodeID h = (h_DestSize h = DestNodeID) then
        Inl (Fail ErrUnsecuredNodeIDs)
      else if h_SessionType h = SessionGroup \<and> h_DestSize h \<noteq> DestGroup then
        Inl (Fail ErrGroupSessionHeader)
      else if h_SessionType h = SessionGroup \<and> \<not> h_HasSourceNodeID h then
        Inl (Fail ErrGroupSessionHeader)
      else Inr ())"

definition read_source :: "header \<Rightarrow> (msg_error, u64) parser" where
  "read_source h = (if h_HasSourceNodeID h then field_at MsgErrTruncated 8 get_u64 else ret 0)"

definition read_dest :: "header \<Rightarrow> (msg_error, u64 \<times> u16) parser" where
  "read_dest h =
     (if h_DestSize h = DestNone then ret (0, 0)
      else if h_DestSize h = DestNodeID then
        bind_at (field_at MsgErrTruncated 8 get_u64) (\<lambda>v. ret (v, 0))
      else if h_DestSize h = DestGroup then
        bind_at (field_at MsgErrTruncated 2 get_u16) (\<lambda>v. ret (0, v))
      else fail_with ErrReservedDestSize)"

text \<open>\<open>readExtension(buf[pos:])\<close>, then \<open>pos += n\<close>.\<close>

definition extension_at :: "(msg_error, bytes) parser" where
  "extension_at buf pos = (case and_then (slice_from buf pos) readExtension of
      Inl f \<Rightarrow> (Inl f, pos)
    | Inr (ext, n) \<Rightarrow> (Inr ext, pos + n))"

definition read_extension :: "bool \<Rightarrow> (msg_error, bytes) parser" where
  "read_extension present = (if present then extension_at else ret [])"

text \<open>The fields after the fixed part; those a flag does not announce keep their zero value.\<close>

definition read_variable :: "header \<Rightarrow> (msg_error, header) parser" where
  "read_variable h =
     bind_at (read_source h) (\<lambda>s.
     bind_at (read_dest h) (\<lambda>(d, g).
     bind_at (read_extension (h_HasExtension h)) (\<lambda>x.
     ret (h\<lparr>h_SourceNodeID := s, h_DestNodeID := d, h_DestGroupID := g, h_MessageExtension := x\<rparr>))))"

definition fixed_header :: "byte \<Rightarrow> u16 \<Rightarrow> byte \<Rightarrow> u32 \<Rightarrow> header" where
  "fixed_header flags sid secFlags ctr =
     \<lparr>h_SessionID = sid, h_MessageCounter = ctr, h_HasSourceNodeID = (flags AND 0x04 \<noteq> 0),
      h_SourceNodeID = 0, h_DestSize = flags AND 0x03, h_DestNodeID = 0, h_DestGroupID = 0,
      h_SessionType = secFlags AND 0x03, h_Privacy = (secFlags AND 0x80 \<noteq> 0), h_Control = False,
      h_HasExtension = (secFlags AND 0x20 \<noteq> 0), h_MessageExtension = [], h_Raw = []\<rparr>"

definition UnmarshalHeader :: "bytes \<Rightarrow> (msg_error, header \<times> nat) go" where
  "UnmarshalHeader buf =
     (if length buf < 8 then Inl (Fail MsgErrTruncated)
      else and_then (index buf 0) (\<lambda>flags.
        if flags AND 0xF0 \<noteq> 0 then Inl (Fail ErrUnsupportedVersion)
        else and_then (and_then (slice_from buf 1) get_u16) (\<lambda>sid.
          and_then (and_then (slice_from buf 4) get_u32) (\<lambda>ctr.
          and_then (index buf 3) (\<lambda>secFlags.
          let h = fixed_header flags sid secFlags ctr in
          and_then (check_fixed h secFlags) (\<lambda>_.
          case read_variable h buf 8 of
            (Inl f, _) \<Rightarrow> Inl f
          | (Inr h', pos) \<Rightarrow>
              and_then (slice buf 0 pos) (\<lambda>raw. Inr (h'\<lparr>h_Raw := raw\<rparr>, pos))))))))"

definition MarshalPacket :: "header \<Rightarrow> (msg_error, bytes) go" where
  "MarshalPacket h =
     (if h_DestSize h > DestGroup then Inl (Fail ErrReservedDestSize)
      else if h_HasExtension h \<or> length (h_MessageExtension h) > 0 then
        Inl (Fail ErrEncodeExtensions)
      else if h_SessionType h = SessionGroup \<and> (h_DestSize h \<noteq> DestGroup \<or> \<not> h_HasSourceNodeID h) then
        Inl (Fail ErrGroupHeader)
      else if h_SessionType h = SessionUnsecured \<and> h_DestSize h = DestGroup then
        Inl (Fail ErrUnicastGroupDestination)
      else Inr (Header_Marshal h))"

section \<open>Protocol header\<close>

record protocol_header =
  p_Initiator :: bool
  p_NeedsAck :: bool
  p_HasAck :: bool
  p_HasSecuredExt :: bool
  p_HasVendorID :: bool
  p_Opcode :: byte
  p_ExchangeID :: u16
  p_ProtocolID :: u16
  p_VendorID :: u16
  p_AckCounter :: u32
  p_SecuredExtension :: bytes

definition exchange_flags :: "protocol_header \<Rightarrow> byte" where
  "exchange_flags h =
     (if p_Initiator h then 0x01 else 0) OR (if p_HasAck h then 0x02 else 0)
       OR (if p_NeedsAck h then 0x04 else 0) OR (if p_HasSecuredExt h then 0x08 else 0)
       OR (if p_HasVendorID h then 0x10 else 0)"

definition ProtocolHeader_Marshal :: "protocol_header \<Rightarrow> bytes" where
  "ProtocolHeader_Marshal h =
     (let buf = [exchange_flags h, p_Opcode h] @ put_u16 (p_ExchangeID h)
          @ (if p_HasVendorID h then put_u16 (p_VendorID h) else [])
          @ put_u16 (p_ProtocolID h)
          @ (if p_HasAck h then put_u32 (p_AckCounter h) else [])
      in if p_HasSecuredExt h then appendExtension buf (p_SecuredExtension h) else buf)"

definition read_if :: "bool \<Rightarrow> nat \<Rightarrow> (bytes \<Rightarrow> (msg_error, 'a::zero) go) \<Rightarrow> (msg_error, 'a) parser" where
  "read_if present n get = (if present then field_at MsgErrTruncated n get else ret 0)"

definition read_protocol_fields :: "protocol_header \<Rightarrow> (msg_error, protocol_header) parser" where
  "read_protocol_fields h =
     bind_at (read_if (p_HasVendorID h) 2 get_u16) (\<lambda>vendor.
     bind_at (field_at MsgErrTruncated 2 get_u16) (\<lambda>proto.
     bind_at (read_if (p_HasAck h) 4 get_u32) (\<lambda>ack.
     bind_at (read_extension (p_HasSecuredExt h)) (\<lambda>ext.
     ret (h\<lparr>p_ProtocolID := proto, p_VendorID := vendor, p_AckCounter := ack,
             p_SecuredExtension := ext\<rparr>)))))"

definition fixed_protocol_header :: "byte \<Rightarrow> byte \<Rightarrow> u16 \<Rightarrow> protocol_header" where
  "fixed_protocol_header flags opcode exch =
     \<lparr>p_Initiator = (flags AND 0x01 \<noteq> 0), p_NeedsAck = (flags AND 0x04 \<noteq> 0),
      p_HasAck = (flags AND 0x02 \<noteq> 0), p_HasSecuredExt = (flags AND 0x08 \<noteq> 0),
      p_HasVendorID = (flags AND 0x10 \<noteq> 0), p_Opcode = opcode, p_ExchangeID = exch,
      p_ProtocolID = 0, p_VendorID = 0, p_AckCounter = 0, p_SecuredExtension = []\<rparr>"

definition UnmarshalProtocolHeader :: "bytes \<Rightarrow> (msg_error, protocol_header \<times> nat) go" where
  "UnmarshalProtocolHeader buf =
     (if length buf < 4 then Inl (Fail MsgErrTruncated)
      else and_then (index buf 0) (\<lambda>flags. and_then (index buf 1) (\<lambda>opcode.
        and_then (and_then (slice_from buf 2) get_u16) (\<lambda>exch.
        let h = fixed_protocol_header flags opcode exch in
        case read_protocol_fields h buf 4 of
          (Inl f, _) \<Rightarrow> Inl f
        | (Inr h', pos) \<Rightarrow> Inr (h', pos)))))"

definition MarshalPayload :: "protocol_header \<Rightarrow> (msg_error, bytes) go" where
  "MarshalPayload h =
     (if p_HasSecuredExt h \<or> length (p_SecuredExtension h) > 0 then Inl (Fail ErrEncodeSecuredExtensions)
      else Inr (ProtocolHeader_Marshal h))"

end
