(* ===== verification/Message_Theorems.thy ===== *)
theory Message_Theorems
  imports Message
begin

text \<open>
  The header codecs are exact: a buffer decodes to a header iff its prefix, with the reserved
  bits cleared, is the encoding of that well-formed header. Round trips, the absence of
  panics and the agreement of both ends on the authenticated bytes follow.
\<close>

unbundle bit_operations_syntax

section \<open>Extensions\<close>

definition ext_chunk :: "bytes \<Rightarrow> bytes" where
  "ext_chunk ext = put_u16 (word_of_nat (length ext)) @ ext"

lemma readExtension_Inr:
  "readExtension xs = Inr (ext, n) \<longleftrightarrow>
     length ext < 2 ^ 16 \<and> n = length (ext_chunk ext) \<and> (\<exists>ys. xs = ext_chunk ext @ ys)"
proof
  assume r: "readExtension xs = Inr (ext, n)"
  then have l: "2 \<le> length xs" by (auto simp: readExtension_def split: if_splits)
  then obtain w where w: "get_u16 xs = (Inr w :: (msg_error, u16) go)" "put_u16 w = take 2 xs"
    using u16.get_long by blast
  have u: "unat w < 2 ^ 16" by (rule unat_bounds)
  have e: "ext = take (unat w) (drop 2 xs)" "n = 2 + unat w" "unat w \<le> length xs - 2"
    using r l w by (auto simp: readExtension_def slice_def Let_def split: if_splits)
  then have len: "length ext = unat w" using l by simp
  have "xs = take 2 xs @ ext @ drop (unat w) (drop 2 xs)" by (simp only: e(1) append_take_drop_id)
  then have "xs = ext_chunk ext @ drop (unat w) (drop 2 xs)"
    by (simp add: ext_chunk_def len w(2) [symmetric])
  with e(2) u len show "length ext < 2 ^ 16 \<and> n = length (ext_chunk ext) \<and> (\<exists>ys. xs = ext_chunk ext @ ys)"
    by (auto simp: ext_chunk_def)
next
  assume a: "length ext < 2 ^ 16 \<and> n = length (ext_chunk ext) \<and> (\<exists>ys. xs = ext_chunk ext @ ys)"
  then obtain ys where xs: "xs = put_u16 (word_of_nat (length ext)) @ ext @ ys" by (auto simp: ext_chunk_def)
  have u: "unat (word_of_nat (length ext) :: u16) = length ext"
    using a by (simp add: unat_of_nat)
  show "readExtension xs = Inr (ext, n)"
    using a u by (simp add: readExtension_def xs slice_def Let_def ext_chunk_def)
qed

lemma readExtension_no_panic: "readExtension xs \<noteq> Inl Panic"
  by (auto simp: readExtension_def slice_def Let_def and_then_Panic_iff u16.get_Panic_iff)

lemma parses_extension [parses_intros]:
  "parses extension_at (\<lambda>ext c. c = ext_chunk ext \<and> length ext < 2 ^ 16)"
proof (rule parsesI)
  show "extension_at (pre @ xs) (length pre) = (Inr x, p) \<longleftrightarrow>
      (\<exists>c ys. xs = c @ ys \<and> (c = ext_chunk x \<and> length x < 2 ^ 16) \<and> p = length pre + length c)" for pre xs x p
  proof -
    have "extension_at (pre @ xs) (length pre) = (Inr x, p) \<longleftrightarrow>
        (\<exists>n. readExtension xs = Inr (x, n) \<and> p = length pre + n)"
      by (auto simp: extension_at_def slice_from_def split: sum.splits)
    then show ?thesis unfolding readExtension_Inr by auto
  qed
  show "fst (extension_at (pre @ xs) (length pre)) \<noteq> Inl Panic" for pre xs
    using readExtension_no_panic [of xs]
    by (auto simp: extension_at_def slice_from_def split: sum.splits)
qed

section \<open>Message header\<close>

definition var_bytes :: "header \<Rightarrow> bytes" where
  "var_bytes h = node_id_bytes h @ (if h_HasExtension h then ext_chunk (h_MessageExtension h) else [])"

lemma Header_Marshal_eq:
  "Header_Marshal h = message_flags h # put_u16 (h_SessionID h) @ SecurityFlags h
     # put_u32 (h_MessageCounter h) @ var_bytes h"
  by (simp add: Header_Marshal_def var_bytes_def ext_chunk_def appendExtension_def Let_def)

text \<open>The variable fields: those a flag announces, at their width, the others zero.\<close>

definition wf_variable :: "header \<Rightarrow> bool" where
  "wf_variable h \<longleftrightarrow>
     (\<not> h_HasSourceNodeID h \<longrightarrow> h_SourceNodeID h = 0)
   \<and> (h_DestSize h \<noteq> DestNodeID \<longrightarrow> h_DestNodeID h = 0)
   \<and> (h_DestSize h \<noteq> DestGroup \<longrightarrow> h_DestGroupID h = 0)
   \<and> h_DestSize h \<in> {DestNone, DestNodeID, DestGroup}
   \<and> (if h_HasExtension h then length (h_MessageExtension h) < 2 ^ 16 else h_MessageExtension h = [])"

text \<open>Which node ids a header carries: a group message both a source and a group, an
  unsecured message exactly one of source and destination.\<close>

definition session_rule :: "header \<Rightarrow> bool" where
  "session_rule h \<longleftrightarrow>
     (h_SessionType h = SessionGroup \<longrightarrow> h_DestSize h = DestGroup \<and> h_HasSourceNodeID h)
   \<and> (h_SessionType h \<noteq> SessionGroup \<longrightarrow> h_SessionType h = SessionUnsecured \<and> h_DestSize h \<noteq> DestGroup
        \<and> (h_SessionID h = 0 \<longrightarrow> h_HasSourceNodeID h \<noteq> (h_DestSize h = DestNodeID)))"

text \<open>A header as \<open>UnmarshalHeader\<close> may return it.\<close>

definition wf_header :: "header \<Rightarrow> bool" where
  "wf_header h \<longleftrightarrow> wf_variable h \<and> \<not> h_Control h \<and> session_rule h"

lemma parses_source:
  "parses (read_source h) (\<lambda>v c. (\<not> h_HasSourceNodeID h \<longrightarrow> v = 0) \<and>
     c = (if h_HasSourceNodeID h then put_u64 v else []))"
  unfolding read_source_def
  by (cases "h_HasSourceNodeID h") (auto intro: parses_cong [OF parses_ret] parses_cong [OF u64.parses_field])

lemma parses_dest:
  "parses (read_dest h) (\<lambda>v c. (h_DestSize h \<in> {DestNone, DestNodeID, DestGroup} \<and>
      (h_DestSize h \<noteq> DestNodeID \<longrightarrow> fst v = 0) \<and> (h_DestSize h \<noteq> DestGroup \<longrightarrow> snd v = 0)) \<and>
     c = (if h_DestSize h = DestNodeID then put_u64 (fst v)
          else if h_DestSize h = DestGroup then put_u16 (snd v) else []))"
proof -
  have 1: "parses (bind_at (field_at MsgErrTruncated 8 get_u64) (\<lambda>v. ret (v, 0 :: u16)))
      (\<lambda>y c. \<exists>v. True \<and> y = (v, 0) \<and> c = put_u64 v)"
    by (rule parses_map) (simp add: u64.parses_field)
  have 2: "parses (bind_at (field_at MsgErrTruncated 2 get_u16) (\<lambda>v. ret (0 :: u64, v)))
      (\<lambda>y c. \<exists>v. True \<and> y = (0, v) \<and> c = put_u16 v)"
    by (rule parses_map) (simp add: u16.parses_field)
  consider "h_DestSize h = DestNone" | "h_DestSize h = DestNodeID" | "h_DestSize h = DestGroup"
    | "h_DestSize h \<notin> {DestNone, DestNodeID, DestGroup}" by blast
  then show ?thesis
    by cases (auto simp: read_dest_def intro: parses_cong [OF parses_ret] parses_cong [OF parses_fail]
        parses_cong [OF 1] parses_cong [OF 2])
qed

lemma parses_read_extension:
  "parses (read_extension present) (\<lambda>x c. (if present then length x < 2 ^ 16 else x = []) \<and>
     c = (if present then ext_chunk x else []))"
  unfolding read_extension_def
  by (cases present) (auto intro: parses_cong [OF parses_ret] parses_cong [OF parses_extension])

definition with_variable :: "header \<Rightarrow> u64 \<Rightarrow> u64 \<Rightarrow> u16 \<Rightarrow> bytes \<Rightarrow> header" where
  "with_variable h s d g x =
     h\<lparr>h_SourceNodeID := s, h_DestNodeID := d, h_DestGroupID := g, h_MessageExtension := x\<rparr>"

lemma with_variable_iff:
  "y = with_variable h s d g x \<longleftrightarrow> h_MessageExtension y = x \<and> (h_DestNodeID y, h_DestGroupID y) = (d, g)
     \<and> h_SourceNodeID y = s \<and> (\<exists>s d g x. y = with_variable h s d g x)"
  by (auto simp: with_variable_def)

lemma with_variable_sel:
  "h_HasSourceNodeID (with_variable h s d g x) = h_HasSourceNodeID h"
  "h_DestSize (with_variable h s d g x) = h_DestSize h" "h_HasExtension (with_variable h s d g x) = h_HasExtension h"
  by (simp_all add: with_variable_def)

lemma parses_variable:
  "parses (read_variable h)
    (\<lambda>y c. \<exists>s d g x. y = with_variable h s d g x \<and> wf_variable y \<and> c = var_bytes y)"
proof -
  let ?v = "\<lambda>y. \<exists>s d g x. y = with_variable h s d g x"
  have 0: "parses (ret (with_variable h s (fst v) (snd v) x)) (\<lambda>y c. (h_MessageExtension y = x \<and>
      (h_DestNodeID y, h_DestGroupID y) = v \<and> h_SourceNodeID y = s \<and> ?v y) \<and> c = [])" for s v x
    by (rule parses_ret_iff) (subst with_variable_iff, simp)
  have 1: "parses (bind_at (read_extension (h_HasExtension h)) (\<lambda>x. ret (with_variable h s (fst v) (snd v) x)))
      (\<lambda>y c. ((h_DestNodeID y, h_DestGroupID y) = v \<and> h_SourceNodeID y = s \<and> ?v y \<and>
         (if h_HasExtension h then length (h_MessageExtension y) < 2 ^ 16 else h_MessageExtension y = []))
         \<and> c = (if h_HasExtension h then ext_chunk (h_MessageExtension y) else []))" for s v
    by (rule parses_cong [OF parses_into [OF parses_read_extension 0]]) auto
  have 2: "parses (bind_at (read_dest h) (\<lambda>v. bind_at (read_extension (h_HasExtension h))
      (\<lambda>x. ret (with_variable h s (fst v) (snd v) x))))
      (\<lambda>y c. (h_SourceNodeID y = s \<and> ?v y \<and> h_DestSize h \<in> {DestNone, DestNodeID, DestGroup} \<and>
         (h_DestSize h \<noteq> DestNodeID \<longrightarrow> h_DestNodeID y = 0) \<and> (h_DestSize h \<noteq> DestGroup \<longrightarrow> h_DestGroupID y = 0) \<and>
         (if h_HasExtension h then length (h_MessageExtension y) < 2 ^ 16 else h_MessageExtension y = []))
         \<and> c = (if h_DestSize h = DestNodeID then put_u64 (h_DestNodeID y)
              else if h_DestSize h = DestGroup then put_u16 (h_DestGroupID y) else [])
            @ (if h_HasExtension h then ext_chunk (h_MessageExtension y) else []))" for s
    by (rule parses_cong [OF parses_into [OF parses_dest 1]]) auto
  have "parses (read_variable h) (\<lambda>y c. ((\<not> h_HasSourceNodeID h \<longrightarrow> h_SourceNodeID y = 0) \<and> ?v y \<and>
         h_DestSize h \<in> {DestNone, DestNodeID, DestGroup} \<and>
         (h_DestSize h \<noteq> DestNodeID \<longrightarrow> h_DestNodeID y = 0) \<and> (h_DestSize h \<noteq> DestGroup \<longrightarrow> h_DestGroupID y = 0) \<and>
         (if h_HasExtension h then length (h_MessageExtension y) < 2 ^ 16 else h_MessageExtension y = []))
         \<and> c = (if h_HasSourceNodeID h then put_u64 (h_SourceNodeID y) else []) @
            (if h_DestSize h = DestNodeID then put_u64 (h_DestNodeID y)
              else if h_DestSize h = DestGroup then put_u16 (h_DestGroupID y) else [])
            @ (if h_HasExtension h then ext_chunk (h_MessageExtension y) else []))"
    unfolding read_variable_def case_prod_unfold with_variable_def [symmetric]
    by (rule parses_into [OF parses_source 2])
  then show ?thesis
  proof (rule parses_cong, goal_cases)
    case (1 y c)
    show ?case
    proof (cases "?v y")
      case True
      then have e: "h_HasSourceNodeID h = h_HasSourceNodeID y" "h_DestSize h = h_DestSize y"
        "h_HasExtension h = h_HasExtension y" using with_variable_sel by auto
      have b: "var_bytes y = (if h_HasSourceNodeID y then put_u64 (h_SourceNodeID y) else []) @
          (if h_DestSize y = DestNodeID then put_u64 (h_DestNodeID y)
           else if h_DestSize y = DestGroup then put_u16 (h_DestGroupID y) else [])
          @ (if h_HasExtension y then ext_chunk (h_MessageExtension y) else [])"
        by (simp add: var_bytes_def node_id_bytes_def)
      have "(\<exists>s d g x. y = with_variable h s d g x \<and> wf_variable y \<and> c = var_bytes y) \<longleftrightarrow>
          wf_variable y \<and> c = var_bytes y" using True by blast
      with True show ?thesis unfolding e b wf_variable_def by blast
    qed blast
  qed
qed

definition fixed_part :: "byte \<Rightarrow> u16 \<Rightarrow> byte \<Rightarrow> u32 \<Rightarrow> bytes" where
  "fixed_part fl sid sec ctr = fl # put_u16 sid @ sec # put_u32 ctr"

lemma length_fixed_part [simp]: "length (fixed_part fl sid sec ctr) = 8"
  by (simp add: fixed_part_def)

lemma fixed_part_reads:
  "index (fixed_part fl sid sec ctr @ xs) 0 = Inr fl"
  "index (fixed_part fl sid sec ctr @ xs) 3 = Inr sec"
  "and_then (slice_from (fixed_part fl sid sec ctr @ xs) (Suc 0)) get_u16 = Inr sid"
  "and_then (slice_from (fixed_part fl sid sec ctr @ xs) 4) get_u32 = Inr ctr"
  by (simp_all add: fixed_part_def index_def slice_from_def nth_append nth_Cons')

lemma buffer_split:
  assumes "8 \<le> length buf"
  obtains fl sid sec ctr xs where "buf = fixed_part fl sid sec ctr @ xs"
proof -
  obtain fl b1 where b1: "buf = fl # b1" using assms by (cases buf) auto
  obtain sid where sid: "put_u16 sid = take 2 b1"
    using u16.get_long [of b1] assms b1 by auto
  obtain sec b2 where b2: "drop 2 b1 = sec # b2" using assms b1 by (cases "drop 2 b1") auto
  have "length b2 = length b1 - 3" using arg_cong [OF b2, of length] by simp
  then have "4 \<le> length b2" using assms b1 by simp
  then obtain ctr where ctr: "put_u32 ctr = take 4 b2"
    using u32.get_long by blast
  have "buf = fixed_part fl sid sec ctr @ drop 4 b2"
    using b1 b2 append_take_drop_id [of 2 b1] append_take_drop_id [of 4 b2]
    by (simp add: fixed_part_def sid ctr)
  then show thesis by (rule that)
qed

lemma UnmarshalHeader_fixed:
  "UnmarshalHeader (fixed_part fl sid sec ctr @ xs) = Inr (h, n) \<longleftrightarrow>
     fl AND 0xF0 = 0 \<and> check_fixed (fixed_header fl sid sec ctr) sec = Inr () \<and>
     (\<exists>s d g x ys. let h' = with_variable (fixed_header fl sid sec ctr) s d g x in
        wf_variable h' \<and> xs = var_bytes h' @ ys \<and> n = 8 + length (var_bytes h')
        \<and> h = h'\<lparr>h_Raw := fixed_part fl sid sec ctr @ var_bytes h'\<rparr>)"
  (is "?L \<longleftrightarrow> ?C \<and> ?K \<and> ?R")
proof -
  let ?b = "fixed_part fl sid sec ctr" and ?h = "fixed_header fl sid sec ctr"
  have "?L \<longleftrightarrow> ?C \<and> ?K \<and> (\<exists>h'. read_variable ?h (?b @ xs) 8 = (Inr h', n) \<and>
      and_then (slice (?b @ xs) 0 n) (\<lambda>raw. Inr (h'\<lparr>h_Raw := raw\<rparr>, n)) = (Inr (h, n) :: (msg_error, header \<times> nat) go))"
    by (cases "read_variable ?h (?b @ xs) 8"; cases "fst (read_variable ?h (?b @ xs) 8)")
      (auto simp: UnmarshalHeader_def fixed_part_reads Let_def and_then_Inr_iff)
  also have "\<dots> \<longleftrightarrow> ?C \<and> ?K \<and> (\<exists>h' ys. (\<exists>s d g x. h' = with_variable ?h s d g x) \<and> wf_variable h' \<and>
      xs = var_bytes h' @ ys \<and> n = 8 + length (var_bytes h') \<and> h = h'\<lparr>h_Raw := ?b @ var_bytes h'\<rparr>)"
  proof (intro conj_cong refl ex_cong1)
    fix h'
    have "read_variable ?h (?b @ xs) 8 = (Inr h', n) \<longleftrightarrow> (\<exists>s d g x. h' = with_variable ?h s d g x) \<and>
        wf_variable h' \<and> (\<exists>ys. xs = var_bytes h' @ ys) \<and> n = 8 + length (var_bytes h')"
      using parses_iff [OF parses_variable [of ?h], of ?b xs h' n] by auto
    moreover have "and_then (slice (?b @ xs) 0 n) (\<lambda>raw. Inr (h'\<lparr>h_Raw := raw\<rparr>, n)) =
        (Inr (h, n) :: (msg_error, header \<times> nat) go) \<longleftrightarrow> h = h'\<lparr>h_Raw := ?b @ var_bytes h'\<rparr>"
      if "xs = var_bytes h' @ ys" "n = 8 + length (var_bytes h')" for ys
      using that by (auto simp: slice_def)
    ultimately show "read_variable ?h (?b @ xs) 8 = (Inr h', n) \<and>
        and_then (slice (?b @ xs) 0 n) (\<lambda>raw. Inr (h'\<lparr>h_Raw := raw\<rparr>, n)) = (Inr (h, n) :: (msg_error, header \<times> nat) go)
      \<longleftrightarrow> (\<exists>ys. (\<exists>s d g x. h' = with_variable ?h s d g x) \<and> wf_variable h' \<and>
        xs = var_bytes h' @ ys \<and> n = 8 + length (var_bytes h') \<and> h = h'\<lparr>h_Raw := ?b @ var_bytes h'\<rparr>)"
      by blast
  qed
  also have "\<dots> \<longleftrightarrow> ?C \<and> ?K \<and> ?R" unfolding Let_def by blast
  finally show ?thesis .
qed

text \<open>The two flag bytes with their reserved bits cleared.\<close>

definition clear_reserved :: "bytes \<Rightarrow> bytes" where
  "clear_reserved b = b[0 := b ! 0 AND 0xF7, 3 := b ! 3 AND 0xE3]"

lemma clear_reserved_fixed:
  "clear_reserved (fixed_part fl sid sec ctr @ xs) = fixed_part (fl AND 0xF7) sid (sec AND 0xE3) ctr @ xs"
  by (simp add: clear_reserved_def fixed_part_def nth_append nth_Cons' list_update_append list_update.simps
      numeral_3_eq_3)

lemma length_clear_reserved [simp]: "length (clear_reserved b) = length b"
  by (simp add: clear_reserved_def)

lemma fixed_part_inject [simp]:
  "fixed_part fl sid sec ctr @ xs = fixed_part fl' sid' sec' ctr' @ ys \<longleftrightarrow>
     fl = fl' \<and> sid = sid' \<and> sec = sec' \<and> ctr = ctr' \<and> xs = ys"
  by (auto simp: fixed_part_def)

lemma Header_Marshal_fixed:
  "Header_Marshal h = fixed_part (message_flags h) (h_SessionID h) (SecurityFlags h) (h_MessageCounter h) @ var_bytes h"
  by (simp add: Header_Marshal_eq fixed_part_def)

lemma message_flags_iff:
  assumes "h_DestSize h \<in> {DestNone, DestNodeID, DestGroup}"
  shows "fl AND 0xF7 = message_flags h \<longleftrightarrow>
    fl AND 0xF0 = 0 \<and> h_HasSourceNodeID h = (fl AND 0x04 \<noteq> 0) \<and> h_DestSize h = fl AND 0x03"
  using assms by (auto simp: message_flags_def byte_bits)

lemma SecurityFlags_iff:
  assumes "h_SessionType h \<in> {SessionUnsecured, SessionGroup}"
  shows "sec AND 0xE3 = SecurityFlags h \<longleftrightarrow>
    h_SessionType h = sec AND 0x03 \<and> h_Privacy h = (sec AND 0x80 \<noteq> 0) \<and>
    h_Control h = (sec AND 0x40 \<noteq> 0) \<and> h_HasExtension h = (sec AND 0x20 \<noteq> 0)"
  using assms by (auto simp: SecurityFlags_def byte_bits)

lemma check_fixed_iff:
  "check_fixed h sec = Inr () \<longleftrightarrow> sec AND 0x40 = 0 \<and> session_rule h"
  by (auto simp: check_fixed_def session_rule_def)

lemma header_eqI:
  assumes "h_SessionID h = sid" "h_MessageCounter h = ctr" "h_HasSourceNodeID h = (fl AND 0x04 \<noteq> 0)"
    "h_DestSize h = fl AND 0x03" "h_SessionType h = sec AND 0x03" "h_Privacy h = (sec AND 0x80 \<noteq> 0)"
    "\<not> h_Control h" "h_HasExtension h = (sec AND 0x20 \<noteq> 0)"
  shows "h = (with_variable (fixed_header fl sid sec ctr) (h_SourceNodeID h) (h_DestNodeID h)
      (h_DestGroupID h) (h_MessageExtension h))\<lparr>h_Raw := h_Raw h\<rparr>"
  using assms by (simp add: with_variable_def fixed_header_def)

lemma Raw_update [simp]:
  "wf_variable (h\<lparr>h_Raw := r\<rparr>) = wf_variable h" "var_bytes (h\<lparr>h_Raw := r\<rparr>) = var_bytes h"
  "wf_header (h\<lparr>h_Raw := r\<rparr>) = wf_header h" "Header_Marshal (h\<lparr>h_Raw := r\<rparr>) = Header_Marshal h"
  "SecurityFlags (h\<lparr>h_Raw := r\<rparr>) = SecurityFlags h"
  by (simp_all add: wf_variable_def var_bytes_def node_id_bytes_def wf_header_def session_rule_def Header_Marshal_def
      message_flags_def SecurityFlags_def Let_def)

lemma UnmarshalHeader_forward:
  assumes "UnmarshalHeader (fixed_part fl sid sec ctr @ xs) = Inr (h, n)"
  shows "wf_header h \<and> (\<exists>ys. xs = var_bytes h @ ys) \<and> n = 8 + length (var_bytes h) \<and>
    h_Raw h = fixed_part fl sid sec ctr @ var_bytes h \<and>
    fl AND 0xF7 = message_flags h \<and> sid = h_SessionID h \<and> sec AND 0xE3 = SecurityFlags h \<and> ctr = h_MessageCounter h"
proof -
  from assms obtain s d g x ys h' where h': "h' = with_variable (fixed_header fl sid sec ctr) s d g x"
    and v: "fl AND 0xF0 = 0" "check_fixed (fixed_header fl sid sec ctr) sec = Inr ()" "wf_variable h'"
      "xs = var_bytes h' @ ys" "n = 8 + length (var_bytes h')" "h = h'\<lparr>h_Raw := fixed_part fl sid sec ctr @ var_bytes h'\<rparr>"
    unfolding UnmarshalHeader_fixed Let_def by blast
  have f: "h_SessionType h' = sec AND 0x03" "h_DestSize h' = fl AND 0x03" "h_HasSourceNodeID h' = (fl AND 0x04 \<noteq> 0)"
    "\<not> h_Control h'" "h_SessionID h' = sid" "h_MessageCounter h' = ctr"
    "h_Privacy h' = (sec AND 0x80 \<noteq> 0)" "h_HasExtension h' = (sec AND 0x20 \<noteq> 0)"
    by (simp_all add: h' with_variable_def fixed_header_def)
  have k: "sec AND 0x40 = 0" "session_rule h'"
    using v(2) unfolding check_fixed_iff by (simp_all add: h' with_variable_def fixed_header_def session_rule_def)
  have w: "wf_header h'" using v(3) k(2) f(4) by (simp add: wf_header_def)
  have "h_DestSize h' \<in> {DestNone, DestNodeID, DestGroup}" using v(3) unfolding wf_variable_def by blast
  then have m: "fl AND 0xF7 = message_flags h'" using message_flags_iff v(1) f by blast
  have "h_SessionType h' \<in> {SessionUnsecured, SessionGroup}" using k(2) by (auto simp: session_rule_def)
  then have "sec AND 0xE3 = SecurityFlags h'" using SecurityFlags_iff k(1) f by blast
  with m w v f show ?thesis by (simp add: message_flags_def)
qed

lemma UnmarshalHeader_backward:
  assumes "wf_header h" "fl AND 0xF7 = message_flags h" "sec AND 0xE3 = SecurityFlags h"
    and raw: "h_Raw h = fixed_part fl (h_SessionID h) sec (h_MessageCounter h) @ var_bytes h"
  shows "UnmarshalHeader (fixed_part fl (h_SessionID h) sec (h_MessageCounter h) @ var_bytes h @ ys) =
    Inr (h, 8 + length (var_bytes h))"
proof -
  let ?h = "fixed_header fl (h_SessionID h) sec (h_MessageCounter h)"
  have v: "wf_variable h" "\<not> h_Control h" and
    k: "session_rule h"
    using assms(1) unfolding wf_header_def by blast+
  have "h_DestSize h \<in> {DestNone, DestNodeID, DestGroup}" using v(1) unfolding wf_variable_def by blast
  then have m: "fl AND 0xF0 = 0" "h_HasSourceNodeID h = (fl AND 0x04 \<noteq> 0)" "h_DestSize h = fl AND 0x03"
    using message_flags_iff assms(2) by blast+
  have "h_SessionType h \<in> {SessionUnsecured, SessionGroup}" using k by (auto simp: session_rule_def)
  then have s: "h_SessionType h = sec AND 0x03" "h_Privacy h = (sec AND 0x80 \<noteq> 0)"
      "sec AND 0x40 = 0" "h_HasExtension h = (sec AND 0x20 \<noteq> 0)"
    using SecurityFlags_iff assms(3) v(2) by blast+
  define h' where "h' = with_variable ?h (h_SourceNodeID h) (h_DestNodeID h) (h_DestGroupID h) (h_MessageExtension h)"
  have h: "h = h'\<lparr>h_Raw := h_Raw h\<rparr>"
    unfolding h'_def by (rule header_eqI) (use m s v in simp_all)
  have "check_fixed ?h sec = Inr ()"
    unfolding check_fixed_iff using k s(3) m s by (simp add: fixed_header_def session_rule_def)
  moreover have "wf_variable h'" "var_bytes h = var_bytes h'" using v(1) h Raw_update by metis+
  moreover from this raw h have "h = h'\<lparr>h_Raw := fixed_part fl (h_SessionID h) sec (h_MessageCounter h) @ var_bytes h'\<rparr>"
    by metis
  ultimately show ?thesis
    unfolding UnmarshalHeader_fixed Let_def using m(1) h'_def by metis
qed

lemma UnmarshalHeader_short: "length buf < 8 \<Longrightarrow> UnmarshalHeader buf = Inl (Fail MsgErrTruncated)"
  by (simp add: UnmarshalHeader_def)

lemma UnmarshalHeader_exact:
  "UnmarshalHeader buf = Inr (h, n) \<longleftrightarrow>
     wf_header h \<and> n \<le> length buf \<and> h_Raw h = take n buf \<and> clear_reserved (take n buf) = Header_Marshal h"
  (is "?L \<longleftrightarrow> ?R")
proof
  assume l: ?L
  then have "8 \<le> length buf" using UnmarshalHeader_short [of buf] by (cases "8 \<le> length buf") auto
  then obtain fl sid sec ctr xs where b: "buf = fixed_part fl sid sec ctr @ xs" by (rule buffer_split)
  from UnmarshalHeader_forward [OF l [unfolded b]] b show ?R
    by (auto simp: clear_reserved_fixed Header_Marshal_fixed)
next
  assume r: ?R
  then have "length (Header_Marshal h) = n" by (metis length_clear_reserved length_take min.absorb2)
  then have n: "n = 8 + length (var_bytes h)" by (simp add: Header_Marshal_fixed)
  with r have "8 \<le> length buf" by simp
  then obtain fl sid sec ctr xs where b: "buf = fixed_part fl sid sec ctr @ xs" by (rule buffer_split)
  with r n have e: "fl AND 0xF7 = message_flags h" "sid = h_SessionID h" "sec AND 0xE3 = SecurityFlags h"
    "ctr = h_MessageCounter h" "take (length (var_bytes h)) xs = var_bytes h"
    by (simp_all add: clear_reserved_fixed Header_Marshal_fixed)
  then have "xs = var_bytes h @ drop (length (var_bytes h)) xs" by (metis append_take_drop_id)
  then obtain ys where xs: "xs = var_bytes h @ ys" by blast
  have "h_Raw h = fixed_part fl (h_SessionID h) sec (h_MessageCounter h) @ var_bytes h"
    using r b n e xs by simp
  from UnmarshalHeader_backward [OF _ e(1,3) this, of ys] r show ?L
    by (simp add: b xs n e(2,4))
qed

text \<open>
  C20. \<open>UnmarshalHeader\<close> is exact: it returns the header \<open>h\<close> and the length \<open>n\<close> iff \<open>h\<close> is a
  well-formed header whose \<open>Raw\<close> is the first \<open>n\<close> bytes, and these bytes are \<open>Marshal\<close> of \<open>h\<close>
  up to the reserved bits of the two flag bytes. So every well-formed header survives the
  round trip, and nothing else is accepted.
\<close>

theorem UnmarshalHeader_iff:
  "UnmarshalHeader buf = Inr (h, n) \<longleftrightarrow>
     wf_header h \<and> n \<le> length buf \<and> h_Raw h = take n buf \<and> clear_reserved (take n buf) = Header_Marshal h"
  by (rule UnmarshalHeader_exact)

lemma flags_masked [simp]: "message_flags h AND 0xF7 = message_flags h" "SecurityFlags h AND 0xE3 = SecurityFlags h"
  by (auto simp: message_flags_def SecurityFlags_def byte_bits)

lemma clear_reserved_Marshal [simp]: "clear_reserved (Header_Marshal h) = Header_Marshal h"
  by (simp add: Header_Marshal_fixed clear_reserved_fixed)

lemma wf_header_roundtrip:
  assumes "wf_header h"
  shows "UnmarshalHeader (Header_Marshal h @ rest) = Inr (h\<lparr>h_Raw := Header_Marshal h\<rparr>, length (Header_Marshal h))"
  using assms by (simp add: UnmarshalHeader_exact)

lemma flag_bits:
  "bit (SecurityFlags h) 5 = h_HasExtension h" "bit (message_flags h) 2 = h_HasSourceNodeID h"
  "message_flags h AND 0x03 = h_DestSize h AND 0x03"
  by (auto simp: SecurityFlags_def message_flags_def byte_bits)

lemma flags_inject:
  assumes "message_flags h = message_flags h'" "SecurityFlags h = SecurityFlags h'"
    and "h_DestSize h \<in> {DestNone, DestNodeID, DestGroup}" "h_DestSize h' \<in> {DestNone, DestNodeID, DestGroup}"
  shows "h_HasSourceNodeID h = h_HasSourceNodeID h'" "h_DestSize h = h_DestSize h'"
    "h_HasExtension h = h_HasExtension h'" "h_SessionType h AND 0x03 = h_SessionType h' AND 0x03"
proof -
  show "h_HasSourceNodeID h = h_HasSourceNodeID h'" "h_HasExtension h = h_HasExtension h'"
    using assms(1,2) flag_bits by metis+
  show "h_DestSize h = h_DestSize h'"
    using flag_bits(3) [of h] flag_bits(3) [of h'] assms(1,3,4) by auto
  have "h_SessionType x AND 3 = SecurityFlags x AND 3" for x
    by (auto simp: SecurityFlags_def byte_bits)
  with assms(2) show "h_SessionType h AND 0x03 = h_SessionType h' AND 0x03" by simp
qed

lemma byte_le_2: "\<not> (2 :: byte) < x \<longleftrightarrow> x \<in> {0, 1, 2}"
proof
  assume "\<not> 2 < x"
  then have "unat x \<le> 2" by (simp add: word_less_nat_alt not_less)
  then have "unat x = 0 \<or> unat x = 1 \<or> unat x = 2" by arith
  then show "x \<in> {0, 1, 2}" by (auto simp: word_unat_eq_iff)
qed auto

lemma MarshalPacket_Inr:
  "MarshalPacket h = Inr b \<longleftrightarrow>
     b = Header_Marshal h \<and> h_DestSize h \<in> {DestNone, DestNodeID, DestGroup} \<and> \<not> h_HasExtension h
   \<and> h_MessageExtension h = [] \<and> (h_SessionType h = SessionGroup \<longrightarrow> h_DestSize h = DestGroup \<and> h_HasSourceNodeID h)
   \<and> \<not> (h_SessionType h = SessionUnsecured \<and> h_DestSize h = DestGroup)"
  unfolding MarshalPacket_def byte_le_2 [symmetric] by auto

text \<open>
  C19. Both ends bind the same bytes: when a packet header that \<open>MarshalPacket\<close> encodes is
  decoded by the receiver, the receiver stops at the end of the header, and the additional
  authenticated data and the nonce flags it uses are those the sender used.
\<close>

theorem header_authentication_agrees:
  assumes "h_Raw h = []" and "MarshalPacket h = Inr b" and "UnmarshalHeader (b @ rest) = Inr (h', n)"
  shows "n = length b \<and> AAD h' = AAD h \<and> NonceSecurityFlags h' = NonceSecurityFlags h"
proof -
  let ?b = "fixed_part (message_flags h) (h_SessionID h) (SecurityFlags h) (h_MessageCounter h)"
  have m: "b = ?b @ var_bytes h" "h_DestSize h \<in> {DestNone, DestNodeID, DestGroup}" "\<not> h_HasExtension h"
    using assms(2) by (auto simp: MarshalPacket_Inr Header_Marshal_fixed)
  from assms(3) have f: "wf_header h'" "h_Raw h' = ?b @ var_bytes h'" "\<exists>ys. var_bytes h @ rest = var_bytes h' @ ys"
    "message_flags h AND 0xF7 = message_flags h'" "SecurityFlags h AND 0xE3 = SecurityFlags h'"
    "n = 8 + length (var_bytes h')"
    unfolding m append_assoc by (auto dest!: UnmarshalHeader_forward)
  have d': "h_DestSize h' \<in> {DestNone, DestNodeID, DestGroup}"
    using f(1) by (auto simp: wf_header_def wf_variable_def)
  have "message_flags h = message_flags h'" "SecurityFlags h = SecurityFlags h'"
    using f(4,5) by simp_all
  from flags_inject [OF this m(2) d'] have "length (var_bytes h') = length (var_bytes h)"
    using m(3) by (simp add: var_bytes_def node_id_bytes_def)
  with f(3) have "var_bytes h' = var_bytes h" by auto
  with f m(1) assms(1) show ?thesis
    by (simp add: AAD_def NonceSecurityFlags_def fixed_part_reads Header_Marshal_fixed)
qed

text \<open>A unicast header of a secured session, used as an example.\<close>

definition sample_header :: header where
  "sample_header = \<lparr>h_SessionID = 0x1234, h_MessageCounter = 7, h_HasSourceNodeID = True,
     h_SourceNodeID = 0x1122334455667788, h_DestSize = DestNodeID, h_DestNodeID = 0x99, h_DestGroupID = 0,
     h_SessionType = SessionUnsecured, h_Privacy = False, h_Control = False, h_HasExtension = False,
     h_MessageExtension = [], h_Raw = []\<rparr>"

lemma sample_header_facts:
  "h_Raw sample_header = []" "MarshalPacket sample_header = Inr (Header_Marshal sample_header)"
  "wf_header sample_header" "length (Header_Marshal sample_header) = 24"
  by (simp_all add: sample_header_def MarshalPacket_def wf_header_def wf_variable_def session_rule_def
      Header_Marshal_def node_id_bytes_def Let_def)

theorem header_authentication_agrees_witness:
  "\<exists>h' n. UnmarshalHeader (Header_Marshal sample_header @ [1, 2]) = Inr (h', n) \<and> n = 24
     \<and> AAD h' = AAD sample_header \<and> NonceSecurityFlags h' = NonceSecurityFlags sample_header"
  using header_authentication_agrees [OF sample_header_facts(1,2) wf_header_roundtrip [OF sample_header_facts(3)]]
    wf_header_roundtrip [OF sample_header_facts(3), of "[1, 2]"] sample_header_facts(4)
  by auto

text \<open>
  A packet header that \<open>MarshalPacket\<close> encodes, of a unicast or group session and not a
  control message, is refused by the receiver in one case only: an unsecured message that
  names both or neither of source and destination.
\<close>

theorem MarshalPacket_decodes:
  assumes "MarshalPacket h = Inr b" and "h_SessionType h \<in> {SessionUnsecured, SessionGroup}" and "\<not> h_Control h"
  shows "(\<exists>h'. UnmarshalHeader (b @ rest) = Inr (h', length b)) \<longleftrightarrow>
    \<not> (h_SessionType h = SessionUnsecured \<and> h_SessionID h = 0 \<and> h_HasSourceNodeID h = (h_DestSize h = DestNodeID))"
proof -
  define h0 where "h0 = h\<lparr>h_SourceNodeID := (if h_HasSourceNodeID h then h_SourceNodeID h else 0),
    h_DestNodeID := (if h_DestSize h = DestNodeID then h_DestNodeID h else 0),
    h_DestGroupID := (if h_DestSize h = DestGroup then h_DestGroupID h else 0)\<rparr>"
  have b: "b = Header_Marshal h0"
    using assms(1) by (auto simp: MarshalPacket_Inr Header_Marshal_def h0_def message_flags_def
        SecurityFlags_def node_id_bytes_def Let_def)
  have v: "wf_variable h0" "\<not> h_Control h0"
    using assms by (auto simp: MarshalPacket_Inr wf_variable_def h0_def)
  have rule: "session_rule h0 \<longleftrightarrow>
      \<not> (h_SessionType h = SessionUnsecured \<and> h_SessionID h = 0 \<and> h_HasSourceNodeID h = (h_DestSize h = DestNodeID))"
    using assms(1,2) by (auto simp: MarshalPacket_Inr session_rule_def h0_def)
  show ?thesis
  proof
    assume "\<exists>h'. UnmarshalHeader (b @ rest) = Inr (h', length b)"
    then obtain h' where "wf_header h'" "clear_reserved b = Header_Marshal h'"
      by (auto simp: UnmarshalHeader_exact)
    then have e: "message_flags h0 = message_flags h'" "h_SessionID h0 = h_SessionID h'"
      "SecurityFlags h0 = SecurityFlags h'" and w: "session_rule h'" "wf_variable h'"
      by (auto simp: b Header_Marshal_fixed clear_reserved_fixed wf_header_def)
    have d: "h_DestSize h0 \<in> {DestNone, DestNodeID, DestGroup}" "h_DestSize h' \<in> {DestNone, DestNodeID, DestGroup}"
      using v(1) w(2) unfolding wf_variable_def by blast+
    have "h_SessionType h0 = h_SessionType h'"
      using flags_inject(4) [OF e(1,3) d] assms(2) w(1) by (auto simp: session_rule_def h0_def)
    with flags_inject(1,2) [OF e(1,3) d] e(2) w(1) have "session_rule h0" by (simp add: session_rule_def)
    then show "\<not> (h_SessionType h = SessionUnsecured \<and> h_SessionID h = 0 \<and> h_HasSourceNodeID h = (h_DestSize h = DestNodeID))"
      using rule by blast
  next
    assume "\<not> (h_SessionType h = SessionUnsecured \<and> h_SessionID h = 0 \<and> h_HasSourceNodeID h = (h_DestSize h = DestNodeID))"
    then have "wf_header h0" using rule v by (simp add: wf_header_def)
    from wf_header_roundtrip [OF this, of rest] show "\<exists>h'. UnmarshalHeader (b @ rest) = Inr (h', length b)"
      unfolding b by blast
  qed
qed

theorem MarshalPacket_decodes_witness:
  "\<exists>h'. UnmarshalHeader (Header_Marshal sample_header @ []) = Inr (h', length (Header_Marshal sample_header))"
  using MarshalPacket_decodes [OF sample_header_facts(2), of "[]"] by (simp add: sample_header_def)

section \<open>Protocol header\<close>

lemma parses_read_if:
  "parses (read_if present 2 get_u16) (\<lambda>v c. (present \<or> v = 0) \<and> c = (if present then put_u16 v else []))"
  "parses (read_if present 4 get_u32) (\<lambda>w c. (present \<or> w = 0) \<and> c = (if present then put_u32 w else []))"
  unfolding read_if_def
  by (cases present; auto intro: parses_cong [OF parses_ret] parses_cong [OF u16.parses_field] parses_cong [OF u32.parses_field])+

definition wf_protocol :: "protocol_header \<Rightarrow> bool" where
  "wf_protocol h \<longleftrightarrow> (p_HasVendorID h \<or> p_VendorID h = 0) \<and> (p_HasAck h \<or> p_AckCounter h = 0)
     \<and> (if p_HasSecuredExt h then length (p_SecuredExtension h) < 2 ^ 16 else p_SecuredExtension h = [])"

definition protocol_tail :: "protocol_header \<Rightarrow> bytes" where
  "protocol_tail h = (if p_HasVendorID h then put_u16 (p_VendorID h) else []) @ put_u16 (p_ProtocolID h)
     @ (if p_HasAck h then put_u32 (p_AckCounter h) else [])
     @ (if p_HasSecuredExt h then ext_chunk (p_SecuredExtension h) else [])"

definition same_start :: "protocol_header \<Rightarrow> protocol_header \<Rightarrow> bool" where
  "same_start h y \<longleftrightarrow> p_Initiator y = p_Initiator h \<and> p_NeedsAck y = p_NeedsAck h \<and> p_HasAck y = p_HasAck h
     \<and> p_HasSecuredExt y = p_HasSecuredExt h \<and> p_HasVendorID y = p_HasVendorID h
     \<and> p_Opcode y = p_Opcode h \<and> p_ExchangeID y = p_ExchangeID h"

lemma parses_protocol_fields:
  "parses (read_protocol_fields h) (\<lambda>y c. (same_start h y \<and> wf_protocol y) \<and> c = protocol_tail y)"
proof -
  let ?r = "\<lambda>vendor proto ack ext. h\<lparr>p_ProtocolID := proto, p_VendorID := vendor, p_AckCounter := ack,
    p_SecuredExtension := ext\<rparr>"
  have 0: "parses (ret (?r vendor proto ack ext)) (\<lambda>y c. (p_SecuredExtension y = ext \<and>
      p_AckCounter y = ack \<and> p_ProtocolID y = proto \<and> p_VendorID y = vendor \<and> same_start h y) \<and> c = [])"
    for vendor proto ack ext
    by (rule parses_ret_iff) (auto simp: same_start_def)
  have 1: "parses (bind_at (read_extension (p_HasSecuredExt h)) (\<lambda>ext. ret (?r vendor proto ack ext)))
      (\<lambda>y c. (p_AckCounter y = ack \<and> p_ProtocolID y = proto \<and> p_VendorID y = vendor \<and> same_start h y \<and>
         (if p_HasSecuredExt h then length (p_SecuredExtension y) < 2 ^ 16 else p_SecuredExtension y = []))
         \<and> c = (if p_HasSecuredExt h then ext_chunk (p_SecuredExtension y) else []))"
    for vendor proto ack
    by (rule parses_cong [OF parses_into [OF parses_read_extension 0]]) auto
  have 2: "parses (bind_at (read_if (p_HasAck h) 4 get_u32) (\<lambda>ack. bind_at (read_extension (p_HasSecuredExt h))
      (\<lambda>ext. ret (?r vendor proto ack ext))))
      (\<lambda>y c. (p_ProtocolID y = proto \<and> p_VendorID y = vendor \<and> same_start h y \<and>
         (p_HasAck h \<or> p_AckCounter y = 0) \<and>
         (if p_HasSecuredExt h then length (p_SecuredExtension y) < 2 ^ 16 else p_SecuredExtension y = []))
         \<and> c = (if p_HasAck h then put_u32 (p_AckCounter y) else []) @
             (if p_HasSecuredExt h then ext_chunk (p_SecuredExtension y) else []))"
    for vendor proto
    by (rule parses_cong [OF parses_into [OF parses_read_if(2) 1]]) auto
  have 3: "parses (bind_at (field_at MsgErrTruncated 2 get_u16) (\<lambda>proto. bind_at (read_if (p_HasAck h) 4 get_u32)
      (\<lambda>ack. bind_at (read_extension (p_HasSecuredExt h)) (\<lambda>ext. ret (?r vendor proto ack ext)))))
      (\<lambda>y c. (p_VendorID y = vendor \<and> same_start h y \<and> (p_HasAck h \<or> p_AckCounter y = 0) \<and>
         (if p_HasSecuredExt h then length (p_SecuredExtension y) < 2 ^ 16 else p_SecuredExtension y = []))
         \<and> c = put_u16 (p_ProtocolID y) @ (if p_HasAck h then put_u32 (p_AckCounter y) else []) @
             (if p_HasSecuredExt h then ext_chunk (p_SecuredExtension y) else []))"
    for vendor
    by (rule parses_cong [OF parses_into [where W = "\<lambda>_. True", OF _ 2]]) (auto simp: u16.parses_field)
  show ?thesis
    unfolding read_protocol_fields_def
    by (rule parses_cong [OF parses_into [OF parses_read_if(1) 3]])
      (auto simp: same_start_def wf_protocol_def protocol_tail_def)
qed

lemma ProtocolHeader_Marshal_eq:
  "ProtocolHeader_Marshal h = exchange_flags h # p_Opcode h # put_u16 (p_ExchangeID h) @ protocol_tail h"
  by (simp add: ProtocolHeader_Marshal_def protocol_tail_def appendExtension_def ext_chunk_def Let_def)

lemma exchange_flags_iff:
  "fl AND 0x1F = exchange_flags h \<longleftrightarrow>
     p_Initiator h = (fl AND 0x01 \<noteq> 0) \<and> p_NeedsAck h = (fl AND 0x04 \<noteq> 0) \<and> p_HasAck h = (fl AND 0x02 \<noteq> 0)
   \<and> p_HasSecuredExt h = (fl AND 0x08 \<noteq> 0) \<and> p_HasVendorID h = (fl AND 0x10 \<noteq> 0)"
  by (auto simp: exchange_flags_def byte_bits)

lemma protocol_split:
  assumes "4 \<le> length buf"
  obtains fl op ex xs where "buf = fl # op # put_u16 ex @ xs"
proof -
  obtain fl b1 where b1: "buf = fl # b1" using assms by (cases buf) auto
  obtain op b2 where b2: "b1 = op # b2" using assms b1 by (cases b1) auto
  have "2 \<le> length b2" using assms b1 b2 by simp
  then obtain ex where "put_u16 ex = take 2 b2" using u16.get_long by blast
  then have "buf = fl # op # put_u16 ex @ drop 2 b2" by (simp add: b1 b2)
  then show thesis by (rule that)
qed

lemma take_protocol_start:
  "take (4 + k) (fl # op # put_u16 ex @ xs) = fl # op # put_u16 ex @ take k xs"
  using take_append [of "4 + k" "fl # op # put_u16 ex" xs] by simp

lemma UnmarshalProtocolHeader_start:
  "UnmarshalProtocolHeader (fl # op # put_u16 ex @ xs) = Inr (h, n) \<longleftrightarrow>
     same_start (fixed_protocol_header fl op ex) h \<and> wf_protocol h \<and> (\<exists>ys. xs = protocol_tail h @ ys) \<and> n = 4 + length (protocol_tail h)"
proof -
  let ?pre = "fl # op # put_u16 ex" and ?h = "fixed_protocol_header fl op ex"
  have "UnmarshalProtocolHeader (?pre @ xs) = Inr (h, n) \<longleftrightarrow> read_protocol_fields ?h (?pre @ xs) (length ?pre) = (Inr h, n)"
    by (cases "read_protocol_fields ?h (?pre @ xs) 4")
      (auto simp: UnmarshalProtocolHeader_def index_def slice_from_def Let_def split: sum.splits)
  also have "\<dots> \<longleftrightarrow> same_start ?h h \<and> wf_protocol h \<and> (\<exists>ys. xs = protocol_tail h @ ys) \<and> n = 4 + length (protocol_tail h)"
    unfolding parses_iff [OF parses_protocol_fields] by auto
  finally show ?thesis by simp
qed

text \<open>
  \<open>UnmarshalProtocolHeader\<close> is exact: it returns \<open>h\<close> and \<open>n\<close> iff \<open>h\<close> is a well-formed
  protocol header and the first \<open>n\<close> bytes are its encoding, up to the three reserved bits of
  the exchange flags.
\<close>

lemma UnmarshalProtocolHeader_iff:
  "UnmarshalProtocolHeader buf = Inr (h, n) \<longleftrightarrow>
     wf_protocol h \<and> n \<le> length buf \<and> (take n buf)[0 := buf ! 0 AND 0x1F] = ProtocolHeader_Marshal h"
  (is "?L \<longleftrightarrow> ?R")
proof (cases "4 \<le> length buf")
  case True
  then obtain fl op ex xs where b: "buf = fl # op # put_u16 ex @ xs" by (rule protocol_split)
  have start: "same_start (fixed_protocol_header fl op ex) h \<longleftrightarrow>
      fl AND 0x1F = exchange_flags h \<and> op = p_Opcode h \<and> ex = p_ExchangeID h"
    unfolding exchange_flags_iff by (auto simp: same_start_def fixed_protocol_header_def)
  show ?thesis
  proof
    assume ?L
    then show ?R
      unfolding b UnmarshalProtocolHeader_start start
      by (auto simp: ProtocolHeader_Marshal_eq take_protocol_start)
  next
    assume r: ?R
    then have "length (ProtocolHeader_Marshal h) = n" by (metis length_list_update length_take min.absorb2)
    then have n: "n = 4 + length (protocol_tail h)" by (simp add: ProtocolHeader_Marshal_eq)
    with r b have e: "fl AND 0x1F = exchange_flags h" "op = p_Opcode h" "ex = p_ExchangeID h"
      "take (length (protocol_tail h)) xs = protocol_tail h"
      by (simp_all add: ProtocolHeader_Marshal_eq take_protocol_start)
    then have "xs = protocol_tail h @ drop (length (protocol_tail h)) xs" by (metis append_take_drop_id)
    with e r n show ?L unfolding b UnmarshalProtocolHeader_start start by blast
  qed
next
  case False
  then show ?thesis
    by (auto simp: UnmarshalProtocolHeader_def ProtocolHeader_Marshal_eq dest!: arg_cong [where f = length])
qed

lemma wf_protocol_roundtrip:
  assumes "wf_protocol h"
  shows "UnmarshalProtocolHeader (ProtocolHeader_Marshal h @ rest) = Inr (h, length (ProtocolHeader_Marshal h))"
proof -
  have "exchange_flags h AND 0x1F = exchange_flags h" by (simp add: exchange_flags_iff) (auto simp: exchange_flags_def)
  then have "(ProtocolHeader_Marshal h)[0 := ProtocolHeader_Marshal h ! 0 AND 0x1F] = ProtocolHeader_Marshal h"
    by (simp add: ProtocolHeader_Marshal_eq)
  moreover have "(ProtocolHeader_Marshal h @ rest) ! 0 = ProtocolHeader_Marshal h ! 0"
    by (simp add: ProtocolHeader_Marshal_eq)
  ultimately show ?thesis using assms by (simp add: UnmarshalProtocolHeader_iff)
qed

section \<open>Safety\<close>

text \<open>
  Neither header decoder panics, whatever the bytes: every read is covered by a length
  check, also behind a hostile extension length.
\<close>

theorem header_decoders_no_panic:
  "UnmarshalHeader buf \<noteq> Inl Panic \<and> UnmarshalProtocolHeader buf \<noteq> Inl Panic"
proof
  show "UnmarshalHeader buf \<noteq> Inl Panic"
  proof (cases "8 \<le> length buf")
    case True
    then obtain fl sid sec ctr xs where b: "buf = fixed_part fl sid sec ctr @ xs" by (rule buffer_split)
    let ?b = "fixed_part fl sid sec ctr" and ?h = "fixed_header fl sid sec ctr"
    obtain r p where rv: "read_variable ?h (?b @ xs) (length ?b) = (r, p)"
      by (cases "read_variable ?h (?b @ xs) (length ?b)")
    have "r \<noteq> Inl Panic" using parses_no_panic [OF parses_variable [of ?h], of ?b xs] rv by simp
    moreover have "p \<le> length (?b @ xs)" if "r = Inr h'" for h'
      using parses_iff [OF parses_variable [of ?h], of ?b xs h' p] rv that by auto
    moreover have "check_fixed ?h sec \<noteq> Inl Panic" by (simp add: check_fixed_def)
    ultimately show ?thesis using rv
      by (auto simp: UnmarshalHeader_def b fixed_part_reads Let_def slice_def and_then_Panic_iff split: sum.splits)
  qed (simp add: UnmarshalHeader_def)
  show "UnmarshalProtocolHeader buf \<noteq> Inl Panic"
  proof (cases "4 \<le> length buf")
    case True
    then obtain fl op ex xs where b: "buf = fl # op # put_u16 ex @ xs" by (rule protocol_split)
    have "fst (read_protocol_fields (fixed_protocol_header fl op ex) buf 4) \<noteq> Inl Panic"
      using parses_no_panic [OF parses_protocol_fields, of "fixed_protocol_header fl op ex" "fl # op # put_u16 ex" xs]
      by (simp add: b)
    then show ?thesis
      by (auto simp: UnmarshalProtocolHeader_def b index_def slice_from_def Let_def split: prod.splits sum.splits)
  qed (simp add: UnmarshalProtocolHeader_def)
qed

end
