(* ===== verification/Mrp.thy ===== *)
theory Mrp
  imports Wire "HOL-Library.Multiset"
begin

text \<open>
  The message reliability protocol, \<^verbatim>\<open>transport/mrp\<close>: the duplicate-detection window
  (\<^verbatim>\<open>window.go\<close>), the message counter (\<^verbatim>\<open>counter.go\<close>), the tracker of owed
  acknowledgements (\<^verbatim>\<open>ack.go\<close>), \<^verbatim>\<open>reliable.go\<close> and the status report body
  (\<^verbatim>\<open>status_report.go\<close>). The window and the tracker hold their mutex for the whole of every
  operation, so one call is one step; the counter is lock-free, and its interleavings are a
  step relation in \<open>Mrp_Counter\<close>. A time is the nanoseconds since the zero \<open>time.Time\<close>.
\<close>

unbundle bit_operations_syntax

section \<open>Duplicate-detection window\<close>

record window =
  w_initialBitmap :: u32
  w_max :: u32
  w_bitmap :: u32
  w_primed :: bool
  w_rollover :: bool
  w_encRollover :: bool

definition NewWindow :: window where
  "NewWindow = \<lparr>w_initialBitmap = 0, w_max = 0, w_bitmap = 0, w_primed = False,
     w_rollover = True, w_encRollover = False\<rparr>"

definition NewWindowNoRollover :: window where
  "NewWindowNoRollover = \<lparr>w_initialBitmap = - 1, w_max = 0, w_bitmap = 0, w_primed = False,
     w_rollover = False, w_encRollover = False\<rparr>"

definition NewWindowEncryptedRollover :: window where
  "NewWindowEncryptedRollover = \<lparr>w_initialBitmap = - 1, w_max = 0, w_bitmap = 0, w_primed = False,
     w_rollover = False, w_encRollover = True\<rparr>"

abbreviation windowSize :: int where "windowSize \<equiv> 32"
abbreviation maxCounter32 :: int where "maxCounter32 \<equiv> 0xFFFFFFFF"
abbreviation maxCounterIncrease2pow31 :: int where "maxCounterIncrease2pow31 \<equiv> 0x80000000"

definition diff :: "window \<Rightarrow> u32 \<Rightarrow> int" where
  "diff w c =
     (let d = uint c - uint (w_max w) in
      if w_encRollover w then
        (if d > 0 \<and> d \<ge> maxCounterIncrease2pow31 then d - (maxCounter32 + 1)
         else if d < 0 \<and> d < - maxCounterIncrease2pow31 then d + (maxCounter32 + 1)
         else d)
      else if \<not> w_rollover w then d
      else if d > 0 \<and> maxCounter32 - d < windowSize then d - (maxCounter32 + 1)
      else if d < - windowSize then d + (maxCounter32 + 1)
      else d)"

definition Accept :: "window \<Rightarrow> u32 \<Rightarrow> bool \<times> window" where
  "Accept w c =
     (if \<not> w_primed w then
        (True, w\<lparr>w_max := c, w_bitmap := w_initialBitmap w, w_primed := True\<rparr>)
      else if c = w_max w then (False, w)
      else
        (let d = diff w c in
         if d < 0 then
           (if d < - windowSize then (False, w)
            else
              (let b = push_bit (nat (- d - 1)) 1 in
               if w_bitmap w AND b \<noteq> 0 then (False, w)
               else (True, w\<lparr>w_bitmap := w_bitmap w OR b\<rparr>)))
         else if d \<le> windowSize then
           (let shifted = (if d < windowSize then push_bit (nat d) (w_bitmap w) else 0) in
            (True, w\<lparr>w_bitmap := shifted OR push_bit (nat (d - 1)) 1, w_max := c\<rparr>))
         else (True, w\<lparr>w_bitmap := 0, w_max := c\<rparr>)))"

text \<open>A sequence of received counters: those accepted, in order, and the window after them.\<close>

fun accept_all :: "window \<Rightarrow> u32 list \<Rightarrow> u32 list \<times> window" where
  "accept_all w [] = ([], w)"
| "accept_all w (c # cs) =
     (case Accept w c of (ok, w1) \<Rightarrow>
      case accept_all w1 cs of (acc, w2) \<Rightarrow> (if ok then c # acc else acc, w2))"

section \<open>Acknowledgement tracker\<close>

record exchange_key =
  k_SessionID :: u16
  k_ExchangeID :: u16
  k_Initiator :: bool

record ack_obligation =
  o_AckCounter :: u32
  o_SessionID :: u16
  o_ExchangeID :: u16
  o_Initiator :: bool
  o_DueAt :: nat

text \<open>
  The pending map is an association list; its order stands for the order in which Go
  happens to range over the map.
\<close>

record ack_tracker =
  t_pending :: "(exchange_key \<times> ack_obligation) list"
  t_displaced :: "ack_obligation list"
  t_delay :: nat

definition NewAckTracker :: "int \<Rightarrow> ack_tracker" where
  "NewAckTracker delay = \<lparr>t_pending = [], t_displaced = [], t_delay = (if delay < 0 then 0 else nat delay)\<rparr>"

definition exchange :: "u16 \<Rightarrow> u16 \<Rightarrow> bool \<Rightarrow> exchange_key" where
  "exchange sessionID exchangeID initiator =
     \<lparr>k_SessionID = sessionID, k_ExchangeID = exchangeID, k_Initiator = initiator\<rparr>"

fun put_key :: "'k \<Rightarrow> 'v \<Rightarrow> ('k \<times> 'v) list \<Rightarrow> ('k \<times> 'v) list" where
  "put_key k v [] = [(k, v)]"
| "put_key k v ((k', v') # m) = (if k = k' then (k, v) # m else (k', v') # put_key k v m)"

definition delete_key :: "'k \<Rightarrow> ('k \<times> 'v) list \<Rightarrow> ('k \<times> 'v) list" where
  "delete_key k m = filter (\<lambda>p. fst p \<noteq> k) m"

definition Owe :: "ack_tracker \<Rightarrow> u32 \<Rightarrow> u16 \<Rightarrow> u16 \<Rightarrow> bool \<Rightarrow> nat \<Rightarrow> ack_tracker" where
  "Owe t ackCounter sessionID exchangeID initiator now =
     (let key = exchange sessionID exchangeID initiator;
          new = \<lparr>o_AckCounter = ackCounter, o_SessionID = sessionID, o_ExchangeID = exchangeID,
                 o_Initiator = initiator, o_DueAt = now + t_delay t\<rparr>
      in case map_of (t_pending t) key of
           None \<Rightarrow> t\<lparr>t_pending := put_key key new (t_pending t)\<rparr>
         | Some prev \<Rightarrow>
             if o_AckCounter prev = ackCounter then t
             else t\<lparr>t_displaced := t_displaced t @ [prev\<lparr>o_DueAt := 0\<rparr>],
                    t_pending := put_key key new (t_pending t)\<rparr>)"

definition Discharge :: "ack_tracker \<Rightarrow> u16 \<Rightarrow> u16 \<Rightarrow> bool \<Rightarrow> bool \<times> ack_tracker" where
  "Discharge t sessionID exchangeID initiator =
     (let key = exchange sessionID exchangeID initiator in
      case map_of (t_pending t) key of
        None \<Rightarrow> (False, t)
      | Some _ \<Rightarrow> (True, t\<lparr>t_pending := delete_key key (t_pending t)\<rparr>))"

definition LookupAndDischarge :: "ack_tracker \<Rightarrow> u16 \<Rightarrow> u16 \<Rightarrow> bool \<Rightarrow> (u32 \<times> bool) \<times> ack_tracker" where
  "LookupAndDischarge t sessionID exchangeID initiator =
     (let key = exchange sessionID exchangeID initiator in
      case map_of (t_pending t) key of
        None \<Rightarrow> ((0, False), t)
      | Some obl \<Rightarrow> ((o_AckCounter obl, True), t\<lparr>t_pending := delete_key key (t_pending t)\<rparr>))"

definition ExpediteDue :: "ack_tracker \<Rightarrow> u16 \<Rightarrow> u16 \<Rightarrow> bool \<Rightarrow> bool \<times> ack_tracker" where
  "ExpediteDue t sessionID exchangeID initiator =
     (let key = exchange sessionID exchangeID initiator in
      case map_of (t_pending t) key of
        None \<Rightarrow> (False, t)
      | Some obl \<Rightarrow> (True, t\<lparr>t_pending := put_key key (obl\<lparr>o_DueAt := 0\<rparr>) (t_pending t)\<rparr>))"

definition Owes :: "ack_tracker \<Rightarrow> u16 \<Rightarrow> u16 \<Rightarrow> bool \<Rightarrow> bool" where
  "Owes t sessionID exchangeID initiator \<longleftrightarrow>
     map_of (t_pending t) (exchange sessionID exchangeID initiator) \<noteq> None"

definition Pending :: "ack_tracker \<Rightarrow> nat" where
  "Pending t = length (t_pending t) + length (t_displaced t)"

definition Due :: "ack_tracker \<Rightarrow> nat \<Rightarrow> ack_obligation list \<times> ack_tracker" where
  "Due t now =
     (if t_pending t = [] \<and> t_displaced t = [] then ([], t)
      else
        (t_displaced t @ map snd (filter (\<lambda>p. \<not> now < o_DueAt (snd p)) (t_pending t)),
         t\<lparr>t_displaced := [], t_pending := filter (\<lambda>p. now < o_DueAt (snd p)) (t_pending t)\<rparr>))"

section \<open>Reliability and status reports\<close>

definition UsesMRP :: "bool \<Rightarrow> bool \<Rightarrow> bool" where
  "UsesMRP supportsMRP reliableChannel \<longleftrightarrow> supportsMRP \<and> \<not> reliableChannel"

definition EncodeStatusReport :: "u16 \<Rightarrow> u32 \<Rightarrow> u16 \<Rightarrow> bytes \<Rightarrow> bytes" where
  "EncodeStatusReport generalCode protocolID protocolCode protocolData =
     put_u16 generalCode @ put_u32 protocolID @ put_u16 protocolCode @ protocolData"

end
