(* ===== verification/Mrp_Window.thy ===== *)
theory Mrp_Window
  imports Mrp
begin

text \<open>
  The duplicate-detection window of secure sessions implements the reference that remembers
  every accepted counter: the 32-bit map and the maximum carry exactly the information the
  decision needs. Replays are rejected by every variant.
\<close>

unbundle bit_operations_syntax

section \<open>The bitmap\<close>

lemma bit_exp_u32: "j < 32 \<Longrightarrow> bit (2 ^ i :: u32) j \<longleftrightarrow> j = i"
  by (auto simp: bit_exp_iff)

lemma bit_push_bit_u32: "j < 32 \<Longrightarrow> bit (push_bit n b :: u32) j \<longleftrightarrow> n \<le> j \<and> bit b (j - n)"
  by (auto simp: bit_simps)

section \<open>The reference\<close>

text \<open>
  A counter is fresh when nothing was accepted before, or when it is above the first accepted
  counter, was not accepted before and lies at most 32 below every accepted one.
\<close>

definition fresh :: "u32 list \<Rightarrow> u32 \<Rightarrow> bool" where
  "fresh A c \<longleftrightarrow> A = [] \<or> (c \<notin> set A \<and> hd A < c \<and> (\<forall>a \<in> set A. uint a \<le> uint c + windowSize))"

fun accept_ref :: "u32 list \<Rightarrow> u32 list \<Rightarrow> u32 list" where
  "accept_ref A [] = A"
| "accept_ref A (c # cs) = accept_ref (if fresh A c then A @ [c] else A) cs"

section \<open>Simulation\<close>

text \<open>Bit \<open>i\<close> stands for the counter \<open>max - (i + 1)\<close>: accepted, or below the first one.\<close>

definition known :: "u32 list \<Rightarrow> int \<Rightarrow> bool" where
  "known A z \<longleftrightarrow> z \<in> uint ` set A \<or> z < uint (hd A)"

definition window_rel :: "window \<Rightarrow> u32 list \<Rightarrow> bool" where
  "window_rel w A \<longleftrightarrow> w_primed w = (A \<noteq> []) \<and> \<not> w_rollover w \<and> \<not> w_encRollover w \<and> w_initialBitmap w = - 1 \<and>
     (A \<noteq> [] \<longrightarrow> w_max w \<in> set A \<and> (\<forall>a \<in> set A. uint a \<le> uint (w_max w)) \<and>
        (\<forall>i < 32. bit (w_bitmap w) i \<longleftrightarrow> known A (uint (w_max w) - int i - 1)))"

lemma window_relD:
  assumes "window_rel w A" "A \<noteq> []"
  shows "w_primed w" "w_max w \<in> set A" "a \<in> set A \<Longrightarrow> uint a \<le> uint (w_max w)"
    "i < 32 \<Longrightarrow> bit (w_bitmap w) i \<longleftrightarrow> known A (uint (w_max w) - int i - 1)"
    "diff w c = uint c - uint (w_max w)"
  using assms by (simp_all add: window_rel_def diff_def Let_def)

lemma known_snoc: "A \<noteq> [] \<Longrightarrow> known (A @ [c]) z \<longleftrightarrow> known A z \<or> z = uint c"
  by (auto simp: known_def)

lemma known_max: "window_rel w A \<Longrightarrow> A \<noteq> [] \<Longrightarrow> uint (w_max w) < z \<Longrightarrow> \<not> known A z"
proof
  assume r: "window_rel w A" "A \<noteq> []" and z: "uint (w_max w) < z" "known A z"
  have "uint a \<le> uint (w_max w)" if "a \<in> set A" for a using window_relD(3) [OF r that] .
  then have "uint a < z" if "a \<in> set A" for a using that z(1) by fastforce
  with z r(2) show False by (force simp: known_def dest: hd_in_set)
qed

lemma uint_mem: "uint c \<in> uint ` set A \<longleftrightarrow> c \<in> set A"
  by (auto simp: word_uint_eq_iff [symmetric])

lemma fresh_behind:
  assumes r: "window_rel w A" "A \<noteq> []" and c: "uint c < uint (w_max w)" "uint (w_max w) \<le> uint c + 32"
  shows "fresh A c \<longleftrightarrow> \<not> known A (uint c)"
proof -
  have "uint a \<le> uint c + 32" if "a \<in> set A" for a
    using window_relD(3) [OF r that] c(2) by linarith
  moreover have "uint (hd A) \<noteq> uint c" if "c \<notin> set A" using r(2) that by (metis hd_in_set uint_mem image_eqI)
  ultimately show ?thesis
    using r(2) by (fastforce simp: fresh_def known_def uint_mem word_less_def)
qed

lemma fresh_ahead:
  assumes r: "window_rel w A" "A \<noteq> []" and c: "uint (w_max w) < uint c"
  shows "fresh A c"
proof -
  have a: "uint a < uint c" if "a \<in> set A" for a
    using window_relD(3) [OF r that] c by linarith
  moreover have "hd A \<in> set A" using r(2) by simp
  ultimately show ?thesis by (fastforce simp: fresh_def word_less_def)
qed

lemma fresh_far_behind:
  assumes r: "window_rel w A" "A \<noteq> []" and c: "uint c + 32 < uint (w_max w)"
  shows "\<not> fresh A c"
  using window_relD(2) [OF r] r(2) c by (force simp: fresh_def)

lemma window_rel_behind:
  assumes r: "window_rel w A" "A \<noteq> []" and c: "uint c = uint (w_max w) - int i - 1" "i < 32"
  shows "window_rel (w\<lparr>w_bitmap := w_bitmap w OR push_bit i 1\<rparr>) (A @ [c])"
proof -
  have "bit (w_bitmap w OR push_bit i 1) j \<longleftrightarrow> known (A @ [c]) (uint (w_max w) - int j - 1)" if "j < 32" for j
    using window_relD(4) [OF r that] that c by (auto simp: bit_or_iff bit_exp_u32 known_snoc [OF r(2)])
  moreover have "uint c \<le> uint (w_max w)" using c by simp
  ultimately show ?thesis
    using r by (auto simp: window_rel_def)
qed

lemma window_rel_ahead:
  assumes r: "window_rel w A" "A \<noteq> []" and d: "uint c = uint (w_max w) + int d" "0 < d"
    and b: "\<And>j. j < 32 \<Longrightarrow> bit b j \<longleftrightarrow> (d \<le> j \<and> bit (w_bitmap w) (j - d)) \<or> Suc j = d"
  shows "window_rel (w\<lparr>w_bitmap := b, w_max := c\<rparr>) (A @ [c])"
proof -
  have "bit b j \<longleftrightarrow> known (A @ [c]) (uint c - int j - 1)" if j: "j < 32" for j
  proof -
    consider "d \<le> j" | "Suc j = d" | "Suc j < d" by linarith
    then show ?thesis
    proof cases
      case 1
      then have "bit b j \<longleftrightarrow> known A (uint (w_max w) - int (j - d) - 1)"
        using b [OF j] window_relD(4) [OF r, of "j - d"] j by auto
      moreover have "uint (w_max w) - int (j - d) - 1 = uint c - int j - 1" using 1 d by simp
      ultimately show ?thesis by (simp add: known_snoc [OF r(2)])
    next
      case 2
      then have "uint c - int j - 1 = uint (w_max w)" using d by auto
      moreover have "known A (uint (w_max w))" using window_relD(2) [OF r] by (simp add: known_def)
      ultimately show ?thesis using b [OF j] 2 by (simp add: known_snoc [OF r(2)])
    next
      case 3
      then have "uint (w_max w) < uint c - int j - 1" using d by auto
      from known_max [OF r this] b [OF j] 3 show ?thesis by (simp add: known_snoc [OF r(2)])
    qed
  qed
  moreover have "uint a \<le> uint c" if "a \<in> set A" for a
    using window_relD(3) [OF r that] d by simp
  ultimately show ?thesis using r by (auto simp: window_rel_def)
qed

lemma Accept_sim:
  assumes r: "window_rel w A"
  shows "fst (Accept w c) = fresh A c \<and> window_rel (snd (Accept w c)) (if fresh A c then A @ [c] else A)"
proof (cases "A = []")
  case True
  have "bit (- 1 :: u32) i" if "i < 32" for i using that by simp
  with True r show ?thesis by (auto simp: Accept_def window_rel_def fresh_def known_def)
next
  case False
  note r' = r False
  have p: "w_primed w" "diff w c = uint c - uint (w_max w)" using window_relD [OF r'] by auto
  consider (eq) "c = w_max w" | (far) "uint c + 32 < uint (w_max w)"
    | (behind) "uint c < uint (w_max w)" "uint (w_max w) \<le> uint c + 32"
    | (ahead) "uint (w_max w) < uint c"
    using word_uint_eq_iff [of c "w_max w"] by linarith
  then show ?thesis
  proof cases
    case eq
    then have "\<not> fresh A c" using window_relD(2) [OF r'] False by (simp add: fresh_def)
    with eq p r show ?thesis by (simp add: Accept_def)
  next
    case far
    with fresh_far_behind [OF r' far] p r show ?thesis by (auto simp: Accept_def Let_def)
  next
    case behind
    define i where "i = nat (uint (w_max w) - uint c - 1)"
    have i: "uint c = uint (w_max w) - int i - 1" "i < 32" "nat (- diff w c - 1) = i"
      using behind p(2) by (auto simp: i_def)
    have b: "w_bitmap w AND 2 ^ i = 0 \<longleftrightarrow> fresh A c"
      using fresh_behind [OF r' behind] window_relD(4) [OF r' i(2)] i(1)
      by (simp add: and_exp_eq_0_iff_not_bit)
    have acc: "Accept w c = (if w_bitmap w AND 2 ^ i \<noteq> 0 then (False, w)
        else (True, w\<lparr>w_bitmap := w_bitmap w OR 2 ^ i\<rparr>))"
      using p behind i(3) by (auto simp: Accept_def Let_def)
    show ?thesis
      using window_rel_behind [OF r' i(1,2)] b r by (simp add: acc)
  next
    case ahead
    note f = fresh_ahead [OF r' ahead]
    define d where "d = nat (uint c - uint (w_max w))"
    have d: "uint c = uint (w_max w) + int d" "0 < d" "diff w c = int d" "nat (int d - 1) = d - 1"
      using ahead p(2) by (auto simp: d_def)
    have "c \<noteq> w_max w" using ahead by auto
    with p d have acc: "Accept w c = (True, w\<lparr>w_bitmap := (if d < 32 then push_bit d (w_bitmap w) OR 2 ^ (d - 1)
        else if d = 32 then 2 ^ (d - 1) else 0), w_max := c\<rparr>)"
      by (auto simp: Accept_def Let_def)
    have "window_rel (snd (Accept w c)) (A @ [c])"
      unfolding acc snd_conv
    proof (rule window_rel_ahead [OF r' d(1,2)])
      fix j :: nat
      assume j: "j < 32"
      show "bit (if d < 32 then push_bit d (w_bitmap w) OR 2 ^ (d - 1) else if d = 32 then 2 ^ (d - 1) else 0 :: u32) j
          \<longleftrightarrow> (d \<le> j \<and> bit (w_bitmap w) (j - d)) \<or> Suc j = d"
        using bit_exp_u32 [OF j, of "d - 1"] bit_push_bit_u32 [OF j, of d "w_bitmap w"] d(2) j
        by (cases "d < 32"; cases "d = 32") (auto simp: bit_or_iff)
    qed
    with f show ?thesis by (simp add: acc)
  qed
qed

lemma accept_all_ref:
  "window_rel w A \<Longrightarrow> accept_ref A cs = A @ fst (accept_all w cs)"
proof (induction cs arbitrary: w A)
  case (Cons c cs)
  obtain ok w1 where a: "Accept w c = (ok, w1)" by (cases "Accept w c")
  with Accept_sim [OF Cons.prems, of c] have "ok = fresh A c" "window_rel w1 (if fresh A c then A @ [c] else A)"
    by simp_all
  with Cons.IH [OF this(2)] a show ?case by (auto split: prod.split)
qed simp

lemma distinct_accept_ref: "distinct A \<Longrightarrow> distinct (accept_ref A cs)"
  by (induction A cs rule: accept_ref.induct) (auto simp: fresh_def)

section \<open>Properties\<close>

text \<open>
  C11. The window of a secure session accepts exactly the counters that the reference
  accepts which remembers every accepted counter, for any sequence of received counters; in
  particular no counter is ever accepted twice, so that no message is processed twice.
\<close>

theorem secure_window_refines:
  "fst (accept_all NewWindowNoRollover cs) = accept_ref [] cs
   \<and> distinct (fst (accept_all NewWindowNoRollover cs))"
proof -
  have "window_rel NewWindowNoRollover []" by (simp add: window_rel_def NewWindowNoRollover_def)
  from accept_all_ref [OF this, of cs] distinct_accept_ref [of "[]" cs] show ?thesis by simp
qed

lemma Accept_replay:
  "fst (Accept (snd (Accept w c)) c) = False \<and> (fst (Accept w c) \<or> snd (Accept w c) = w)"
proof -
  have "snd (Accept w c) = w" if "\<not> fst (Accept w c)"
    using that by (auto simp: Accept_def Let_def split: if_splits)
  moreover have "\<not> fst (Accept (snd (Accept w c)) c)" if a: "fst (Accept w c)"
  proof (cases "w_primed w \<and> c \<noteq> w_max w \<and> diff w c < 0")
    case True
    define b where "b = (2 ^ nat (- diff w c - 1) :: u32)"
    have k: "- 32 \<le> diff w c" "snd (Accept w c) = w\<lparr>w_bitmap := w_bitmap w OR b\<rparr>"
      using True a by (auto simp: Accept_def Let_def b_def split: if_splits)
    have "diff (w\<lparr>w_bitmap := w_bitmap w OR b\<rparr>) c = diff w c" by (simp add: diff_def Let_def)
    moreover have "(w_bitmap w OR b) AND b \<noteq> 0"
    proof -
      have "bit b (nat (- diff w c - 1))" using k(1) True by (simp add: b_def bit_exp_iff)
      then have "bit ((w_bitmap w OR b) AND b) (nat (- diff w c - 1))" by (simp add: bit_simps)
      then show ?thesis by force
    qed
    ultimately show ?thesis using True k by (simp add: Accept_def Let_def b_def)
  next
    case False
    then have "w_max (snd (Accept w c)) = c \<and> w_primed (snd (Accept w c))"
      using a by (auto simp: Accept_def Let_def split: if_splits)
    then show ?thesis by (simp add: Accept_def)
  qed
  ultimately show ?thesis by (metis (full_types))
qed


end
