(* ===== verification/Mrp_Counter.thy ===== *)
theory Mrp_Counter
  imports Mrp
begin

text \<open>
  The message counter (\<^verbatim>\<open>transport/mrp/counter.go\<close>). \<open>Next\<close> is one atomic add.
  \<open>NextNoRollover\<close> loads, compares and swaps in a loop without a lock, so its calls interleave:
  \<open>counter_step\<close> is one atomic access of one of any number of goroutines, \<open>c_returned\<close> the
  values handed out so far in the order of the successful swaps.
\<close>

section \<open>The counter\<close>

definition seed_value :: "u32 \<Rightarrow> u32" where
  "seed_value r = drop_bit 4 r + 1"

definition CounterNext :: "u32 \<Rightarrow> u32 \<times> u32" where
  "CounterNext v = (let new = v + 1 in (new - 1, new))"

definition Peek :: "u32 \<Rightarrow> u32" where
  "Peek v = v"

text \<open>Where a goroutine is: outside the loop's body, between load and swap, or returned.\<close>

datatype call_pc = At_Load | At_Swap u32 | Returned u32 | Exhausted

record counter_state =
  c_v :: u32
  c_pc :: "nat \<Rightarrow> call_pc"
  c_returned :: "u32 list"

definition counter_init :: "u32 \<Rightarrow> counter_state" where
  "counter_init seed = \<lparr>c_v = seed, c_pc = (\<lambda>_. At_Load), c_returned = []\<rparr>"

inductive counter_step :: "counter_state \<Rightarrow> counter_state \<Rightarrow> bool" where
  load: "c_pc s t = At_Load \<Longrightarrow> c_v s \<noteq> 0xFFFFFFFF \<Longrightarrow>
    counter_step s (s\<lparr>c_pc := (c_pc s)(t := At_Swap (c_v s))\<rparr>)"
| exhausted: "c_pc s t = At_Load \<Longrightarrow> c_v s = 0xFFFFFFFF \<Longrightarrow>
    counter_step s (s\<lparr>c_pc := (c_pc s)(t := Exhausted)\<rparr>)"
| swap: "c_pc s t = At_Swap cur \<Longrightarrow> c_v s = cur \<Longrightarrow>
    counter_step s (s\<lparr>c_v := cur + 1, c_pc := (c_pc s)(t := Returned cur), c_returned := c_returned s @ [cur]\<rparr>)"
| retry: "c_pc s t = At_Swap cur \<Longrightarrow> c_v s \<noteq> cur \<Longrightarrow>
    counter_step s (s\<lparr>c_pc := (c_pc s)(t := At_Load)\<rparr>)"
| again: "c_pc s t = Returned cur \<Longrightarrow> counter_step s (s\<lparr>c_pc := (c_pc s)(t := At_Load)\<rparr>)"

inductive counter_reach :: "u32 \<Rightarrow> counter_state \<Rightarrow> bool" for seed where
  start: "counter_reach seed (counter_init seed)"
| step: "counter_reach seed s \<Longrightarrow> counter_step s s' \<Longrightarrow> counter_reach seed s'"

inductive_cases counter_stepE: "counter_step s s'"

section \<open>Invariant\<close>

definition counter_inv :: "u32 \<Rightarrow> counter_state \<Rightarrow> bool" where
  "counter_inv seed s \<longleftrightarrow> seed \<le> c_v s \<and> map unat (c_returned s) = [unat seed ..< unat (c_v s)]
     \<and> (\<forall>t cur. c_pc s t = At_Swap cur \<longrightarrow> cur \<noteq> 0xFFFFFFFF)
     \<and> (\<forall>t. c_pc s t = Exhausted \<longrightarrow> c_v s = 0xFFFFFFFF)"

lemma unat_succ_u32: "(v :: u32) \<noteq> 0xFFFFFFFF \<Longrightarrow> unat (v + 1) = Suc (unat v)"
proof -
  assume "v \<noteq> 0xFFFFFFFF"
  then have "unat v \<noteq> 4294967295" by (simp add: word_unat_eq_iff)
  with unat_bounds(3) [of v] show ?thesis by (simp add: unat_word_ariths(1))
qed

lemma counter_inv_step:
  assumes inv: "counter_inv seed s" and st: "counter_step s s'"
  shows "counter_inv seed s'"
  using st
proof cases
  case (swap t cur)
  with inv have "cur \<noteq> 0xFFFFFFFF" by (auto simp: counter_inv_def)
  then have "unat (cur + 1) = Suc (unat cur)" by (rule unat_succ_u32)
  moreover from swap inv have "unat seed \<le> unat cur" by (auto simp: counter_inv_def word_le_nat_alt)
  ultimately show ?thesis using swap inv \<open>cur \<noteq> 0xFFFFFFFF\<close> by (auto simp: counter_inv_def word_le_nat_alt)
qed (use inv in \<open>auto simp: counter_inv_def split: if_splits\<close>)

lemma counter_reach_inv: "counter_reach seed s \<Longrightarrow> counter_inv seed s"
  by (induction rule: counter_reach.induct) (auto simp: counter_inv_step, simp add: counter_inv_def counter_init_def)

text \<open>
  C14. However the calls of \<open>NextNoRollover\<close> interleave, the values handed out are the
  consecutive numbers from the seed up to the counter, each once: no value, and so no
  nonce, is ever used twice; and a call reports exhaustion only at the ceiling.
\<close>

theorem counter_values_unique:
  assumes "counter_reach seed s"
  shows "map unat (c_returned s) = [unat seed ..< unat (c_v s)] \<and> distinct (c_returned s)
    \<and> 0xFFFFFFFF \<notin> set (c_returned s) \<and> (\<forall>t. c_pc s t = Exhausted \<longrightarrow> c_v s = 0xFFFFFFFF)"
proof -
  have inv: "counter_inv seed s" using assms by (rule counter_reach_inv)
  then have m: "map unat (c_returned s) = [unat seed ..< unat (c_v s)]" by (simp add: counter_inv_def)
  then have "distinct (c_returned s)" by (metis distinct_map distinct_upt)
  moreover have "0xFFFFFFFF \<notin> set (c_returned s)"
  proof
    assume "0xFFFFFFFF \<in> set (c_returned s)"
    then have "unat (0xFFFFFFFF :: u32) \<in> set (map unat (c_returned s))" by (metis list.set_map imageI)
    then have "4294967295 < unat (c_v s)" unfolding m by simp
    with unat_bounds(3) [of "c_v s"] show False by simp
  qed
  ultimately show ?thesis using m inv by (simp add: counter_inv_def)
qed

text \<open>Two goroutines: both load 5, the second swaps first, the first one fails, retries and gets 6.\<close>

definition example_run :: counter_state where
  "example_run = \<lparr>c_v = 7, c_pc = ((\<lambda>_. At_Load)(1 := Returned 5))(0 := Returned 6), c_returned = [5, 6]\<rparr>"

lemma example_run_reachable: "counter_reach 5 example_run"
proof -
  let ?s1 = "\<lparr>c_v = 5, c_pc = (\<lambda>_. At_Load)(0 := At_Swap 5), c_returned = []\<rparr> :: counter_state"
  let ?s2 = "\<lparr>c_v = 5, c_pc = ((\<lambda>_. At_Load)(0 := At_Swap 5))(1 := At_Swap 5), c_returned = []\<rparr> :: counter_state"
  let ?s3 = "\<lparr>c_v = 6, c_pc = ((\<lambda>_. At_Load)(0 := At_Swap 5))(1 := Returned 5), c_returned = [5]\<rparr> :: counter_state"
  let ?s4 = "\<lparr>c_v = 6, c_pc = ((\<lambda>_. At_Load)(1 := Returned 5))(0 := At_Load), c_returned = [5]\<rparr> :: counter_state"
  let ?s5 = "\<lparr>c_v = 6, c_pc = ((\<lambda>_. At_Load)(1 := Returned 5))(0 := At_Swap 6), c_returned = [5]\<rparr> :: counter_state"
  have "counter_step (counter_init 5) ?s1"
    using counter_step.load [of "counter_init 5" 0] by (simp add: counter_init_def)
  moreover have "counter_step ?s1 ?s2" using counter_step.load [of ?s1 1] by simp
  moreover have "counter_step ?s2 ?s3" using counter_step.swap [of ?s2 1 5] by simp
  moreover have "counter_step ?s3 ?s4" using counter_step.retry [of ?s3 0 5] by (simp add: fun_upd_twist)
  moreover have "counter_step ?s4 ?s5" using counter_step.load [of ?s4 0] by simp
  moreover have "counter_step ?s5 example_run"
    using counter_step.swap [of ?s5 0 6] by (simp add: example_run_def)
  ultimately show ?thesis by (meson counter_reach.intros)
qed

theorem counter_values_unique_witness:
  "map unat (c_returned example_run) = [5 ..< 7] \<and> distinct (c_returned example_run)"
  using counter_values_unique [OF example_run_reachable] by (simp add: example_run_def)

end
