(* ===== verification/Mrp_Ack.thy ===== *)
theory Mrp_Ack
  imports Mrp
begin

text \<open>
  The tracker of owed acknowledgements (\<^verbatim>\<open>transport/mrp/ack.go\<close>) over arbitrary sequences of its
  operations: one pending obligation per exchange, no acknowledgement lost or sent twice, no
  deadline postponed.
\<close>

section \<open>Association lists\<close>

lemma put_key_fresh: "map_of m k = None \<Longrightarrow> put_key k v m = m @ [(k, v)]"
  by (induction m) (auto split: if_splits)

lemma map_of_put_key [simp]: "map_of (put_key k v m) = (map_of m)(k \<mapsto> v)"
  by (induction m) (auto simp: fun_eq_iff)

lemma keys_put_key: "set (map fst (put_key k v m)) = insert k (set (map fst m))"
  by (induction m) (force split: if_splits)+

lemma distinct_put_key: "distinct (map fst m) \<Longrightarrow> distinct (map fst (put_key k v m))"
proof (induction m)
  case (Cons p m)
  then show ?case using keys_put_key [of k v m] by (cases p) auto
qed simp

lemma mset_put_key:
  "distinct (map fst m) \<Longrightarrow> map_of m k = Some u \<Longrightarrow> mset (put_key k v m) + {#(k, u)#} = mset m + {#(k, v)#}"
  by (induction m) auto

lemma mset_delete_key:
  "distinct (map fst m) \<Longrightarrow> map_of m k = Some u \<Longrightarrow> mset (delete_key k m) + {#(k, u)#} = mset m"
proof (induction m)
  case (Cons p m)
  have "filter (\<lambda>q. fst q \<noteq> fst p) m = m" using Cons.prems(1) by (intro filter_True ballI) (auto simp: rev_image_eqI)
  from arg_cong [OF this, of mset] Cons show ?case by (cases p) (auto simp: delete_key_def)
qed simp

lemma distinct_filter_keys: "distinct (map fst m) \<Longrightarrow> distinct (map fst (filter P m))"
  by (induction m) auto

section \<open>Well-formed trackers\<close>

definition key_of :: "ack_obligation \<Rightarrow> exchange_key" where
  "key_of o1 = exchange (o_SessionID o1) (o_ExchangeID o1) (o_Initiator o1)"

definition wf_tracker :: "ack_tracker \<Rightarrow> bool" where
  "wf_tracker t \<longleftrightarrow> distinct (map fst (t_pending t)) \<and> (\<forall>(k, o1) \<in> set (t_pending t). key_of o1 = k)"

text \<open>An acknowledgement: the exchange it belongs to and the counter it names.\<close>

type_synonym ack_id = "exchange_key \<times> u32"

definition ack_id :: "ack_obligation \<Rightarrow> ack_id" where
  "ack_id o1 = (key_of o1, o_AckCounter o1)"

definition tracked :: "ack_tracker \<Rightarrow> ack_id multiset" where
  "tracked t = image_mset (\<lambda>p. ack_id (snd p)) (mset (t_pending t)) + image_mset ack_id (mset (t_displaced t))"

section \<open>Operations\<close>

datatype ack_op =
    Op_Owe u32 u16 u16 bool nat
  | Op_Discharge u16 u16 bool
  | Op_LookupAndDischarge u16 u16 bool
  | Op_ExpediteDue u16 u16 bool
  | Op_Due nat

definition apply_op :: "ack_tracker \<Rightarrow> ack_op \<Rightarrow> ack_tracker" where
  "apply_op t op = (case op of
      Op_Owe c s x i now \<Rightarrow> Owe t c s x i now
    | Op_Discharge s x i \<Rightarrow> snd (Discharge t s x i)
    | Op_LookupAndDischarge s x i \<Rightarrow> snd (LookupAndDischarge t s x i)
    | Op_ExpediteDue s x i \<Rightarrow> snd (ExpediteDue t s x i)
    | Op_Due now \<Rightarrow> snd (Due t now))"

text \<open>The acknowledgement an operation adds: a repeated \<open>Owe\<close> for the pending counter adds none.\<close>

definition owed_by :: "ack_tracker \<Rightarrow> ack_op \<Rightarrow> ack_id multiset" where
  "owed_by t op = (case op of
      Op_Owe c s x i now \<Rightarrow>
        (if (\<exists>o1. map_of (t_pending t) (exchange s x i) = Some o1 \<and> o_AckCounter o1 = c) then {#}
         else {#(exchange s x i, c)#})
    | _ \<Rightarrow> {#})"

text \<open>The acknowledgements an operation hands to its caller, to piggyback or to send.\<close>

definition pending_ack :: "ack_tracker \<Rightarrow> exchange_key \<Rightarrow> ack_id multiset" where
  "pending_ack t k = (case map_of (t_pending t) k of None \<Rightarrow> {#} | Some o1 \<Rightarrow> {#(k, o_AckCounter o1)#})"

definition settled_by :: "ack_tracker \<Rightarrow> ack_op \<Rightarrow> ack_id multiset" where
  "settled_by t op = (case op of
      Op_Discharge s x i \<Rightarrow> if fst (Discharge t s x i) then pending_ack t (exchange s x i) else {#}
    | Op_LookupAndDischarge s x i \<Rightarrow>
        (case fst (LookupAndDischarge t s x i) of (c, ok) \<Rightarrow> if ok then {#(exchange s x i, c)#} else {#})
    | Op_Due now \<Rightarrow> image_mset ack_id (mset (fst (Due t now)))
    | _ \<Rightarrow> {#})"

fun run_ops :: "ack_tracker \<Rightarrow> ack_op list \<Rightarrow> ack_tracker" where
  "run_ops t [] = t"
| "run_ops t (op # ops) = run_ops (apply_op t op) ops"

fun all_owed :: "ack_tracker \<Rightarrow> ack_op list \<Rightarrow> ack_id multiset" where
  "all_owed t [] = {#}"
| "all_owed t (op # ops) = owed_by t op + all_owed (apply_op t op) ops"

fun all_settled :: "ack_tracker \<Rightarrow> ack_op list \<Rightarrow> ack_id multiset" where
  "all_settled t [] = {#}"
| "all_settled t (op # ops) = settled_by t op + all_settled (apply_op t op) ops"

section \<open>Each operation\<close>

lemma wf_pending: "wf_tracker t \<Longrightarrow> map_of (t_pending t) k = Some o1 \<Longrightarrow> key_of o1 = k"
  by (auto simp: wf_tracker_def dest: map_of_SomeD)

lemma image_put_key:
  assumes "distinct (map fst m)" "map_of m k = Some u"
  shows "image_mset f (mset (put_key k v m)) + {#f (k, u)#} = image_mset f (mset m) + {#f (k, v)#}"
  using arg_cong [OF mset_put_key [OF assms, of v], of "image_mset f"] by simp

lemma image_delete_key:
  assumes "distinct (map fst m)" "map_of m k = Some u"
  shows "image_mset f (mset (delete_key k m)) + {#f (k, u)#} = image_mset f (mset m)"
  using arg_cong [OF mset_delete_key [OF assms], of "image_mset f"] by simp

lemma set_put_key: "set (put_key k v m) \<subseteq> insert (k, v) (set m)"
  by (induction m) (auto split: if_splits)

lemma wf_put_key:
  assumes "wf_tracker t" "key_of o1 = k"
  shows "wf_tracker (t\<lparr>t_pending := put_key k o1 (t_pending t)\<rparr>)"
  using assms set_put_key [of k o1 "t_pending t"] by (auto simp: wf_tracker_def distinct_put_key)

lemma wf_filter: "wf_tracker t \<Longrightarrow> wf_tracker (t\<lparr>t_pending := filter P (t_pending t)\<rparr>)"
  by (auto simp: wf_tracker_def distinct_filter_keys)

lemma wf_displaced [simp]: "wf_tracker (t\<lparr>t_displaced := d\<rparr>) = wf_tracker t"
  by (simp add: wf_tracker_def)

lemma apply_op_wf: "wf_tracker t \<Longrightarrow> wf_tracker (apply_op t op)"
proof (cases op)
  case (Op_Owe c s x i now)
  assume w: "wf_tracker t"
  let ?n = "\<lparr>o_AckCounter = c, o_SessionID = s, o_ExchangeID = x, o_Initiator = i, o_DueAt = now + t_delay t\<rparr>"
  have "wf_tracker (t\<lparr>t_pending := put_key (exchange s x i) ?n (t_pending t)\<rparr>)"
    by (rule wf_put_key [OF w]) (simp add: key_of_def)
  moreover have "wf_tracker (t\<lparr>t_displaced := d, t_pending := put_key (exchange s x i) ?n (t_pending t)\<rparr>)" for d
    using calculation by (simp add: wf_tracker_def)
  ultimately show ?thesis using w Op_Owe by (auto simp: apply_op_def Owe_def Let_def split: option.split)
next
  case (Op_ExpediteDue s x i)
  assume w: "wf_tracker t"
  show ?thesis
  proof (cases "map_of (t_pending t) (exchange s x i)")
    case (Some o1)
    have "key_of (o1\<lparr>o_DueAt := 0\<rparr>) = exchange s x i" using wf_pending [OF w Some] by (simp add: key_of_def)
    from wf_put_key [OF w this] Some Op_ExpediteDue show ?thesis by (simp add: apply_op_def ExpediteDue_def Let_def)
  qed (use w Op_ExpediteDue in \<open>simp add: apply_op_def ExpediteDue_def Let_def\<close>)
next
  case (Op_Due now)
  assume w: "wf_tracker t"
  from wf_filter [OF w, of "\<lambda>p. now < o_DueAt (snd p)"] w Op_Due show ?thesis
    by (auto simp: apply_op_def Due_def wf_tracker_def)
qed (auto simp: apply_op_def Discharge_def LookupAndDischarge_def Let_def delete_key_def intro: wf_filter split: option.split)

lemma tracked_put_key:
  assumes "wf_tracker t" "map_of (t_pending t) k = Some u"
  shows "tracked (t\<lparr>t_pending := put_key k v (t_pending t)\<rparr>) + {#ack_id u#} = tracked t + {#ack_id v#}"
proof -
  have "distinct (map fst (t_pending t))" using assms(1) by (simp add: wf_tracker_def)
  from image_put_key [OF this assms(2), of "\<lambda>p. ack_id (snd p)" v] show ?thesis
    by (simp add: tracked_def)
qed

lemma tracked_delete_key:
  assumes "wf_tracker t" "map_of (t_pending t) k = Some u"
  shows "tracked (t\<lparr>t_pending := delete_key k (t_pending t)\<rparr>) + {#ack_id u#} = tracked t"
proof -
  have "distinct (map fst (t_pending t))" using assms(1) by (simp add: wf_tracker_def)
  from image_delete_key [OF this assms(2), of "\<lambda>p. ack_id (snd p)"] show ?thesis
    by (simp add: tracked_def)
qed

lemma tracked_displace:
  "tracked (t\<lparr>t_displaced := t_displaced t @ [o1], t_pending := m\<rparr>) = tracked (t\<lparr>t_pending := m\<rparr>) + {#ack_id o1#}"
  by (simp add: tracked_def)

lemma ack_id_due [simp]: "ack_id (o1\<lparr>o_DueAt := d\<rparr>) = ack_id o1"
  by (simp add: ack_id_def key_of_def)

lemma tracked_Owe:
  assumes w: "wf_tracker t"
  shows "tracked (Owe t c s x i now) = tracked t + owed_by t (Op_Owe c s x i now)"
proof (cases "map_of (t_pending t) (exchange s x i)")
  case None
  then show ?thesis
    by (simp add: Owe_def owed_by_def put_key_fresh tracked_def ack_id_def key_of_def Let_def)
next
  case (Some prev)
  let ?n = "\<lparr>o_AckCounter = c, o_SessionID = s, o_ExchangeID = x, o_Initiator = i, o_DueAt = now + t_delay t\<rparr>"
  have "ack_id ?n = (exchange s x i, c)" by (simp add: ack_id_def key_of_def)
  with tracked_put_key [OF w Some, of ?n] Some show ?thesis
    by (simp add: Owe_def owed_by_def tracked_displace Let_def)
qed

lemma mset_filter_split: "image_mset f (mset (filter P m)) + image_mset f (mset (filter (\<lambda>p. \<not> P p) m)) = image_mset f (mset m)"
  by (induction m) auto

lemma tracked_Due: "tracked (snd (Due t now)) + image_mset ack_id (mset (fst (Due t now))) = tracked t"
  using mset_filter_split [of "\<lambda>p. ack_id (snd p)" "\<lambda>p. now < o_DueAt (snd p)" "t_pending t"]
  by (simp add: Due_def tracked_def image_mset.compositionality comp_def)

lemma conservation_step:
  assumes w: "wf_tracker t"
  shows "tracked (apply_op t op) + settled_by t op = tracked t + owed_by t op"
proof (cases op)
  case (Op_Owe c s x i now)
  with tracked_Owe [OF w] show ?thesis by (simp add: apply_op_def settled_by_def)
next
  case (Op_Due now)
  with tracked_Due [of t now] show ?thesis by (simp add: apply_op_def settled_by_def owed_by_def)
next
  case (Op_ExpediteDue s x i)
  have "tracked (t\<lparr>t_pending := put_key (exchange s x i) (o1\<lparr>o_DueAt := 0\<rparr>) (t_pending t)\<rparr>) = tracked t"
    if "map_of (t_pending t) (exchange s x i) = Some o1" for o1
    using tracked_put_key [OF w that, of "o1\<lparr>o_DueAt := 0\<rparr>"] by simp
  with Op_ExpediteDue show ?thesis
    by (auto simp: apply_op_def settled_by_def owed_by_def ExpediteDue_def Let_def split: option.split)
next
  case (Op_Discharge s x i)
  then show ?thesis
    using tracked_delete_key [OF w, of "exchange s x i"] wf_pending [OF w, of "exchange s x i"]
    by (auto simp: apply_op_def settled_by_def owed_by_def Discharge_def Let_def pending_ack_def ack_id_def split: option.split)
next
  case (Op_LookupAndDischarge s x i)
  then show ?thesis
    using tracked_delete_key [OF w, of "exchange s x i"] wf_pending [OF w, of "exchange s x i"]
    by (auto simp: apply_op_def settled_by_def owed_by_def LookupAndDischarge_def Let_def ack_id_def split: option.split)
qed

lemma conservation:
  "wf_tracker t \<Longrightarrow> wf_tracker (run_ops t ops) \<and> tracked (run_ops t ops) + all_settled t ops = tracked t + all_owed t ops"
proof (induction ops arbitrary: t)
  case (Cons op ops)
  from Cons.IH [OF apply_op_wf [OF Cons.prems, of op]] conservation_step [OF Cons.prems, of op]
  show ?case by simp (metis add.assoc add.left_commute)
qed simp

lemma put_key_other: "(k, o1) \<in> set m \<Longrightarrow> k \<noteq> k' \<Longrightarrow> (k, o1) \<in> set (put_key k' v m)"
  by (induction m) auto

lemma put_key_here: "(k, v) \<in> set (put_key k v m)"
  by (induction m) auto

lemma pending_lookup: "wf_tracker t \<Longrightarrow> (k, o1) \<in> set (t_pending t) \<Longrightarrow> map_of (t_pending t) k = Some o1"
  by (simp add: wf_tracker_def)

text \<open>An obligation survives an operation: it is held, with a deadline no later than before.\<close>

definition kept_in :: "ack_tracker \<Rightarrow> ack_obligation \<Rightarrow> bool" where
  "kept_in t o1 \<longleftrightarrow> (\<exists>o2 \<in> snd ` set (t_pending t) \<union> set (t_displaced t).
     ack_id o2 = ack_id o1 \<and> o_DueAt o2 \<le> o_DueAt o1)"

lemma kept_pending: "(k, o2) \<in> set (t_pending t) \<Longrightarrow> ack_id o2 = ack_id o1 \<Longrightarrow> o_DueAt o2 \<le> o_DueAt o1 \<Longrightarrow> kept_in t o1"
  unfolding kept_in_def by force

lemma kept_displaced: "o2 \<in> set (t_displaced t) \<Longrightarrow> ack_id o2 = ack_id o1 \<Longrightarrow> o_DueAt o2 \<le> o_DueAt o1 \<Longrightarrow> kept_in t o1"
  unfolding kept_in_def by auto

lemma Owe_keeps:
  assumes w: "wf_tracker t" and m: "(k, o1) \<in> set (t_pending t)"
  shows "kept_in (Owe t c s x i now) o1"
proof (cases "k = exchange s x i")
  case True
  then have "map_of (t_pending t) (exchange s x i) = Some o1" using pending_lookup [OF w m] by simp
  then show ?thesis
    by (auto simp: Owe_def Let_def intro: kept_displaced [where ?o2.0 = "o1\<lparr>o_DueAt := 0\<rparr>"] kept_pending [OF m])
next
  case False
  let ?n = "\<lparr>o_AckCounter = c, o_SessionID = s, o_ExchangeID = x, o_Initiator = i, o_DueAt = now + t_delay t\<rparr>"
  have "(k, o1) \<in> set (put_key (exchange s x i) ?n (t_pending t))" by (rule put_key_other [OF m False])
  then show ?thesis using m
    by (auto simp: Owe_def Let_def split: option.split intro!: kept_pending [where k = k])
qed

lemma ExpediteDue_keeps:
  assumes w: "wf_tracker t" and m: "(k, o1) \<in> set (t_pending t)"
  shows "kept_in (snd (ExpediteDue t s x i)) o1"
proof (cases "k = exchange s x i")
  case True
  then have "map_of (t_pending t) (exchange s x i) = Some o1" using pending_lookup [OF w m] by simp
  then show ?thesis
    by (auto simp: ExpediteDue_def Let_def put_key_here
        intro!: kept_pending [where k = "exchange s x i" and ?o2.0 = "o1\<lparr>o_DueAt := 0\<rparr>"])
next
  case False
  with m show ?thesis
    by (auto simp: ExpediteDue_def Let_def split: option.split intro!: kept_pending [where k = k] put_key_other)
qed

lemma settled_or_kept:
  assumes w: "wf_tracker t" and m: "(k, o1) \<in> set (t_pending t)"
  shows "ack_id o1 \<in># settled_by t op \<or> kept_in (apply_op t op) o1"
proof (cases op)
  case (Op_Owe c s x i now)
  with Owe_keeps [OF w m] show ?thesis by (simp add: apply_op_def)
next
  case (Op_ExpediteDue s x i)
  with ExpediteDue_keeps [OF w m] show ?thesis by (simp add: apply_op_def)
next
  case (Op_Due now)
  show ?thesis
  proof (cases "now < o_DueAt o1")
    case True
    with m Op_Due show ?thesis by (auto simp: apply_op_def Due_def intro!: kept_pending [where k = k])
  next
    case False
    with m Op_Due show ?thesis by (force simp: settled_by_def Due_def)
  qed
next
  case (Op_Discharge s x i)
  with m pending_lookup [OF w m] wf_pending [OF w pending_lookup [OF w m]] show ?thesis
    by (cases "k = exchange s x i")
       (auto simp: apply_op_def settled_by_def Discharge_def Let_def pending_ack_def ack_id_def delete_key_def
          split: option.split intro!: kept_pending [where k = k])
next
  case (Op_LookupAndDischarge s x i)
  with m pending_lookup [OF w m] wf_pending [OF w pending_lookup [OF w m]] show ?thesis
    by (cases "k = exchange s x i")
       (auto simp: apply_op_def settled_by_def LookupAndDischarge_def Let_def ack_id_def delete_key_def
          split: option.split intro!: kept_pending [where k = k])
qed

section \<open>Properties\<close>

text \<open>
  C15. Whatever the sequence of operations on a fresh tracker, every exchange has at most one
  pending obligation, stored under its own key, and no acknowledgement is lost or duplicated:
  those owed are exactly those handed out once and those still tracked.
\<close>

theorem acks_conserved:
  "let t = run_ops (NewAckTracker delay) ops in
     wf_tracker t \<and> all_owed (NewAckTracker delay) ops = all_settled (NewAckTracker delay) ops + tracked t"
proof -
  have "wf_tracker (NewAckTracker delay)" "tracked (NewAckTracker delay) = {#}"
    by (simp_all add: wf_tracker_def tracked_def NewAckTracker_def)
  with conservation [of "NewAckTracker delay" ops] show ?thesis by (simp add: Let_def add.commute)
qed


text \<open>
  C39. No operation postpones a pending acknowledgement: it is handed to the caller, or it is
  still tracked with a deadline no later than before. In particular a repeated \<open>Owe\<close> of a
  retransmitted message does not slide the deadline.
\<close>

theorem deadline_not_postponed:
  assumes "wf_tracker t" and "(k, o1) \<in> set (t_pending t)"
  shows "ack_id o1 \<in># settled_by t op \<or>
    (\<exists>o2 \<in> snd ` set (t_pending (apply_op t op)) \<union> set (t_displaced (apply_op t op)).
       ack_id o2 = ack_id o1 \<and> o_DueAt o2 \<le> o_DueAt o1)"
  using settled_or_kept [OF assms, of op] by (simp add: kept_in_def)

theorem deadline_not_postponed_witness:
  "let o1 = \<lparr>o_AckCounter = 7, o_SessionID = 1, o_ExchangeID = 2, o_Initiator = True, o_DueAt = 200\<rparr>;
       t = \<lparr>t_pending = [(exchange 1 2 True, o1)], t_displaced = [], t_delay = 200\<rparr> in
     ack_id o1 \<in># settled_by t (Op_Owe 7 1 2 True 100) \<or>
     (\<exists>o2 \<in> snd ` set (t_pending (apply_op t (Op_Owe 7 1 2 True 100))) \<union> set (t_displaced (apply_op t (Op_Owe 7 1 2 True 100))).
        ack_id o2 = ack_id o1 \<and> o_DueAt o2 \<le> 200)"
  unfolding Let_def
  using deadline_not_postponed [where k = "exchange 1 2 True" and op = "Op_Owe 7 1 2 True 100" and
      t = "\<lparr>t_pending = [(exchange 1 2 True, \<lparr>o_AckCounter = 7, o_SessionID = 1, o_ExchangeID = 2, o_Initiator = True, o_DueAt = 200\<rparr>)],
             t_displaced = [], t_delay = 200\<rparr>" and
      ?o1.0 = "\<lparr>o_AckCounter = 7, o_SessionID = 1, o_ExchangeID = 2, o_Initiator = True, o_DueAt = 200\<rparr>"]
  by (simp add: wf_tracker_def key_of_def)

end
