(* ===== verification/Setup.thy ===== *)
theory Setup
  imports Tlv_Walk Wire
begin

text \<open>
  Onboarding payloads (\<^verbatim>\<open>secure/setup/setup.go\<close> and \<^verbatim>\<open>secure/setup/decode.go\<close>): the QR code
  with its base-38 text, the manual pairing code with its Verhoeff check digit, and the TLV
  tail of a QR code. Go strings are byte lists. An error of the encoders is a constructor per
  message; a decoding error is \<open>ErrInvalidCode\<close> with the reason its message gives.
\<close>

unbundle bit_operations_syntax

definition ascii :: "string \<Rightarrow> bytes" where
  "ascii s = map of_char s"

datatype invalid_reason =
    Missing_Prefix | Payload_Count nat | Too_Few_Bytes | Unsupported_Version | Invalid_Passcode
  | Invalid_Vendor | Invalid_Product | Vendor_Without_Product
  | Base38_Length | Base38_Character nat | Base38_Overflow nat
  | Tlv_Data tlv_error | Not_Structure | Not_Context_Tag | Reserved_Tag | Trailing_Bytes | Pbkdf_Pair
  | Bad_Serial | Bad_Iterations | Bad_Salt | Bad_Devices | Bad_Timeout
  | Code_Length | Bad_Digit | Bad_Checksum | Long_Without_Flag | Short_With_Flag

datatype setup_error =
    ErrInvalidCode invalid_reason
  | Version_Width | CustomFlow_Width | Discriminator_Width | Passcode_Range
  | Version_Unsupported | Passcode_Invalid | Code_Too_Long | Assembled_Digits | Non_Decimal

abbreviation invalid :: "invalid_reason \<Rightarrow> (setup_error, 'a) go" where
  "invalid r \<equiv> Inl (Fail (ErrInvalidCode r))"

section \<open>Passcodes\<close>

definition trivialPINs :: "u32 list" where
  "trivialPINs = [0, 11111111, 22222222, 33333333, 44444444, 55555555, 66666666, 77777777, 88888888,
     99999999, 12345678, 87654321]"

definition IsValidSetupPIN :: "u32 \<Rightarrow> bool" where
  "IsValidSetupPIN passcode =
     (if passcode = 0 \<or> passcode > 99999998 then False
      else \<not> list_ex (\<lambda>banned. passcode = banned) trivialPINs)"

definition IsValidPasscode :: "u32 \<Rightarrow> bool" where
  "IsValidPasscode passcode = IsValidSetupPIN passcode"

section \<open>Base 38\<close>

definition base38Alphabet :: bytes where
  "base38Alphabet = ascii ''0123456789ABCDEFGHIJKLMNOPQRSTUVWXYZ-.''"

fun encode_group :: "nat \<Rightarrow> u32 \<Rightarrow> bytes" where
  "encode_group 0 v = []"
| "encode_group (Suc n) v = base38Alphabet ! unat (v mod 38) # encode_group n (v div 38)"

fun base38Encode :: "bytes \<Rightarrow> bytes" where
  "base38Encode (a # b # c # r) =
     encode_group 5 (ucast a OR push_bit 8 (ucast b) OR push_bit 16 (ucast c)) @ base38Encode r"
| "base38Encode [a, b] = encode_group 4 (ucast a OR push_bit 8 (ucast b))"
| "base38Encode [a] = encode_group 2 (ucast a)"
| "base38Encode [] = []"

text \<open>\<open>strings.IndexByte\<close>; \<open>None\<close> is -1.\<close>

fun IndexByte :: "bytes \<Rightarrow> byte \<Rightarrow> nat option" where
  "IndexByte [] c = None"
| "IndexByte (x # xs) c = (if x = c then Some 0 else map_option Suc (IndexByte xs c))"

text \<open>The loop over the characters of a group, the last one first: \<open>i\<close> characters are left.\<close>

fun group_value :: "bytes \<Rightarrow> nat \<Rightarrow> nat \<Rightarrow> u32 \<Rightarrow> (setup_error, u32) go" where
  "group_value s off 0 v = Inr v"
| "group_value s off (Suc i) v =
     and_then (index s (off + i)) (\<lambda>ch.
       case IndexByte base38Alphabet ch of
         None \<Rightarrow> invalid (Base38_Character (off + i))
       | Some c \<Rightarrow> group_value s off i (v * 38 + word_of_nat c))"

definition decode_group :: "bytes \<Rightarrow> nat \<Rightarrow> nat \<Rightarrow> nat \<Rightarrow> (setup_error, bytes) go" where
  "decode_group s off chars n =
     and_then (group_value s off chars 0) (\<lambda>v.
       if v \<ge> push_bit (8 * n) 1 then invalid (Base38_Overflow off)
       else Inr (map (\<lambda>i. ucast (drop_bit (8 * i) v)) [0..<n]))"

function base38_loop :: "bytes \<Rightarrow> nat \<Rightarrow> bytes \<Rightarrow> (setup_error, bytes) go" where
  "base38_loop s off out =
     (if off < length s then
        (let rem = length s - off in
         if rem \<ge> 5 then and_then (decode_group s off 5 3) (\<lambda>g. base38_loop s (off + 5) (out @ g))
         else if rem = 4 then and_then (decode_group s off 4 2) (\<lambda>g. base38_loop s (off + 4) (out @ g))
         else and_then (decode_group s off 2 1) (\<lambda>g. base38_loop s (off + 2) (out @ g)))
      else Inr out)"
  by pat_completeness auto
termination by (relation "measure (\<lambda>(s, off, out). length s - off)") auto

declare base38_loop.simps [simp del]

definition base38Decode :: "bytes \<Rightarrow> (setup_error, bytes) go" where
  "base38Decode s =
     (if length s mod 5 \<in> {0, 2, 4} then base38_loop s 0 [] else invalid Base38_Length)"

section \<open>Onboarding payloads\<close>

record extra =
  x_Raw :: bytes
  x_SerialNumber :: bytes
  x_SerialNumberNumeric :: bool
  x_PBKDFIterations :: u32
  x_PBKDFSalt :: bytes
  x_NumberOfDevices :: byte
  x_CommissioningTimeout :: u16
  x_HasCommissioningTimeout :: bool
  x_Vendor :: "byte \<Rightarrow> bytes option"

definition raw_extra :: "bytes \<Rightarrow> extra" where
  "raw_extra b = \<lparr>x_Raw = b, x_SerialNumber = [], x_SerialNumberNumeric = False, x_PBKDFIterations = 0,
     x_PBKDFSalt = [], x_NumberOfDevices = 0, x_CommissioningTimeout = 0,
     x_HasCommissioningTimeout = False, x_Vendor = (\<lambda>_. None)\<rparr>"

record payload =
  q_Version :: byte
  q_VendorID :: u16
  q_ProductID :: u16
  q_CustomFlow :: byte
  q_DiscoveryCaps :: byte
  q_Discriminator :: u16
  q_Passcode :: u32
  q_Extra :: "extra option"

definition MaxDiscriminator :: u16 where "MaxDiscriminator = 0x0FFF"

definition Payload_Validate :: "payload \<Rightarrow> (setup_error, unit) go" where
  "Payload_Validate p =
     (if q_Version p > 0x07 then Inl (Fail Version_Width)
      else if q_CustomFlow p > 0x03 then Inl (Fail CustomFlow_Width)
      else if q_Discriminator p > MaxDiscriminator then Inl (Fail Discriminator_Width)
      else if q_Passcode p = 0 \<or> q_Passcode p > 99999998 then Inl (Fail Passcode_Range)
      else Inr ())"

definition qrPrefix :: bytes where "qrPrefix = ascii ''MT:''"

definition MaxQRCodeLength :: nat where "MaxQRCodeLength = 255"

text \<open>The \<open>put\<close> closure: the big integer and the position of the next field.\<close>

definition put_bits :: "nat \<times> nat \<Rightarrow> nat \<times> nat \<Rightarrow> nat \<times> nat" where
  "put_bits = (\<lambda>(bits, pos) (v, width). (bits OR push_bit pos v, pos + width))"

definition header_bits :: "payload \<Rightarrow> nat" where
  "header_bits p = fst (foldl put_bits (0, 0)
     [(unat (q_Version p), 3), (unat (q_VendorID p), 16), (unat (q_ProductID p), 16),
      (unat (q_CustomFlow p), 2), (unat (q_DiscoveryCaps p), 8), (unat (q_Discriminator p), 12),
      (unat (q_Passcode p), 27), (0, 4)])"

definition qrEncode :: "payload \<Rightarrow> (setup_error, bytes) go" where
  "qrEncode p =
     (let raw = le_bytes 11 (header_bits p) @ (case q_Extra p of None \<Rightarrow> [] | Some e \<Rightarrow> x_Raw e);
          code = qrPrefix @ base38Encode raw
      in if length code > MaxQRCodeLength then Inl (Fail Code_Too_Long) else Inr code)"

definition qrCode :: "payload \<Rightarrow> bool \<Rightarrow> (setup_error, bytes) go" where
  "qrCode p check =
     and_then (Payload_Validate p) (\<lambda>_.
       if \<not> check then qrEncode p
       else if q_Version p \<noteq> 0 then Inl (Fail Version_Unsupported)
       else if \<not> IsValidSetupPIN (q_Passcode p) then Inl (Fail Passcode_Invalid)
       else qrEncode p)"

definition QRCode :: "payload \<Rightarrow> (setup_error, bytes) go" where
  "QRCode p = qrCode p True"

section \<open>TLV tail\<close>

definition tlv_fault :: "tlv_error fault \<Rightarrow> setup_error fault" where
  "tlv_fault f = (case f of Fail e \<Rightarrow> Fail (ErrInvalidCode (Tlv_Data e)) | Panic \<Rightarrow> Panic)"

function skipRest_loop :: "nat \<Rightarrow> (decoder, setup_error, unit) reader" where
  "skipRest_loop depth d =
     (if depth = 0 then (Inr (), d)
      else (case Next d of (r, d') \<Rightarrow> (case r of
          Inl f \<Rightarrow> (Inl (tlv_fault f), d')
        | Inr el \<Rightarrow>
            if el_IsEndContainer el then skipRest_loop (depth - 1) d'
            else if el_IsContainer el then skipRest_loop (depth + 1) d'
            else skipRest_loop depth d')))"
  by pat_completeness auto
termination
proof (relation "measure (\<lambda>(depth, d). length (dec_buf d) - dec_pos d)", goal_cases)
  case (2 depth d r d' el)
  then show ?case using tlv_cursor.consumes [of d el d'] by (simp add: eq_commute [of _ "Next d"])
next
  case (3 depth d r d' el)
  then show ?case using tlv_cursor.consumes [of d el d'] by (simp add: eq_commute [of _ "Next d"])
next
  case (4 depth d r d' el)
  then show ?case using tlv_cursor.consumes [of d el d'] by (simp add: eq_commute [of _ "Next d"])
qed simp

declare skipRest_loop.simps [simp del]

definition skipRest :: "(decoder, setup_error, unit) reader" where
  "skipRest = skipRest_loop 1"

definition pbkdfIterationsMin :: u64 where "pbkdfIterationsMin = 1000"
definition pbkdfIterationsMax :: u64 where "pbkdfIterationsMax = 100000"

text \<open>Decimal digits of a number, as \<open>strconv.FormatUint\<close> and \<open>%d\<close> write them.\<close>

fun decimal :: "nat \<Rightarrow> bytes" where
  "decimal n = (if n < 10 then [word_of_nat (48 + n)] else decimal (n div 10) @ [word_of_nat (48 + n mod 10)])"

declare decimal.simps [simp del]

definition setDefault :: "extra \<Rightarrow> u32 \<Rightarrow> element \<Rightarrow> (setup_error, extra) go" where
  "setDefault e tg el =
     (let isUint = el_Type el \<ge> TypeUnsignedInt1 \<and> el_Type el \<le> TypeUnsignedInt8 in
      if tg = 0x00 then
        (if el_Type el \<ge> TypeUTF8Str1 \<and> el_Type el \<le> TypeUTF8Str8 then
           Inr (e\<lparr>x_SerialNumber := el_String el\<rparr>)
         else if isUint then
           Inr (e\<lparr>x_SerialNumber := decimal (unat (el_Uint el)), x_SerialNumberNumeric := True\<rparr>)
         else invalid Bad_Serial)
      else if tg = 0x01 then
        (if \<not> isUint \<or> el_Uint el < pbkdfIterationsMin \<or> el_Uint el > pbkdfIterationsMax then
           invalid Bad_Iterations
         else Inr (e\<lparr>x_PBKDFIterations := ucast (el_Uint el)\<rparr>))
      else if tg = 0x02 then
        (if el_Type el < TypeOctetStr1 \<or> el_Type el > TypeOctetStr8
            \<or> length (el_Octets el) < 16 \<or> length (el_Octets el) > 32 then invalid Bad_Salt
         else Inr (e\<lparr>x_PBKDFSalt := el_Octets el\<rparr>))
      else if tg = 0x03 then
        (if \<not> isUint \<or> el_Uint el < 1 \<or> el_Uint el > 0xFF then invalid Bad_Devices
         else Inr (e\<lparr>x_NumberOfDevices := ucast (el_Uint el)\<rparr>))
      else if tg = 0x04 then
        (if \<not> isUint \<or> el_Uint el > 0xFFFF then invalid Bad_Timeout
         else Inr (e\<lparr>x_CommissioningTimeout := ucast (el_Uint el), x_HasCommissioningTimeout := True\<rparr>))
      else Inr e)"

definition skip_if_container :: "element \<Rightarrow> (decoder, setup_error, unit) reader" where
  "skip_if_container el d = (if el_IsContainer el then skipRest d else (Inr (), d))"

lemma skipRest_loop_moves:
  "skipRest_loop depth d = (Inr u, d') \<Longrightarrow> dec_buf d' = dec_buf d \<and> dec_pos d \<le> dec_pos d'"
proof (induction depth d rule: skipRest_loop.induct)
  case (1 depth d)
  obtain r d1 where n: "Next d = (r, d1)" by (cases "Next d")
  show ?case
  proof (cases r)
    case (Inl f)
    with n "1.prems" show ?thesis by (simp add: skipRest_loop.simps [of depth d] split: if_splits)
  next
    case (Inr el)
    then have c: "dec_buf d1 = dec_buf d" "dec_pos d \<le> dec_pos d1"
      using Next_consumes [of d el d1] n by simp_all
    show ?thesis
      using "1.IH" [OF _ n [symmetric] Inr] "1.prems" c n Inr
      by (simp add: skipRest_loop.simps [of depth d] split: if_splits)
  qed
qed

lemma skip_if_container_moves:
  "skip_if_container el d = (Inr u, d') \<Longrightarrow> dec_buf d' = dec_buf d \<and> dec_pos d \<le> dec_pos d'"
  using skipRest_loop_moves [of 1 d u d'] by (auto simp: skip_if_container_def skipRest_def split: if_splits)

text \<open>The loop over the members of the structure; \<open>b\<close> is the whole buffer.\<close>

function extra_loop :: "bytes \<Rightarrow> extra \<Rightarrow> (decoder, setup_error, extra) reader" where
  "extra_loop b e d =
     (let start = dec_pos d in
      case Next d of (r, d1) \<Rightarrow> (case r of
        Inl f \<Rightarrow> (Inl (tlv_fault f), d1)
      | Inr el \<Rightarrow>
          if el_IsEndContainer el then (Inr e, d1)
          else if tag_Kind (el_Tag el) \<noteq> TagKindContext then (invalid Not_Context_Tag, d1)
          else (let tg = tag_Number (el_Tag el) in
            if tg > 0x04 \<and> tg < 0x80 then (invalid Reserved_Tag, d1)
            else (case skip_if_container el d1 of (s, d2) \<Rightarrow> (case s of
                Inl f \<Rightarrow> (Inl f, d2)
              | Inr _ \<Rightarrow>
                  if tg \<ge> 0x80 then
                    (case slice b start (dec_pos d2) of
                       Inl f \<Rightarrow> (Inl f, d2)
                     | Inr v \<Rightarrow> extra_loop b (e\<lparr>x_Vendor := (x_Vendor e)(ucast tg := Some v)\<rparr>) d2)
                  else (case setDefault e tg el of
                      Inl f \<Rightarrow> (Inl f, d2)
                    | Inr e' \<Rightarrow> extra_loop b e' d2))))))"
  by pat_completeness auto
termination
proof (relation "measure (\<lambda>(b, e, d). length (dec_buf d) - dec_pos d)", goal_cases)
  case (2 b e d start r d1 el tg s d2 u v)
  have "dec_buf d1 = dec_buf d" "dec_pos d < dec_pos d1" "dec_pos d1 \<le> length (dec_buf d)"
    using Next_consumes [of d el d1] 2(2,3) by simp_all
  moreover have "dec_buf d2 = dec_buf d1 \<and> dec_pos d1 \<le> dec_pos d2"
    using skip_if_container_moves [of el d1 u d2] 2(8,9) by simp
  ultimately show ?case by auto
next
  case (3 b e d start r d1 el tg s d2 u e')
  have "dec_buf d1 = dec_buf d" "dec_pos d < dec_pos d1" "dec_pos d1 \<le> length (dec_buf d)"
    using Next_consumes [of d el d1] 3(2,3) by simp_all
  moreover have "dec_buf d2 = dec_buf d1 \<and> dec_pos d1 \<le> dec_pos d2"
    using skip_if_container_moves [of el d1 u d2] 3(8,9) by simp
  ultimately show ?case by auto
qed simp

declare extra_loop.simps [simp del]

definition DecodeExtra :: "bytes \<Rightarrow> (setup_error, extra) go" where
  "DecodeExtra b =
     (case Next (NewDecoder b) of (r, d) \<Rightarrow> (case r of
        Inl f \<Rightarrow> Inl (tlv_fault f)
      | Inr opener \<Rightarrow>
          if el_Type opener \<noteq> TypeStructure then invalid Not_Structure
          else (case extra_loop b (raw_extra b) d of (s, d') \<Rightarrow>
            and_then s (\<lambda>e.
              if Remaining d' \<noteq> 0 then invalid Trailing_Bytes
              else if (x_PBKDFIterations e = 0) \<noteq> (x_PBKDFSalt e = []) then invalid Pbkdf_Pair
              else Inr e))))"

section \<open>Decoding a QR code\<close>

definition maxVendorID :: u32 where "maxVendorID = 0xFFF4"

definition assertValidPayloadIdentity :: "u32 \<Rightarrow> u32 \<Rightarrow> (setup_error, unit) go" where
  "assertValidPayloadIdentity vendorID productID =
     (if vendorID \<noteq> 0 \<and> vendorID > maxVendorID then invalid Invalid_Vendor
      else if productID > 0xFFFF then invalid Invalid_Product
      else if productID = 0 \<and> vendorID \<noteq> 0 then invalid Vendor_Without_Product
      else Inr ())"

text \<open>The two 64-bit halves of the header, and the \<open>field\<close> closure over them.\<close>

definition load_bits :: "bytes \<Rightarrow> nat \<Rightarrow> nat \<Rightarrow> u64" where
  "load_bits data lo hi = fold (\<lambda>i v. v OR push_bit (8 * (i - lo)) (ucast (data ! i))) [lo..<hi] 0"

definition field :: "u64 list \<Rightarrow> nat \<Rightarrow> nat \<Rightarrow> u64" where
  "field bits offset width =
     fold (\<lambda>b v. let pos = offset + b in
             if drop_bit (pos mod 64) (bits ! (pos div 64)) AND 1 = 1 then v OR push_bit b 1 else v)
       [0..<width] 0"

definition decode_header :: "bytes \<Rightarrow> payload" where
  "decode_header data =
     (let bits = [load_bits data 0 8, load_bits data 8 11] in
      \<lparr>q_Version = ucast (field bits 0 3), q_VendorID = ucast (field bits 3 16),
       q_ProductID = ucast (field bits 19 16), q_CustomFlow = ucast (field bits 35 2),
       q_DiscoveryCaps = ucast (field bits 37 8), q_Discriminator = ucast (field bits 45 12),
       q_Passcode = ucast (field bits 57 27), q_Extra = None\<rparr>)"

definition decode_tail :: "bytes \<Rightarrow> (setup_error, extra) go" where
  "decode_tail b = (case DecodeExtra b of
      Inl (Fail _) \<Rightarrow> Inr (raw_extra b)
    | Inl Panic \<Rightarrow> Inl Panic
    | Inr e \<Rightarrow> Inr e)"

definition decodeQRPart :: "bytes \<Rightarrow> (setup_error, payload) go" where
  "decodeQRPart part =
     and_then (base38Decode part) (\<lambda>data.
       if length data < 11 then invalid Too_Few_Bytes
       else
         (let p = decode_header data in
          if q_Version p \<noteq> 0 then invalid Unsupported_Version
          else if \<not> IsValidPasscode (q_Passcode p) then invalid Invalid_Passcode
          else and_then (assertValidPayloadIdentity (ucast (q_VendorID p)) (ucast (q_ProductID p))) (\<lambda>_.
            if length data > 11 then
              and_then (decode_tail (drop 11 data)) (\<lambda>x. Inr (p\<lparr>q_Extra := Some x\<rparr>))
            else Inr p)))"

text \<open>\<open>strings.Split\<close> with a one-byte separator.\<close>

fun split_on :: "byte \<Rightarrow> bytes \<Rightarrow> bytes list" where
  "split_on c [] = [[]]"
| "split_on c (x # xs) =
     (case split_on c xs of
        [] \<Rightarrow> [[x]]
      | part # parts \<Rightarrow> if x = c then [] # part # parts else (x # part) # parts)"

fun decode_parts :: "bytes list \<Rightarrow> (setup_error, payload list) go" where
  "decode_parts [] = Inr []"
| "decode_parts (part # parts) =
     and_then (decodeQRPart part) (\<lambda>p. and_then (decode_parts parts) (\<lambda>ps. Inr (p # ps)))"

definition DecodeQRCodes :: "bytes \<Rightarrow> (setup_error, payload list) go" where
  "DecodeQRCodes s =
     (if take (length qrPrefix) s \<noteq> qrPrefix then invalid Missing_Prefix
      else decode_parts (split_on 0x2A (drop (length qrPrefix) s)))"

definition DecodeQRCode :: "bytes \<Rightarrow> (setup_error, payload) go" where
  "DecodeQRCode s =
     and_then (DecodeQRCodes s) (\<lambda>ps.
       if length ps \<noteq> 1 then invalid (Payload_Count (length ps)) else Inr (ps ! 0))"

section \<open>Manual pairing code\<close>

definition verhoeffTableD :: "nat list list" where
  "verhoeffTableD = [
     [0, 1, 2, 3, 4, 5, 6, 7, 8, 9],
     [1, 2, 3, 4, 0, 6, 7, 8, 9, 5],
     [2, 3, 4, 0, 1, 7, 8, 9, 5, 6],
     [3, 4, 0, 1, 2, 8, 9, 5, 6, 7],
     [4, 0, 1, 2, 3, 9, 5, 6, 7, 8],
     [5, 9, 8, 7, 6, 0, 4, 3, 2, 1],
     [6, 5, 9, 8, 7, 1, 0, 4, 3, 2],
     [7, 6, 5, 9, 8, 2, 1, 0, 4, 3],
     [8, 7, 6, 5, 9, 3, 2, 1, 0, 4],
     [9, 8, 7, 6, 5, 4, 3, 2, 1, 0]]"

definition verhoeffTableP :: "nat list list" where
  "verhoeffTableP = [
     [0, 1, 2, 3, 4, 5, 6, 7, 8, 9],
     [1, 5, 7, 6, 2, 8, 3, 0, 9, 4],
     [5, 8, 0, 3, 7, 9, 6, 1, 4, 2],
     [8, 9, 1, 6, 0, 4, 3, 5, 2, 7],
     [9, 4, 5, 3, 1, 2, 6, 8, 7, 0],
     [4, 2, 8, 6, 5, 7, 3, 9, 0, 1],
     [2, 7, 9, 3, 8, 0, 6, 4, 1, 5],
     [7, 0, 4, 6, 9, 1, 3, 2, 5, 8]]"

definition verhoeffTableInv :: "nat list" where
  "verhoeffTableInv = [0, 4, 3, 2, 1, 5, 6, 7, 8, 9]"

text \<open>The loop of \<open>verhoeffCheck\<close> over the reversed digits, \<open>i\<close> of them done.\<close>

fun verhoeff_loop :: "nat \<Rightarrow> nat \<Rightarrow> bytes \<Rightarrow> (setup_error, nat) go" where
  "verhoeff_loop i c [] = Inr c"
| "verhoeff_loop i c (ch # r) =
     (if ch < 48 \<or> ch > 57 then Inl (Fail Non_Decimal)
      else verhoeff_loop (i + 1)
        (verhoeffTableD ! c ! (verhoeffTableP ! ((i + 1) mod 8) ! unat (ch - 48))) r)"

definition verhoeffCheck :: "bytes \<Rightarrow> (setup_error, nat) go" where
  "verhoeffCheck digits = and_then (verhoeff_loop 0 0 (rev digits)) (\<lambda>c. Inr (verhoeffTableInv ! c))"

text \<open>\<open>%0wd\<close>: at least \<open>w\<close> digits, padded with zeros.\<close>

definition padded :: "nat \<Rightarrow> nat \<Rightarrow> bytes" where
  "padded w n = replicate (w - length (decimal n)) 48 @ decimal n"

definition manualCode :: "u16 \<Rightarrow> u32 \<Rightarrow> (u16 \<times> u16) option \<Rightarrow> bool \<Rightarrow> (setup_error, bytes) go" where
  "manualCode discriminator passcode vendorProduct validate =
     (if discriminator > MaxDiscriminator then Inl (Fail Discriminator_Width)
      else if passcode > 99999998 \<or> (validate \<and> \<not> IsValidSetupPIN passcode) then
        Inl (Fail Passcode_Invalid)
      else
        (let upperDisc = ucast (drop_bit 10 discriminator) AND 0x3 :: u32;
             upperDisc = (if vendorProduct \<noteq> None then upperDisc OR push_bit 2 1 else upperDisc);
             midDisc = ucast (drop_bit 8 discriminator) AND 0x3 :: u32;
             d2to6 = push_bit 14 midDisc OR (passcode AND 0x3FFF);
             d7to10 = drop_bit 14 passcode;
             tenDigits = padded 1 (unat upperDisc) @ padded 5 (unat d2to6) @ padded 4 (unat d7to10)
         in if length tenDigits \<noteq> 10 then Inl (Fail Assembled_Digits)
            else
              (let digits = (case vendorProduct of
                     None \<Rightarrow> tenDigits
                   | Some (v, p) \<Rightarrow> tenDigits @ padded 5 (unat v) @ padded 5 (unat p))
               in and_then (verhoeffCheck digits) (\<lambda>check. Inr (digits @ [word_of_nat (48 + check)])))))"

definition ManualCode :: "u16 \<Rightarrow> u32 \<Rightarrow> (setup_error, bytes) go" where
  "ManualCode discriminator passcode = manualCode discriminator passcode None True"

definition ManualCodeLong :: "u16 \<Rightarrow> u32 \<Rightarrow> u16 \<Rightarrow> u16 \<Rightarrow> (setup_error, bytes) go" where
  "ManualCodeLong discriminator passcode vendorID productID =
     manualCode discriminator passcode (Some (vendorID, productID)) True"

record manual_payload =
  m_ShortDiscriminator :: byte
  m_Passcode :: u32
  m_VendorID :: u16
  m_ProductID :: u16
  m_HasVendorProduct :: bool

definition is_digit :: "byte \<Rightarrow> bool" where
  "is_digit c \<longleftrightarrow> 48 \<le> c \<and> c \<le> 57"

text \<open>\<open>num(a, b)\<close>: \<open>strconv.ParseUint\<close> of at most five digits.\<close>

definition decimal_value :: "bytes \<Rightarrow> nat" where
  "decimal_value ds = foldl (\<lambda>v c. 10 * v + unat (c - 48)) 0 ds"

definition num :: "bytes \<Rightarrow> nat \<Rightarrow> nat \<Rightarrow> (setup_error, u32) go" where
  "num code a b = and_then (slice code a b) (\<lambda>ds. Inr (word_of_nat (decimal_value ds)))"

definition manual_fields :: "bytes \<Rightarrow> nat \<Rightarrow> bool \<Rightarrow> (setup_error, manual_payload) go" where
  "manual_fields code first hasVP =
     and_then (num code 1 6) (\<lambda>n1. and_then (num code 6 10) (\<lambda>n2.
     and_then (if hasVP then num code 10 15 else Inr 0) (\<lambda>vid.
     and_then (if hasVP then num code 15 20 else Inr 0) (\<lambda>pid.
       let passcode = (n1 AND 0x3FFF) OR push_bit 14 n2;
           disc = push_bit 2 (word_of_nat first AND 0x03) OR ucast (drop_bit 14 n1 AND 0x3)
       in if \<not> IsValidPasscode passcode then invalid Invalid_Passcode
          else and_then (assertValidPayloadIdentity vid pid) (\<lambda>_.
            if vid > 0xFFFF \<or> pid > 0xFFFF then invalid Invalid_Vendor
            else Inr \<lparr>m_ShortDiscriminator = disc, m_Passcode = passcode, m_VendorID = ucast vid,
                      m_ProductID = ucast pid, m_HasVendorProduct = hasVP\<rparr>)))))"

definition verify_check :: "bytes \<Rightarrow> (setup_error, unit) go" where
  "verify_check code =
     and_then (slice code 0 (length code - 1)) (\<lambda>digits.
       case verhoeffCheck digits of
         Inl Panic \<Rightarrow> Inl Panic
       | Inl (Fail _) \<Rightarrow> invalid Bad_Digit
       | Inr check \<Rightarrow> and_then (index code (length code - 1)) (\<lambda>last.
           if check \<noteq> unat (last - 48) then invalid Bad_Checksum else Inr ()))"

definition DecodeManualCode :: "bytes \<Rightarrow> (setup_error, manual_payload) go" where
  "DecodeManualCode s =
     (let code = filter is_digit s in
      if length code \<noteq> 11 \<and> length code \<noteq> 21 then invalid Code_Length
      else and_then (index code 0) (\<lambda>c0.
        let first = unat (c0 - 48) in
        if first \<ge> 8 then invalid Unsupported_Version
        else and_then (verify_check code) (\<lambda>_.
          let hasVP = bit first 2 in
          if hasVP \<noteq> (length code = 21) then
            invalid (if length code = 21 then Long_Without_Flag else Short_With_Flag)
          else manual_fields code first hasVP)))"

end
