(* ===== verification/Setup_Base38.thy ===== *)
theory Setup_Base38
  imports Setup
begin

text \<open>
  Base 38: the text of a QR code is in bijection with its bytes. A group is a number below
  \<open>256 ^ n\<close> written with as many base-38 digits as that needs; the digits are the
  positions in the alphabet, which has no character twice.
\<close>

unbundle bit_operations_syntax

section \<open>Digits\<close>

fun digits38 :: "nat \<Rightarrow> nat \<Rightarrow> nat list" where
  "digits38 0 v = []"
| "digits38 (Suc n) v = v mod 38 # digits38 n (v div 38)"

fun value38 :: "nat list \<Rightarrow> nat" where
  "value38 [] = 0"
| "value38 (d # ds) = d + 38 * value38 ds"

lemma digits38_length [simp]: "length (digits38 n v) = n"
  by (induction n arbitrary: v) auto

lemma digits38_bound: "d \<in> set (digits38 n v) \<Longrightarrow> d < 38"
  by (induction n arbitrary: v) auto

lemma value38_digits38: "v < 38 ^ n \<Longrightarrow> value38 (digits38 n v) = v"
proof (induction n arbitrary: v)
  case (Suc n)
  have "v div 38 < 38 ^ n" using Suc.prems by (simp add: less_mult_imp_div_less mult.commute)
  with Suc.IH show ?case by simp
qed simp

lemma digits38_value38: "\<forall>d \<in> set ds. d < 38 \<Longrightarrow> digits38 (length ds) (value38 ds) = ds"
  by (induction ds) auto

lemma value38_bound: "\<forall>d \<in> set ds. d < 38 \<Longrightarrow> value38 ds < 38 ^ length ds"
proof (induction ds)
  case (Cons d ds)
  then have "d < 38" "Suc (value38 ds) \<le> 38 ^ length ds" by auto
  then show ?case using mult_le_mono2 [of "Suc (value38 ds)" "38 ^ length ds" 38] by simp
qed simp

lemma value38_snoc: "value38 (ds @ [d]) = value38 ds + d * 38 ^ length ds"
  by (induction ds) auto

section \<open>The alphabet\<close>

lemma base38Alphabet_length [simp]: "length base38Alphabet = 38"
  by (simp add: base38Alphabet_def ascii_def)

lemma base38Alphabet_distinct: "distinct base38Alphabet"
  by code_simp

lemma IndexByte_Some_iff:
  "distinct xs \<Longrightarrow> IndexByte xs c = Some k \<longleftrightarrow> k < length xs \<and> xs ! k = c"
proof (induction xs arbitrary: k)
  case (Cons x xs)
  then show ?case by (cases k) (auto simp: nth_Cons' in_set_conv_nth)
qed simp

lemma alphabet_index: "IndexByte base38Alphabet c = Some k \<longleftrightarrow> k < 38 \<and> base38Alphabet ! k = c"
  using IndexByte_Some_iff [OF base38Alphabet_distinct, of c k] by simp

definition chars :: "nat list \<Rightarrow> bytes" where
  "chars ds = map ((!) base38Alphabet) ds"

lemma chars_inject:
  assumes "\<forall>d \<in> set ds. d < 38" "\<forall>d \<in> set es. d < 38" "chars ds = chars es"
  shows "ds = es"
proof (rule map_inj_on [OF assms(3) [unfolded chars_def]])
  show "inj_on ((!) base38Alphabet) (set ds \<union> set es)"
    using assms(1,2) base38Alphabet_distinct by (auto simp: inj_on_def nth_eq_iff_index_eq)
qed

lemma encode_group_chars: "encode_group n v = chars (digits38 n (unat v))"
  by (induction n arbitrary: v) (auto simp: chars_def unat_mod unat_div)

section \<open>Groups\<close>

lemma group_value_iff:
  "off + n \<le> length s \<Longrightarrow> group_value s off n v = Inr w \<longleftrightarrow>
     (\<exists>ds. length ds = n \<and> (\<forall>d \<in> set ds. d < 38) \<and> chars ds = take n (drop off s) \<and>
        w = v * 38 ^ n + word_of_nat (value38 ds))"
proof (induction n arbitrary: v)
  case (Suc n)
  have i: "index s (off + n) = (Inr (s ! (off + n)) :: (setup_error, byte) go)" using Suc.prems by (simp add: index_def)
  have t: "take (Suc n) (drop off s) = take n (drop off s) @ [s ! (off + n)]"
    using Suc.prems by (simp add: take_Suc_conv_app_nth)
  let ?Q = "\<lambda>d ds. (d < 38 \<and> base38Alphabet ! d = s ! (off + n)) \<and>
     length ds = n \<and> (\<forall>d \<in> set ds. d < 38) \<and> chars ds = take n (drop off s) \<and> w = (v * 38 + word_of_nat d) * 38 ^ n + word_of_nat (value38 ds)"
  have "group_value s off (Suc n) v = Inr w \<longleftrightarrow> (\<exists>d ds. ?Q d ds)"
  proof (cases "IndexByte base38Alphabet (s ! (off + n))")
    case None
    then have "\<nexists>d. d < 38 \<and> base38Alphabet ! d = s ! (off + n)"
      using alphabet_index [of "s ! (off + n)"] by (metis option.distinct(1))
    then show ?thesis using None i by auto
  next
    case (Some k)
    then have k: "d < 38 \<and> base38Alphabet ! d = s ! (off + n) \<longleftrightarrow> d = k" for d
      using alphabet_index [of "s ! (off + n)" d] by auto
    have "group_value s off (Suc n) v = Inr w \<longleftrightarrow> (\<exists>ds. ?Q k ds)"
      using Suc.IH [of "v * 38 + word_of_nat k"] Suc.prems Some i k [of k] by simp
    then show ?thesis unfolding k by simp
  qed
  also have "\<dots> \<longleftrightarrow> (\<exists>ds. length ds = Suc n \<and> (\<forall>d \<in> set ds. d < 38) \<and>
      chars ds = take (Suc n) (drop off s) \<and> w = v * 38 ^ Suc n + word_of_nat (value38 ds))"
  proof
    assume "\<exists>d ds. ?Q d ds"
    then obtain d ds where "?Q d ds" by blast
    then show "\<exists>ds. length ds = Suc n \<and> (\<forall>d \<in> set ds. d < 38) \<and>
      chars ds = take (Suc n) (drop off s) \<and> w = v * 38 ^ Suc n + word_of_nat (value38 ds)"
      unfolding t by (intro exI [of _ "ds @ [d]"]) (auto simp: chars_def value38_snoc algebra_simps)
  next
    assume "\<exists>ds. length ds = Suc n \<and> (\<forall>d \<in> set ds. d < 38) \<and>
      chars ds = take (Suc n) (drop off s) \<and> w = v * 38 ^ Suc n + word_of_nat (value38 ds)"
    then obtain es where es: "length es = Suc n" "\<forall>d \<in> set es. d < 38"
      "chars es = take (Suc n) (drop off s)" "w = v * 38 ^ Suc n + word_of_nat (value38 es)" by blast
    then obtain ds d where d: "es = ds @ [d]" by (cases es rule: rev_exhaust) auto
    show "\<exists>d ds. ?Q d ds"
      using es unfolding t d by (intro exI [of _ d] exI [of _ ds]) (auto simp: chars_def value38_snoc algebra_simps)
  qed
  finally show ?case .
qed (auto simp: chars_def)

lemma le_bytes_map: "le_bytes n v = map (\<lambda>i. word_of_nat (v div 256 ^ i)) [0..<n]"
proof (induction n arbitrary: v)
  case (Suc n)
  have "[0..<Suc n] = 0 # map Suc [0..<n]" by (simp add: map_Suc_upt upt_conv_Cons)
  with Suc show ?case by (simp add: div_mult2_eq comp_def)
qed simp

lemma byte_of_group: "(ucast (drop_bit (8 * i) (v :: u32)) :: byte) = word_of_nat (unat v div 256 ^ i)"
proof -
  have "unat (ucast (drop_bit (8 * i) v) :: byte) = drop_bit (8 * i) (unat v) mod 256"
    using unat_bounds(3) [of v]
    by (simp add: unsigned_ucast_eq unsigned_take_bit_eq take_bit_eq_mod unsigned_drop_bit_eq)
  then show ?thesis
    by (simp add: word_unat_eq_iff unat_of_nat drop_bit_eq_div power_mult)
qed

text \<open>The sizes of the three kinds of group: characters and bytes.\<close>

definition group_size :: "nat \<Rightarrow> nat \<Rightarrow> bool" where
  "group_size c n \<longleftrightarrow> (c, n) \<in> {(5, 3), (4, 2), (2, 1)}"

lemma group_size_fits: "group_size c n \<Longrightarrow> 256 ^ n \<le> (38 :: nat) ^ c \<and> (38 :: nat) ^ c < 2 ^ 32 \<and> n < 4"
  by (auto simp: group_size_def)

lemma decode_group_iff:
  assumes g: "group_size c n" and s: "off + c \<le> length s"
  shows "decode_group s off c n = Inr bs \<longleftrightarrow>
    length bs = n \<and> take c (drop off s) = encode_group c (word_of_nat (le_value bs))"
proof -
  note fits = group_size_fits [OF g]
  have bnd: "v \<ge> push_bit (8 * n) 1 \<longleftrightarrow> unat v \<ge> 256 ^ n" for v :: u32
    using g by (auto simp: group_size_def word_le_nat_alt)
  have e: "encode_group c (word_of_nat k) = chars (digits38 c k)" if "k < 38 ^ c" for k
    using fits that by (simp add: encode_group_chars unat_of_nat)
  have m: "map (\<lambda>i. ucast (drop_bit (8 * i) v)) [0..<n] = le_bytes n (unat v)" for v :: u32
    by (simp add: le_bytes_map byte_of_group)
  have "decode_group s off c n = Inr bs \<longleftrightarrow>
      (\<exists>ds. length ds = c \<and> (\<forall>d \<in> set ds. d < 38) \<and> chars ds = take c (drop off s) \<and>
         value38 ds < 256 ^ n \<and> bs = le_bytes n (value38 ds))" (is "_ \<longleftrightarrow> ?R")
  proof -
    have u: "unat (word_of_nat (value38 ds) :: u32) = value38 ds"
      if "length ds = c" "\<forall>d \<in> set ds. d < 38" for ds
      using value38_bound [OF that(2)] that(1) fits by (simp add: unat_of_nat)
    have "decode_group s off c n = Inr bs \<longleftrightarrow>
        (\<exists>w. group_value s off c 0 = Inr w \<and> unat w < 256 ^ n \<and> bs = le_bytes n (unat w))"
      unfolding decode_group_def and_then_Inr_iff bnd m by (auto simp: not_le)
    also have "\<dots> \<longleftrightarrow> ?R"
      unfolding group_value_iff [OF s] using u by (auto 4 3)
    finally show ?thesis .
  qed
  also have "\<dots> \<longleftrightarrow> length bs = n \<and> take c (drop off s) = encode_group c (word_of_nat (le_value bs))"
  proof
    assume ?R
    then obtain ds where ds: "length ds = c" "\<forall>d \<in> set ds. d < 38" "chars ds = take c (drop off s)"
      "value38 ds < 256 ^ n" "bs = le_bytes n (value38 ds)" by blast
    moreover from ds have "le_value bs = value38 ds" by (simp add: le_value_le_bytes)
    moreover have "value38 ds < 38 ^ c" using ds fits by linarith
    ultimately show "length bs = n \<and> take c (drop off s) = encode_group c (word_of_nat (le_value bs))"
      using digits38_value38 [OF ds(2)] by (simp add: e)
  next
    assume a: "length bs = n \<and> take c (drop off s) = encode_group c (word_of_nat (le_value bs))"
    then have b: "le_value bs < 256 ^ n" using le_value_bound [of bs] by simp
    then have k: "le_value bs < 38 ^ c" using fits by linarith
    have "chars (digits38 c (le_value bs)) = take c (drop off s)" using a e [OF k] by simp
    moreover have "bs = le_bytes n (value38 (digits38 c (le_value bs)))"
      using a le_bytes_le_value [of bs] value38_digits38 [OF k] by simp
    ultimately show ?R
      using b k value38_digits38 [OF k] digits38_bound by (intro exI [of _ "digits38 c (le_value bs)"]) auto
  qed
  finally show ?thesis .
qed

section \<open>Whole texts\<close>

lemma encode_group_length [simp]: "length (encode_group n v) = n"
  by (induction n arbitrary: v) auto

lemma group_word:
  "ucast a OR push_bit 8 (ucast b) OR push_bit 16 (ucast c) = (word_of_nat (le_value [a, b, c]) :: u32)"
  "ucast a OR push_bit 8 (ucast b) = (word_of_nat (le_value [a, b]) :: u32)"
  "ucast a = (word_of_nat (le_value [a]) :: u32)"
proof -
  have n: "\<not> bit x n" if "8 \<le> n" for x :: byte and n
    using that bit_imp_le_length [of x n] by auto
  have 2: "ucast a OR push_bit 8 (ucast b) = (ucast a + push_bit 8 (ucast b) :: u32)" for a b :: byte
    by (rule disjunctive_add_eq_or [symmetric], rule bit_word_eqI) (auto simp: bit_simps n)
  have 3: "(ucast a OR push_bit 8 (ucast b)) OR push_bit 16 (ucast c) =
      ((ucast a OR push_bit 8 (ucast b)) + push_bit 16 (ucast c) :: u32)"
    by (rule disjunctive_add_eq_or [symmetric], rule bit_word_eqI) (auto simp: bit_simps n)
  show "ucast a OR push_bit 8 (ucast b) OR push_bit 16 (ucast c) = (word_of_nat (le_value [a, b, c]) :: u32)"
    unfolding or.assoc [symmetric] 3 unfolding 2 by (simp add: push_bit_eq_mult)
  show "ucast a OR push_bit 8 (ucast b) = (word_of_nat (le_value [a, b]) :: u32)"
    unfolding 2 by (simp add: push_bit_eq_mult)
  show "ucast a = (word_of_nat (le_value [a]) :: u32)" by simp
qed

lemma base38Encode_length: "length (base38Encode b) = 5 * (length b div 3) + 2 * (length b mod 3)"
proof (induction b rule: base38Encode.induct)
  case (1 a b c r)
  have "Suc (Suc (Suc (length r))) div 3 = Suc (length r div 3)" "Suc (Suc (Suc (length r))) mod 3 = length r mod 3"
    by presburger+
  with 1 show ?case by simp
qed simp_all

lemma base38Encode_Nil_iff: "base38Encode bs = [] \<longleftrightarrow> bs = []"
  by (cases bs rule: base38Encode.cases) (auto simp flip: length_0_conv)

lemma base38Encode_group:
  assumes g: "group_size c (length bs)" and r: "length bs = 3 \<or> r = []"
  shows "base38Encode (bs @ r) = encode_group c (word_of_nat (le_value bs)) @ base38Encode r"
proof -
  consider x y z where "bs = [x, y, z]" "c = 5" | x y where "bs = [x, y]" "c = 4" "r = []"
    | x where "bs = [x]" "c = 2" "r = []"
    using g r by (auto simp: group_size_def length_Suc_conv eval_nat_numeral)
  then show ?thesis
    by cases (simp_all only: append.simps base38Encode.simps group_word(1,2) group_word(3) [symmetric] append_Nil2)
qed

lemma base38_group_step:
  assumes g: "group_size c n" and s: "off + c \<le> length s" and whole: "n = 3 \<or> length s = off + c"
    and big: "n = 3 \<longrightarrow> 5 \<le> length s - off"
    and IH: "\<And>g. decode_group s off c n = Inr g \<Longrightarrow> rest g = Inr r \<longleftrightarrow> (\<exists>bs. r = (out @ g) @ bs \<and> base38Encode bs = drop (off + c) s)"
  shows "and_then (decode_group s off c n) rest = Inr r \<longleftrightarrow> (\<exists>bs. r = out @ bs \<and> base38Encode bs = drop off s)"
proof -
  have split: "drop off s = take c (drop off s) @ drop (off + c) s"
    by (metis append_take_drop_id drop_drop add.commute)
  show ?thesis (is "?L \<longleftrightarrow> ?R")
  proof
    assume ?L
    then obtain g bs where *: "decode_group s off c n = Inr g" "r = (out @ g) @ bs" "base38Encode bs = drop (off + c) s"
      using IH by (auto simp: and_then_Inr_iff)
    then have l: "length g = n" "take c (drop off s) = encode_group c (word_of_nat (le_value g))"
      using decode_group_iff [OF g s] by auto
    have "n = 3 \<or> bs = []" using whole *(3) by (auto simp: base38Encode_Nil_iff)
    then have "base38Encode (g @ bs) = drop off s"
      using base38Encode_group [of c g bs] g l *(3) split by auto
    then show ?R using *(2) by (intro exI [of _ "g @ bs"]) simp
  next
    assume ?R
    then obtain bs where *: "r = out @ bs" "base38Encode bs = drop off s" by blast
    then have len: "5 * (length bs div 3) + 2 * (length bs mod 3) = length s - off"
      using base38Encode_length [of bs] by simp
    have n: "n \<le> length bs \<and> (n = 3 \<or> n = length bs)"
    proof (cases "n = 3")
      case True
      then have "\<not> length bs < 3" using len big by (cases "length bs < 3") auto
      with True show ?thesis by simp
    next
      case False
      then have c: "length s - off = c" "c = 2 * n" "n = 1 \<or> n = 2" using whole g by (auto simp: group_size_def)
      then have "length bs < 3" using len by (cases "length bs div 3") (auto, presburger?)
      with len c show ?thesis by simp
    qed
    let ?g = "take n bs" and ?bs = "drop n bs"
    have "base38Encode (?g @ ?bs) = encode_group c (word_of_nat (le_value ?g)) @ base38Encode ?bs"
      using n g by (intro base38Encode_group) auto
    then have "encode_group c (word_of_nat (le_value ?g)) @ base38Encode ?bs = take c (drop off s) @ drop (off + c) s"
      using *(2) split by simp
    moreover have "length (take c (drop off s)) = c" using s by simp
    ultimately have e: "encode_group c (word_of_nat (le_value ?g)) = take c (drop off s)" "base38Encode ?bs = drop (off + c) s"
      by (metis append_eq_append_conv encode_group_length)+
    have d: "decode_group s off c n = Inr ?g" using e(1) n decode_group_iff [OF g s, of ?g] by simp
    moreover have "r = (out @ ?g) @ ?bs" using *(1) by simp
    with IH [OF d] e(2) have "rest ?g = Inr r" by blast
    ultimately show ?L by simp
  qed
qed

lemma base38_loop_iff:
  "off \<le> length s \<Longrightarrow> (length s - off) mod 5 \<in> {0, 2, 4} \<Longrightarrow>
   base38_loop s off out = Inr r \<longleftrightarrow> (\<exists>bs. r = out @ bs \<and> base38Encode bs = drop off s)"
proof (induction s off out rule: base38_loop.induct)
  case (1 s off out)
  consider "length s = off" | "5 \<le> length s - off" | "length s - off = 4" | "length s - off = 2"
    using "1.prems" by (cases "5 \<le> length s - off") auto
  then show ?case
  proof cases
    case 1
    then show ?thesis by (auto simp: base38_loop.simps base38Encode_Nil_iff)
  next
    case 2
    from 2 have m: "(length s - (off + 5)) mod 5 \<in> {0, 2, 4}" using "1.prems"(2) by (metis diff_diff_left le_mod_geq)
    from 2 have e: "base38_loop s off out = and_then (decode_group s off 5 3) (\<lambda>g. base38_loop s (off + 5) (out @ g))"
      by (subst base38_loop.simps) auto
    have i: "base38_loop s (off + 5) (out @ g) = Inr r \<longleftrightarrow>
        (\<exists>bs. r = (out @ g) @ bs \<and> base38Encode bs = drop (off + 5) s)" if "decode_group s off 5 3 = Inr g" for g
      by (rule "1.IH"(1)) (use 2 that m in auto)
    show ?thesis unfolding e
      by (rule base38_group_step) (use 2 i in \<open>auto simp: group_size_def simp del: append_assoc\<close>)
  next
    case 3
    then have e: "base38_loop s off out = and_then (decode_group s off 4 2) (\<lambda>g. base38_loop s (off + 4) (out @ g))"
      by (subst base38_loop.simps) auto
    have i: "base38_loop s (off + 4) (out @ g) = Inr r \<longleftrightarrow>
        (\<exists>bs. r = (out @ g) @ bs \<and> base38Encode bs = drop (off + 4) s)" if "decode_group s off 4 2 = Inr g" for g
      by (rule "1.IH"(2)) (use 3 that in auto)
    show ?thesis unfolding e
      by (rule base38_group_step) (use 3 i in \<open>auto simp: group_size_def simp del: append_assoc\<close>)
  next
    case 4
    then have e: "base38_loop s off out = and_then (decode_group s off 2 1) (\<lambda>g. base38_loop s (off + 2) (out @ g))"
      by (subst base38_loop.simps) auto
    have i: "base38_loop s (off + 2) (out @ g) = Inr r \<longleftrightarrow>
        (\<exists>bs. r = (out @ g) @ bs \<and> base38Encode bs = drop (off + 2) s)" if "decode_group s off 2 1 = Inr g" for g
      by (rule "1.IH"(3)) (use 4 that in auto)
    show ?thesis unfolding e
      by (rule base38_group_step) (use 4 i in \<open>auto simp: group_size_def simp del: append_assoc\<close>)
  qed
qed

lemma base38Decode_iff: "base38Decode s = Inr b \<longleftrightarrow> base38Encode b = s"
proof (cases "length s mod 5 \<in> {0, 2, 4}")
  case True
  then show ?thesis using base38_loop_iff [of 0 s "[]" b] by (simp add: base38Decode_def)
next
  case False
  moreover have "length (base38Encode b) mod 5 \<in> {0, 2, 4}" unfolding base38Encode_length using mod_less_divisor [of 3 "length b"]
    by (auto simp del: mod_less_divisor)
  ultimately show ?thesis by (auto simp: base38Decode_def)
qed

end
