(* ===== verification/Setup_Qr.thy ===== *)
theory Setup_Qr
  imports Setup_Base38
begin

text \<open>
  QR codes: the bit fields of the 88-bit header, read bit by bit, are those the encoder packed;
  the text is one part because \<open>*\<close> is no base-38 character.
\<close>

unbundle bit_operations_syntax

section \<open>Bits of the header\<close>

lemma bit_field:
  "w \<le> 64 \<Longrightarrow> bit (field bits off w) n \<longleftrightarrow> n < w \<and> bit (bits ! ((off + n) div 64)) ((off + n) mod 64)"
proof (induction w)
  case (Suc w)
  have "field bits off (Suc w) =
      (let pos = off + w in
       if drop_bit (pos mod 64) (bits ! (pos div 64)) AND 1 = 1 then field bits off w OR push_bit w 1 else field bits off w)"
    by (simp add: field_def Let_def)
  moreover have "(drop_bit m v AND 1 = 1) \<longleftrightarrow> bit v m" for v :: u64 and m
    by (simp add: and_one_eq bit_iff_odd_drop_bit odd_iff_mod_2_eq_one)
  ultimately show ?case using Suc by (auto simp: Let_def bit_simps less_Suc_eq)
qed (simp add: field_def)

lemma div8_iff: "n div 8 = k \<longleftrightarrow> 8 * k \<le> n \<and> n < 8 * k + 8" for n k :: nat
  by (auto simp: div_nat_eqI)

lemma bit_load_bits:
  "lo \<le> hi \<Longrightarrow> hi - lo \<le> 8 \<Longrightarrow>
   bit (load_bits data lo hi) n \<longleftrightarrow> n < 8 * (hi - lo) \<and> bit (data ! (lo + n div 8)) (n mod 8)"
proof (induction hi)
  case (Suc hi)
  show ?case
  proof (cases "lo \<le> hi")
    case True
    have e: "load_bits data lo (Suc hi) = load_bits data lo hi OR push_bit (8 * (hi - lo)) (ucast (data ! hi))"
      using True by (simp add: load_bits_def)
    have p: "bit (push_bit (8 * (hi - lo)) (ucast (data ! hi)) :: u64) n \<longleftrightarrow>
        n < 64 \<and> n div 8 = hi - lo \<and> bit (data ! hi) (n mod 8)"
    proof (cases "n div 8 = hi - lo")
      case eq: True
      have "8 * (hi - lo) \<le> n" using eq by (simp add: div8_iff)
      moreover have "n - 8 * (hi - lo) = n mod 8" using minus_mult_div_eq_mod [of n 8] unfolding eq .
      ultimately show ?thesis by (auto simp: bit_simps eq)
    next
      case False
      then have "8 * (hi - lo) \<le> n \<Longrightarrow> 8 \<le> n - 8 * (hi - lo)" by (simp add: div8_iff)
      then have "\<not> (8 * (hi - lo) \<le> n \<and> bit (data ! hi) (n - 8 * (hi - lo)))"
        using bit_imp_le_length [of "data ! hi" "n - 8 * (hi - lo)"] by auto
      then show ?thesis using False by (simp add: bit_simps)
    qed
    have l: "n < 8 * (Suc hi - lo) \<longleftrightarrow> n < 8 * (hi - lo) \<or> n div 8 = hi - lo"
      using True by (auto simp: div8_iff Suc_diff_le)
    have "bit (load_bits data lo hi) n \<longleftrightarrow> n < 8 * (hi - lo) \<and> bit (data ! (lo + n div 8)) (n mod 8)"
      using Suc True by simp
    moreover have "n < 64" if "n < 8 * (Suc hi - lo)" using that Suc.prems by linarith
    moreover have "bit (data ! (lo + n div 8)) (n mod 8) \<longleftrightarrow> bit (data ! hi) (n mod 8)" if "n div 8 = hi - lo"
      using True by (simp add: that)
    ultimately show ?thesis unfolding e bit_or_iff p l by blast
  next
    case False
    then show ?thesis using Suc.prems by (simp add: load_bits_def)
  qed
qed (simp add: load_bits_def)

definition header_words :: "bytes \<Rightarrow> u64 list" where
  "header_words data = [load_bits data 0 8, load_bits data 8 11]"

lemma bit_header_words:
  assumes "i < 88"
  shows "bit (header_words data ! (i div 64)) (i mod 64) \<longleftrightarrow> bit (data ! (i div 8)) (i mod 8)"
proof (cases "i < 64")
  case True
  then show ?thesis by (simp add: header_words_def bit_load_bits)
next
  case False
  then obtain k where k: "i = 64 + k" by (metis le_Suc_ex not_less)
  have "(64 + k) mod 8 = k mod 8" "(64 + k) div 8 = 8 + k div 8" by presburger+
  with k assms show ?thesis by (simp add: header_words_def bit_load_bits)
qed

lemma bit_le_bytes: "j < n \<Longrightarrow> bit (le_bytes n v ! j) k \<longleftrightarrow> k < 8 \<and> bit v (8 * j + k)"
proof -
  assume "j < n"
  then have "le_bytes n v ! j = word_of_nat (drop_bit (8 * j) v)"
    by (simp add: le_bytes_map drop_bit_eq_div power_mult)
  then show ?thesis by (simp add: bit_simps)
qed

lemma bit_header_field:
  assumes "off + w \<le> 88" "w \<le> 64"
  shows "bit (field (header_words (le_bytes 11 v @ rest)) off w) n \<longleftrightarrow> n < w \<and> bit v (off + n)"
proof (cases "n < w")
  case True
  then have i: "off + n < 88" using assms by simp
  then have "(off + n) div 8 < 11" by presburger
  then show ?thesis
    using True assms i by (simp add: bit_field bit_header_words nth_append bit_le_bytes)
qed (simp add: bit_field assms)

section \<open>Packing\<close>

lemma bit_bound:
  fixes x :: "'a::len word"
  assumes "unat x < 2 ^ k" "bit x m"
  shows "m < k"
  using assms word_take_bit_self [OF assms(1)] by (metis bit_take_bit_iff)

lemma header_bits_or:
  "header_bits p = (unat (q_Version p) OR push_bit 3 (unat (q_VendorID p)) OR push_bit 19 (unat (q_ProductID p))
     OR push_bit 35 (unat (q_CustomFlow p)) OR push_bit 37 (unat (q_DiscoveryCaps p))
     OR push_bit 45 (unat (q_Discriminator p)) OR push_bit 57 (unat (q_Passcode p)))"
  by (simp add: header_bits_def put_bits_def or.assoc)

lemma Payload_Validate_widths:
  assumes "Payload_Validate p = Inr u"
  shows "bit (q_Version p) m \<Longrightarrow> m < 3" "bit (q_CustomFlow p) m \<Longrightarrow> m < 2"
    "bit (q_Discriminator p) m \<Longrightarrow> m < 12" "bit (q_Passcode p) m \<Longrightarrow> m < 27"
proof -
  have "unat (q_Version p) < 2 ^ 3" "unat (q_CustomFlow p) < 2 ^ 2" "unat (q_Discriminator p) < 2 ^ 12"
    "unat (q_Passcode p) < 2 ^ 27"
    using assms by (auto simp: Payload_Validate_def MaxDiscriminator_def word_less_nat_alt word_le_nat_alt not_less
      split: if_splits)
  then show "bit (q_Version p) m \<Longrightarrow> m < 3" "bit (q_CustomFlow p) m \<Longrightarrow> m < 2"
    "bit (q_Discriminator p) m \<Longrightarrow> m < 12" "bit (q_Passcode p) m \<Longrightarrow> m < 27"
    by (simp_all only: bit_bound)
qed

lemma word_widths:
  "bit (a :: u16) m \<Longrightarrow> m < 16" "bit (b :: byte) m \<Longrightarrow> m < 8"
  using bit_imp_le_length [of a m] bit_imp_le_length [of b m] by simp_all

lemma decode_header_encoded:
  assumes v: "Payload_Validate p = Inr u"
  shows "decode_header (le_bytes 11 (header_bits p) @ rest) = p\<lparr>q_Extra := None\<rparr>"
proof -
  note w = Payload_Validate_widths [OF v] word_widths
  let ?f = "field (header_words (le_bytes 11 (header_bits p) @ rest))"
  have b: "bit (header_bits p) i \<longleftrightarrow> bit (q_Version p) i \<or> 3 \<le> i \<and> bit (q_VendorID p) (i - 3)
      \<or> 19 \<le> i \<and> bit (q_ProductID p) (i - 19) \<or> 35 \<le> i \<and> bit (q_CustomFlow p) (i - 35)
      \<or> 37 \<le> i \<and> bit (q_DiscoveryCaps p) (i - 37) \<or> 45 \<le> i \<and> bit (q_Discriminator p) (i - 45)
      \<or> 57 \<le> i \<and> bit (q_Passcode p) (i - 57)" for i
    by (simp add: header_bits_or bit_simps)
  have "ucast (?f 0 3) = q_Version p"
    by (rule bit_word_eqI) (auto simp: bit_simps bit_header_field b dest: w)
  moreover have "ucast (?f 3 16) = q_VendorID p"
    by (rule bit_word_eqI) (auto simp: bit_simps bit_header_field b dest: w)
  moreover have "ucast (?f 19 16) = q_ProductID p"
    by (rule bit_word_eqI) (auto simp: bit_simps bit_header_field b dest: w)
  moreover have "ucast (?f 35 2) = q_CustomFlow p"
    by (rule bit_word_eqI) (auto simp: bit_simps bit_header_field b dest: w)
  moreover have "ucast (?f 37 8) = q_DiscoveryCaps p"
    by (rule bit_word_eqI) (auto simp: bit_simps bit_header_field b dest: w)
  moreover have "ucast (?f 45 12) = q_Discriminator p"
    by (rule bit_word_eqI) (auto simp: bit_simps bit_header_field b dest: w)
  moreover have "ucast (?f 57 27) = q_Passcode p"
    by (rule bit_word_eqI) (auto simp: bit_simps bit_header_field b dest: w)
  ultimately show ?thesis by (simp add: decode_header_def header_words_def [symmetric])
qed

section \<open>Text\<close>

lemma base38_no_star: "0x2A \<notin> set (base38Encode b)"
proof -
  have "0x2A \<notin> set base38Alphabet" by code_simp
  then have "base38Alphabet ! d \<noteq> 0x2A" if "d < 38" for d
    using that by (metis base38Alphabet_length nth_mem)
  then have "0x2A \<notin> set (encode_group n v)" for n v
    by (auto simp: encode_group_chars chars_def dest: digits38_bound)
  then show ?thesis by (induction b rule: base38Encode.induct) (simp_all del: encode_group.simps)
qed

lemma split_on_absent: "c \<notin> set xs \<Longrightarrow> split_on c xs = [xs]"
  by (induction xs) auto

lemma DecodeQRCode_part:
  assumes "0x2A \<notin> set part"
  shows "DecodeQRCode (qrPrefix @ part) = decodeQRPart part"
  using split_on_absent [OF assms]
  by (cases "decodeQRPart part") (simp_all add: DecodeQRCode_def DecodeQRCodes_def)

lemma DecodeExtra_nonempty: "DecodeExtra [] \<noteq> Inr e"
  by (simp add: DecodeExtra_def NewDecoder_def Next_def)

lemma QRCode_decodes:
  assumes q: "QRCode p = Inr s"
    and i: "assertValidPayloadIdentity (ucast (q_VendorID p)) (ucast (q_ProductID p)) = Inr ()"
    and x: "\<And>e. q_Extra p = Some e \<Longrightarrow> DecodeExtra (x_Raw e) = Inr e"
  shows "DecodeQRCode s = Inr p"
proof -
  let ?tl = "case q_Extra p of None \<Rightarrow> [] | Some e \<Rightarrow> x_Raw e"
  from q have v: "Payload_Validate p = Inr ()" and h: "q_Version p = 0" "IsValidPasscode (q_Passcode p)"
    and s: "s = qrPrefix @ base38Encode (le_bytes 11 (header_bits p) @ ?tl)"
    by (auto simp: QRCode_def qrCode_def qrEncode_def IsValidPasscode_def Let_def and_then_Inr_iff split: if_splits)
  have "DecodeQRCode s = decodeQRPart (base38Encode (le_bytes 11 (header_bits p) @ ?tl))"
    unfolding s by (rule DecodeQRCode_part [OF base38_no_star])
  also have "\<dots> = Inr p"
  proof -
    have "base38Decode (base38Encode (le_bytes 11 (header_bits p) @ ?tl)) = Inr (le_bytes 11 (header_bits p) @ ?tl)"
      by (simp add: base38Decode_iff)
    moreover have "and_then (decode_tail ?tl) (\<lambda>x. Inr (p\<lparr>q_Extra := Some x\<rparr>)) = Inr p" if "?tl \<noteq> []"
      using that x by (cases "q_Extra p") (auto simp: decode_tail_def)
    moreover have "q_Extra p = None" if "?tl = []"
      using that x DecodeExtra_nonempty by (cases "q_Extra p") auto
    ultimately show ?thesis
      using h i decode_header_encoded [OF v, of ?tl] by (auto simp: decodeQRPart_def Let_def)
  qed
  finally show ?thesis .
qed

end
