(* ===== verification/Setup_Manual.thy ===== *)
theory Setup_Manual
  imports Setup_Qr
begin

text \<open>
  Manual pairing codes. The locale \<open>check_digit\<close> is the contract of a check-digit scheme over a
  group of ten elements with a permutation per position; inside it, a valid code stays valid
  under no single wrong digit and no swap of neighbours. It is interpreted on the Verhoeff
  tables of the program.
\<close>

unbundle bit_operations_syntax

section \<open>Check digits\<close>

locale check_digit =
  fixes mul :: "nat \<Rightarrow> nat \<Rightarrow> nat" and perm :: "nat \<Rightarrow> nat \<Rightarrow> nat" and inv :: "nat \<Rightarrow> nat"
  assumes mul_less: "a < 10 \<Longrightarrow> b < 10 \<Longrightarrow> mul a b < 10"
    and mul_assoc: "a < 10 \<Longrightarrow> b < 10 \<Longrightarrow> c < 10 \<Longrightarrow> mul (mul a b) c = mul a (mul b c)"
    and mul_zero: "a < 10 \<Longrightarrow> mul a 0 = a" "a < 10 \<Longrightarrow> mul 0 a = a"
    and inv_less: "a < 10 \<Longrightarrow> inv a < 10"
    and mul_inv: "a < 10 \<Longrightarrow> mul (inv a) a = 0" "a < 10 \<Longrightarrow> mul a (inv a) = 0"
    and perm_less: "d < 10 \<Longrightarrow> perm i d < 10"
    and perm_zero: "d < 10 \<Longrightarrow> perm 0 d = d"
    and perm_inj: "d < 10 \<Longrightarrow> e < 10 \<Longrightarrow> perm i d = perm i e \<Longrightarrow> d = e"
    and perm_swap: "d < 10 \<Longrightarrow> e < 10 \<Longrightarrow>
      mul (perm i d) (perm (Suc i) e) = mul (perm i e) (perm (Suc i) d) \<Longrightarrow> d = e"
begin

text \<open>The product of the permuted digits, the digit at position \<open>i\<close> first.\<close>

fun checksum :: "nat \<Rightarrow> nat list \<Rightarrow> nat" where
  "checksum i [] = 0"
| "checksum i (d # ds) = mul (perm i d) (checksum (Suc i) ds)"

lemma checksum_less: "\<forall>d \<in> set ds. d < 10 \<Longrightarrow> checksum i ds < 10"
  by (induction ds arbitrary: i) (auto intro: mul_less perm_less)

lemma cancel_left: "a < 10 \<Longrightarrow> b < 10 \<Longrightarrow> c < 10 \<Longrightarrow> mul a b = mul a c \<longleftrightarrow> b = c"
  by (metis inv_less mul_assoc mul_inv(1) mul_zero(2))

lemma cancel_right: "a < 10 \<Longrightarrow> b < 10 \<Longrightarrow> c < 10 \<Longrightarrow> mul b a = mul c a \<longleftrightarrow> b = c"
  by (metis inv_less mul_assoc mul_inv(2) mul_zero(1))

lemma inverse_iff: "a < 10 \<Longrightarrow> c < 10 \<Longrightarrow> mul c a = 0 \<longleftrightarrow> c = inv a"
  using cancel_right [of a c "inv a"] by (simp add: inv_less mul_inv)

lemma checksum_prefix:
  assumes "\<forall>d \<in> set xs \<union> set ys \<union> set zs. d < 10"
  shows "checksum i (xs @ ys) = checksum i (xs @ zs) \<longleftrightarrow> checksum (i + length xs) ys = checksum (i + length xs) zs"
  using assms
proof (induction xs arbitrary: i)
  case (Cons x xs)
  have "\<forall>d \<in> set (xs @ ys). d < 10" "\<forall>d \<in> set (xs @ zs). d < 10" using Cons.prems by auto
  then show ?case using Cons by (simp add: cancel_left perm_less checksum_less)
qed simp

lemma detects_substitution:
  assumes d: "\<forall>d \<in> set ds. d < 10" and i: "i < length ds" and e: "e < 10" "e \<noteq> ds ! i"
  shows "checksum k (ds[i := e]) \<noteq> checksum k ds"
proof
  have split: "ds = take i ds @ ds ! i # drop (Suc i) ds" using i by (simp add: id_take_nth_drop)
  have upd: "ds[i := e] = take i ds @ e # drop (Suc i) ds" using i by (simp add: upd_conv_take_nth_drop)
  have b: "\<forall>d \<in> set (take i ds). d < 10" "\<forall>d \<in> set (drop (Suc i) ds). d < 10" "ds ! i < 10"
    using d i by (auto dest: in_set_takeD in_set_dropD)
  assume "checksum k (ds[i := e]) = checksum k ds"
  then have "checksum k (take i ds @ e # drop (Suc i) ds) = checksum k (take i ds @ ds ! i # drop (Suc i) ds)"
    using split upd by simp
  then have "checksum (k + length (take i ds)) (e # drop (Suc i) ds) = checksum (k + length (take i ds)) (ds ! i # drop (Suc i) ds)"
    using b e by (subst (asm) checksum_prefix) auto
  then have "e = ds ! i"
    using b e by (auto simp: cancel_right perm_less checksum_less dest: perm_inj)
  with e show False by simp
qed

lemma detects_swap:
  assumes d: "\<forall>d \<in> set (xs @ a # b # ys). d < 10" and ab: "a \<noteq> b"
  shows "checksum k (xs @ b # a # ys) \<noteq> checksum k (xs @ a # b # ys)"
proof
  assume "checksum k (xs @ b # a # ys) = checksum k (xs @ a # b # ys)"
  then have "checksum (k + length xs) (b # a # ys) = checksum (k + length xs) (a # b # ys)"
    using d by (subst (asm) checksum_prefix) auto
  moreover have "mul (perm i x) (mul (perm (Suc i) y) (checksum (Suc (Suc i)) ys)) =
      mul (mul (perm i x) (perm (Suc i) y)) (checksum (Suc (Suc i)) ys)" if "x < 10" "y < 10" for i x y
    using d that by (simp add: mul_assoc perm_less checksum_less)
  ultimately show False
    using d ab by (auto simp: cancel_right perm_less mul_less checksum_less dest: perm_swap)
qed

end

section \<open>The Verhoeff tables\<close>

definition dihedral :: "nat \<Rightarrow> nat \<Rightarrow> nat" where
  "dihedral a b = verhoeffTableD ! a ! b"

definition position_perm :: "nat \<Rightarrow> nat \<Rightarrow> nat" where
  "position_perm i d = verhoeffTableP ! (i mod 8) ! d"

lemma all_below: "list_all P [0..<n] \<Longrightarrow> a < n \<Longrightarrow> P a"
  by (simp add: list_all_iff)

lemma table_mul:
  "list_all (\<lambda>a. list_all (\<lambda>b. dihedral a b < 10) [0..<10]) [0..<10]"
  "list_all (\<lambda>a. list_all (\<lambda>b. list_all (\<lambda>c. dihedral (dihedral a b) c = dihedral a (dihedral b c)) [0..<10]) [0..<10]) [0..<10]"
  "list_all (\<lambda>a. dihedral a 0 = a \<and> dihedral 0 a = a \<and> verhoeffTableInv ! a < 10
     \<and> dihedral (verhoeffTableInv ! a) a = 0 \<and> dihedral a (verhoeffTableInv ! a) = 0) [0..<10]"
  by code_simp+

lemma table_perm:
  "list_all (\<lambda>i. list_all (\<lambda>d. position_perm i d < 10 \<and> list_all (\<lambda>e. position_perm i d = position_perm i e \<longrightarrow> d = e) [0..<10]) [0..<10]) [0..<8]"
  "list_all (\<lambda>i. list_all (\<lambda>d. list_all (\<lambda>e. dihedral (position_perm i d) (position_perm (Suc i) e) =
      dihedral (position_perm i e) (position_perm (Suc i) d) \<longrightarrow> d = e) [0..<10]) [0..<10]) [0..<8]"
  "list_all (\<lambda>d. position_perm 0 d = d) [0..<10]"
  by code_simp+

lemma position_perm_mod: "position_perm i d = position_perm (i mod 8) d" "position_perm (Suc i) d = position_perm (Suc (i mod 8)) d"
  by (simp_all add: position_perm_def mod_Suc_eq)

interpretation verhoeff: check_digit dihedral position_perm "(!) verhoeffTableInv"
proof
  fix a b c d e i :: nat
  have i: "i mod 8 < 8" by simp
  show "a < 10 \<Longrightarrow> b < 10 \<Longrightarrow> dihedral a b < 10" by (rule table_mul(1) [THEN all_below, THEN all_below])
  show "a < 10 \<Longrightarrow> b < 10 \<Longrightarrow> c < 10 \<Longrightarrow> dihedral (dihedral a b) c = dihedral a (dihedral b c)"
    by (rule table_mul(2) [THEN all_below, THEN all_below, THEN all_below])
  show "a < 10 \<Longrightarrow> dihedral a 0 = a" "a < 10 \<Longrightarrow> dihedral 0 a = a" "a < 10 \<Longrightarrow> verhoeffTableInv ! a < 10"
    "a < 10 \<Longrightarrow> dihedral (verhoeffTableInv ! a) a = 0" "a < 10 \<Longrightarrow> dihedral a (verhoeffTableInv ! a) = 0"
    using table_mul(3) [THEN all_below, of a] by simp_all
  show "d < 10 \<Longrightarrow> position_perm i d < 10" "d < 10 \<Longrightarrow> e < 10 \<Longrightarrow> position_perm i d = position_perm i e \<Longrightarrow> d = e"
    using table_perm(1) [THEN all_below, OF i, THEN all_below, of d] all_below [of _ 10 e]
    unfolding position_perm_mod(1) [of i] by blast+
  show "d < 10 \<Longrightarrow> position_perm 0 d = d" by (rule table_perm(3) [THEN all_below])
  show "d < 10 \<Longrightarrow> e < 10 \<Longrightarrow> dihedral (position_perm i d) (position_perm (Suc i) e) =
      dihedral (position_perm i e) (position_perm (Suc i) d) \<Longrightarrow> d = e"
    using table_perm(2) [THEN all_below, OF i, THEN all_below, of d, THEN all_below, of e]
    unfolding position_perm_mod(1) [of i] position_perm_mod(2) [of i] by blast
qed

section \<open>The check of a code\<close>

definition digit_of :: "byte \<Rightarrow> nat" where
  "digit_of c = unat (c - 48)"

lemma is_digit_value: "is_digit c \<Longrightarrow> digit_of c < 10 \<and> c = word_of_nat (48 + digit_of c)"
proof -
  assume "is_digit c"
  then have c: "48 \<le> unat c" "unat c \<le> 57" "48 \<le> c" by (simp_all add: is_digit_def word_le_nat_alt)
  then have "digit_of c = unat c - 48" by (simp add: digit_of_def unat_sub)
  with c show ?thesis by simp
qed

lemma is_digit_of_nat: "n < 10 \<Longrightarrow> is_digit (word_of_nat (48 + n)) \<and> digit_of (word_of_nat (48 + n)) = n"
proof -
  assume n: "n < 10"
  then have "unat (word_of_nat (48 + n) :: byte) = 48 + n" by (simp add: unat_of_nat del: of_nat_add)
  with n show ?thesis by (simp add: is_digit_def digit_of_def word_le_nat_alt unat_sub del: of_nat_add)
qed

lemma verhoeff_loop_checksum:
  "list_all is_digit ds \<Longrightarrow> c < 10 \<Longrightarrow>
   verhoeff_loop i c ds = Inr (dihedral c (verhoeff.checksum (Suc i) (map digit_of ds)))"
proof (induction ds arbitrary: i c)
  case (Cons d ds)
  have d: "is_digit d" "digit_of d < 10" using Cons.prems is_digit_value by auto
  have ds: "\<forall>x \<in> set (map digit_of ds). x < 10" using Cons.prems is_digit_value by (auto simp: list_all_iff)
  have "verhoeff_loop i c (d # ds) = verhoeff_loop (Suc i) (dihedral c (position_perm (Suc i) (digit_of d))) ds"
    using d(1) by (auto simp: is_digit_def dihedral_def position_perm_def digit_of_def not_less)
  also have "\<dots> = Inr (dihedral (dihedral c (position_perm (Suc i) (digit_of d))) (verhoeff.checksum (Suc (Suc i)) (map digit_of ds)))"
    using Cons.IH Cons.prems d by (simp add: verhoeff.mul_less verhoeff.perm_less)
  finally show ?case
    using d Cons.prems verhoeff.checksum_less [OF ds] by (simp add: verhoeff.mul_assoc verhoeff.perm_less)
qed (simp add: verhoeff.mul_zero)

lemma verhoeffCheck_digits:
  assumes "list_all is_digit ds"
  shows "verhoeffCheck ds = Inr (verhoeffTableInv ! verhoeff.checksum 1 (map digit_of (rev ds)))"
proof -
  have "list_all is_digit (rev ds)" using assms by (simp add: list_all_iff)
  moreover from this have "verhoeff.checksum 1 (map digit_of (rev ds)) < 10"
    by (intro verhoeff.checksum_less) (auto simp: list_all_iff dest: is_digit_value)
  ultimately show ?thesis by (simp add: verhoeffCheck_def verhoeff_loop_checksum verhoeff.mul_zero)
qed

definition code_sum :: "bytes \<Rightarrow> nat" where
  "code_sum code = verhoeff.checksum 0 (map digit_of (rev code))"

lemma verify_check_iff:
  assumes "list_all is_digit code" "code \<noteq> []"
  shows "verify_check code = Inr () \<longleftrightarrow> code_sum code = 0"
    and "verify_check code \<noteq> Inl Panic"
proof -
  obtain ds c where code: "code = ds @ [c]" using assms(2) by (cases code rule: rev_exhaust) auto
  have ds: "list_all is_digit ds" "digit_of c < 10" using assms(1) code is_digit_value by auto
  have b: "verhoeff.checksum 1 (map digit_of (rev ds)) < 10"
    using ds by (intro verhoeff.checksum_less) (auto simp: list_all_iff dest: is_digit_value)
  have v: "verify_check code = (if verhoeffTableInv ! verhoeff.checksum 1 (map digit_of (rev ds)) \<noteq> digit_of c
      then invalid Bad_Checksum else Inr ())"
    using verhoeffCheck_digits [OF ds(1)] by (simp add: verify_check_def code slice_def index_def nth_append digit_of_def)
  then show "verify_check code = Inr () \<longleftrightarrow> code_sum code = 0"
    using verhoeff.inverse_iff [OF b ds(2)] ds(2) by (auto simp: code code_sum_def verhoeff.perm_zero)
  show "verify_check code \<noteq> Inl Panic" unfolding v by simp
qed

section \<open>Decimal numbers\<close>

lemma decimal_value_snoc: "decimal_value (ds @ [c]) = 10 * decimal_value ds + digit_of c"
  by (simp add: decimal_value_def digit_of_def)

lemma decimal_digits: "list_all is_digit (decimal n) \<and> decimal_value (decimal n) = n"
proof (induction n rule: decimal.induct)
  case (1 n)
  show ?case
  proof (cases "n < 10")
    case True
    then show ?thesis
      using is_digit_of_nat [of n] decimal_value_snoc [of "[]" "word_of_nat (48 + n)"]
      by (subst (1 2) decimal.simps) (simp add: decimal_value_def del: of_nat_add)
  next
    case False
    with 1 have "list_all is_digit (decimal (n div 10)) \<and> decimal_value (decimal (n div 10)) = n div 10" by simp
    with False show ?thesis
      using is_digit_of_nat [of "n mod 10"] by (subst (1 2) decimal.simps) (simp add: decimal_value_snoc del: of_nat_add)
  qed
qed

lemma decimal_length: "0 < w \<Longrightarrow> n < 10 ^ w \<Longrightarrow> length (decimal n) \<le> w"
proof (induction w arbitrary: n)
  case (Suc w)
  show ?case
  proof (cases "n < 10")
    case True
    then show ?thesis by (subst decimal.simps) simp
  next
    case False
    then have "0 < w" using Suc.prems by (cases w) auto
    moreover have "n div 10 < 10 ^ w" using Suc.prems by (simp add: less_mult_imp_div_less mult.commute)
    ultimately show ?thesis using Suc.IH False by (subst decimal.simps) simp
  qed
qed simp

lemma padded_props:
  assumes "0 < w" "n < 10 ^ w"
  shows "length (padded w n) = w" "list_all is_digit (padded w n)" "decimal_value (padded w n) = n"
proof -
  have z: "decimal_value (replicate k 48 @ ds) = decimal_value ds" for k ds
    by (induction k) (simp_all add: decimal_value_def)
  show "length (padded w n) = w" using decimal_length [OF assms] by (simp add: padded_def)
  show "list_all is_digit (padded w n)" using decimal_digits [of n] by (auto simp: padded_def list_all_iff is_digit_def)
  show "decimal_value (padded w n) = n" using decimal_digits [of n] by (simp add: padded_def z)
qed

section \<open>Decoding\<close>

lemma verify_manual:
  assumes "list_all is_digit s" "DecodeManualCode s = Inr m"
  shows "code_sum s = 0"
proof -
  have f: "filter is_digit s = s" using assms(1) by (simp add: list_all_iff)
  then have "verify_check s = Inr ()" "s \<noteq> []"
    using assms(2) by (auto simp: DecodeManualCode_def Let_def and_then_Inr_iff split: if_splits)
  then show ?thesis using verify_check_iff(1) [OF assms(1)] by simp
qed

lemma num_no_panic: "a \<le> b \<Longrightarrow> b \<le> length code \<Longrightarrow> num code a b = Inr (word_of_nat (decimal_value (take (b - a) (drop a code))))"
  by (simp add: num_def slice_def)

lemma manual_fields_no_panic:
  assumes "length code = 11 \<or> length code = 21" "hasVP \<longrightarrow> length code = 21"
  shows "manual_fields code first hasVP \<noteq> Inl Panic"
proof -
  have "num code 1 6 \<noteq> Inl Panic" "num code 6 10 \<noteq> Inl Panic"
    "hasVP \<Longrightarrow> num code 10 15 \<noteq> Inl Panic \<and> num code 15 20 \<noteq> Inl Panic"
    using assms by (auto simp: num_no_panic)
  then show ?thesis
    by (auto simp: manual_fields_def and_then_Panic_iff Let_def assertValidPayloadIdentity_def split: if_splits)
qed

lemma DecodeManualCode_no_panic: "DecodeManualCode s \<noteq> Inl Panic"
proof -
  let ?code = "filter is_digit s"
  have "list_all is_digit ?code" by (simp add: list_all_iff)
  from verify_check_iff(2) [OF this] have "?code \<noteq> [] \<Longrightarrow> verify_check ?code \<noteq> Inl Panic" by simp
  moreover have "index ?code 0 \<noteq> (Inl Panic :: (setup_error, byte) go)" if "?code \<noteq> []" using that by (simp add: index_def)
  ultimately show ?thesis
    by (cases "?code = []") (auto simp: DecodeManualCode_def and_then_Panic_iff Let_def manual_fields_no_panic split: if_splits)
qed

section \<open>Round trip\<close>

text \<open>The numbers a manual code carries.\<close>

definition upper_part :: "u16 \<Rightarrow> bool \<Rightarrow> u32" where
  "upper_part discriminator vp =
     (if vp then (ucast (drop_bit 10 discriminator) AND 0x3) OR push_bit 2 1 else ucast (drop_bit 10 discriminator) AND 0x3)"

definition middle_part :: "u16 \<Rightarrow> u32 \<Rightarrow> u32" where
  "middle_part discriminator passcode = push_bit 14 (ucast (drop_bit 8 discriminator) AND 0x3) OR (passcode AND 0x3FFF)"

definition manual_digits :: "u16 \<Rightarrow> u32 \<Rightarrow> (u16 \<times> u16) option \<Rightarrow> bytes" where
  "manual_digits discriminator passcode vp =
     padded 1 (unat (upper_part discriminator (vp \<noteq> None))) @ padded 5 (unat (middle_part discriminator passcode)) @
     padded 4 (unat (drop_bit 14 passcode)) @
     (case vp of None \<Rightarrow> [] | Some (v, p) \<Rightarrow> padded 5 (unat v) @ padded 5 (unat p))"

lemma word_bound:
  fixes x :: "'a::len word"
  assumes "\<And>m. bit x m \<Longrightarrow> m < k"
  shows "unat x < 2 ^ k"
proof -
  have "take_bit k x = x" by (rule bit_word_eqI) (auto simp: bit_take_bit_iff dest: assms)
  then have "unat x = take_bit k (unat x)" by (metis unsigned_take_bit_eq)
  then show ?thesis by (metis take_bit_nat_less_exp)
qed

lemma masks: "(0x3 :: 'a::len word) = mask 2" "(0x3FFF :: 'a word) = mask 14"
  by (simp_all add: mask_eq_exp_minus_1)

lemma bit_four: "bit (4 :: int) m \<longleftrightarrow> m = 2" "bit (4 :: nat) m \<longleftrightarrow> m = 2"
  using bit_exp_iff [of 2 m, where ?'a = int] bit_exp_iff [of 2 m, where ?'a = nat] by auto

lemma part_bounds:
  assumes "passcode \<le> 99999998"
  shows "unat (upper_part discriminator vp) < 10" "unat (middle_part discriminator passcode) < 10 ^ 5"
    "unat (drop_bit 14 passcode) < 10 ^ 4"
proof -
  have "unat (upper_part discriminator vp) < 2 ^ 3"
    by (rule word_bound) (auto simp: upper_part_def masks bit_four bit_or_iff bit_and_iff bit_mask_iff split: if_splits)
  then show "unat (upper_part discriminator vp) < 10" by simp
  have "unat (middle_part discriminator passcode) < 2 ^ 16"
    by (rule word_bound) (auto simp: middle_part_def masks bit_simps)
  then show "unat (middle_part discriminator passcode) < 10 ^ 5" by simp
  have "unat passcode \<le> 99999998" using assms by (simp add: word_le_nat_alt)
  then have "unat passcode div 2 ^ 14 \<le> 99999998 div 2 ^ 14" by (rule div_le_mono)
  then show "unat (drop_bit 14 passcode) < 10 ^ 4" by (simp add: drop_bit_eq_div unat_div)
qed

lemma parts_recovered:
  assumes "discriminator \<le> MaxDiscriminator"
  shows "(middle_part discriminator passcode AND 0x3FFF) OR push_bit 14 (drop_bit 14 passcode) = passcode"
    and "push_bit 2 (word_of_nat (unat (upper_part discriminator vp)) AND 0x03) OR
      ucast (drop_bit 14 (middle_part discriminator passcode) AND 0x3) = (ucast (drop_bit 8 discriminator) :: byte)"
    and "bit (unat (upper_part discriminator vp)) 2 \<longleftrightarrow> vp"
    and "unat (upper_part discriminator vp) < 8"
proof -
  have d: "bit discriminator m \<Longrightarrow> m < 12" for m
  proof -
    have "unat discriminator < 2 ^ 12" using assms by (simp add: MaxDiscriminator_def word_le_nat_alt)
    then show "bit discriminator m \<Longrightarrow> m < 12" by (rule bit_bound)
  qed
  show "(middle_part discriminator passcode AND 0x3FFF) OR push_bit 14 (drop_bit 14 passcode) = passcode"
  proof (rule bit_word_eqI)
    fix n :: nat
    show "bit ((middle_part discriminator passcode AND 0x3FFF) OR push_bit 14 (drop_bit 14 passcode)) n = bit passcode n"
      using bit_imp_le_length [of passcode n] by (cases "n < 14") (auto simp: middle_part_def masks bit_simps)
  qed
  show "push_bit 2 (word_of_nat (unat (upper_part discriminator vp)) AND 0x03) OR
      ucast (drop_bit 14 (middle_part discriminator passcode) AND 0x3) = (ucast (drop_bit 8 discriminator) :: byte)"
  proof (rule bit_word_eqI)
    fix n :: nat
    assume "n < LENGTH(8)"
    then show "bit (push_bit 2 (word_of_nat (unat (upper_part discriminator vp)) AND 0x03) OR
      ucast (drop_bit 14 (middle_part discriminator passcode) AND 0x3) :: byte) n = bit (ucast (drop_bit 8 discriminator) :: byte) n"
      using d [of "8 + n"] by (auto simp: upper_part_def middle_part_def masks bit_four bit_simps)
  qed
  show "bit (unat (upper_part discriminator vp)) 2 \<longleftrightarrow> vp"
    by (auto simp: upper_part_def masks bit_four bit_simps)
  have "unat (upper_part discriminator vp) < 2 ^ 3"
    by (rule word_bound) (auto simp: upper_part_def masks bit_four bit_or_iff bit_and_iff bit_mask_iff split: if_splits)
  then show "unat (upper_part discriminator vp) < 8" by simp
qed

lemma manual_digits_props:
  assumes "passcode \<le> 99999998"
  shows "list_all is_digit (manual_digits discriminator passcode vp)"
    "length (manual_digits discriminator passcode vp) = (if vp = None then 10 else 20)"
proof -
  have "unat (v :: u16) < 10 ^ 5" for v using unat_bounds(2) [of v] by simp
  then show "list_all is_digit (manual_digits discriminator passcode vp)"
    "length (manual_digits discriminator passcode vp) = (if vp = None then 10 else 20)"
    using part_bounds [OF assms] by (auto simp: manual_digits_def padded_props split: option.split)
qed

lemma valid_pin_bound: "IsValidSetupPIN passcode \<Longrightarrow> passcode \<le> 99999998"
  by (simp add: IsValidSetupPIN_def not_less split: if_splits)

definition check_char :: "bytes \<Rightarrow> byte" where
  "check_char digits = word_of_nat (48 + verhoeffTableInv ! verhoeff.checksum 1 (map digit_of (rev digits)))"

lemma check_char_props:
  assumes "list_all is_digit digits"
  shows "is_digit (check_char digits)" "code_sum (digits @ [check_char digits]) = 0"
proof -
  have b: "verhoeff.checksum 1 (map digit_of (rev digits)) < 10"
    using assms by (intro verhoeff.checksum_less) (auto simp: list_all_iff dest: is_digit_value)
  note d = is_digit_of_nat [OF verhoeff.inv_less [OF b]]
  show "is_digit (check_char digits)" using d unfolding check_char_def by blast
  show "code_sum (digits @ [check_char digits]) = 0"
    using d b verhoeff.inv_less [OF b]
    by (simp add: code_sum_def check_char_def verhoeff.perm_zero verhoeff.mul_inv del: of_nat_add)
qed

lemma manualCode_iff:
  "manualCode discriminator passcode vp True = Inr s \<longleftrightarrow>
     discriminator \<le> MaxDiscriminator \<and> IsValidSetupPIN passcode \<and>
     s = manual_digits discriminator passcode vp @ [check_char (manual_digits discriminator passcode vp)]"
proof (cases "discriminator \<le> MaxDiscriminator \<and> IsValidSetupPIN passcode")
  case True
  note p = valid_pin_bound [OF conjunct2 [OF True]]
  note b = part_bounds [OF p]
  have ten: "length (padded 1 (unat (upper_part discriminator (vp \<noteq> None))) @
      padded 5 (unat (middle_part discriminator passcode)) @ padded 4 (unat (drop_bit 14 passcode))) = 10"
    using b by (simp add: padded_props)
  have "manualCode discriminator passcode vp True =
      and_then (verhoeffCheck (manual_digits discriminator passcode vp))
        (\<lambda>check. Inr (manual_digits discriminator passcode vp @ [word_of_nat (48 + check)]))"
    using True p ten unfolding manualCode_def Let_def manual_digits_def upper_part_def middle_part_def
    by (auto simp: not_less split: option.split)
  with True show ?thesis
    using verhoeffCheck_digits [OF manual_digits_props(1) [OF p, of discriminator vp]]
    by (auto simp: check_char_def)
next
  case False
  then show ?thesis by (auto simp: manualCode_def not_less Let_def split: if_splits)
qed

definition manual_of :: "u16 \<Rightarrow> u32 \<Rightarrow> (u16 \<times> u16) option \<Rightarrow> manual_payload" where
  "manual_of discriminator passcode vp =
     \<lparr>m_ShortDiscriminator = ucast (drop_bit 8 discriminator), m_Passcode = passcode,
      m_VendorID = (case vp of None \<Rightarrow> 0 | Some (v, p) \<Rightarrow> v), m_ProductID = (case vp of None \<Rightarrow> 0 | Some (v, p) \<Rightarrow> p),
      m_HasVendorProduct = (vp \<noteq> None)\<rparr>"

definition identity_of :: "(u16 \<times> u16) option \<Rightarrow> u32 \<times> u32" where
  "identity_of vp = (case vp of None \<Rightarrow> (0, 0) | Some (v, p) \<Rightarrow> (ucast v, ucast p))"

lemma num_padded:
  assumes "length pre = a" "b = a + w" "0 < w" "n < 10 ^ w"
  shows "num (pre @ padded w n @ post) a b = Inr (word_of_nat n)"
  using assms padded_props [OF assms(3,4)] by (simp add: num_def slice_def)

lemma manual_fields_digits:
  assumes d: "discriminator \<le> MaxDiscriminator" and p: "IsValidSetupPIN passcode"
    and i: "assertValidPayloadIdentity (fst (identity_of vp)) (snd (identity_of vp)) = Inr ()"
  shows "manual_fields (manual_digits discriminator passcode vp @ post) (unat (upper_part discriminator (vp \<noteq> None))) (vp \<noteq> None)
    = Inr (manual_of discriminator passcode vp)"
proof -
  note b = part_bounds [OF valid_pin_bound [OF p]]
  let ?code = "manual_digits discriminator passcode vp @ post"
  let ?u = "padded 1 (unat (upper_part discriminator (vp \<noteq> None)))"
  let ?m = "padded 5 (unat (middle_part discriminator passcode))" and ?l = "padded 4 (unat (drop_bit 14 passcode))"
  have len: "length ?u = 1" "length ?m = 5" "length ?l = 4" using b by (simp_all add: padded_props)
  have w: "unat v < 10 ^ 5" for v :: u16 using unat_bounds(2) [of v] by simp
  have n1: "num ?code 1 6 = Inr (middle_part discriminator passcode)"
    using num_padded [OF len(1), of 6 5 "unat (middle_part discriminator passcode)"] b
    by (simp add: manual_digits_def)
  have n2: "num ?code 6 10 = Inr (drop_bit 14 passcode)"
    using num_padded [of "?u @ ?m" 6 10 4 "unat (drop_bit 14 passcode)"] b len
    by (simp add: manual_digits_def)
  have n3: "num ?code 10 15 = Inr (ucast v)" if "vp = Some (v, q)" for v q
    using num_padded [of "?u @ ?m @ ?l" 10 15 5 "unat v"] w [of v] len that
    by (simp add: manual_digits_def)
  have n4: "num ?code 15 20 = Inr (ucast q)" if "vp = Some (v, q)" for v q
    using num_padded [of "?u @ ?m @ ?l @ padded 5 (unat v)" 15 20 5 "unat q"] w [of v] w [of q] len that
    by (simp add: manual_digits_def padded_props)
  have le: "\<not> (ucast v :: u32) > 0xFFFF" for v :: u16
    using unat_bounds(2) [of v] by (simp add: word_less_nat_alt unsigned_ucast_eq take_bit_nat_eq_self)
  have cast: "ucast (ucast v :: u32) = v" for v :: u16
    by (rule ucast_ucast_id) (use unat_bounds(2) [of v] in simp)
  show ?thesis
  proof (cases vp)
    case None
    then show ?thesis
      using n1 n2 i p parts_recovered [OF d]
      by (simp add: manual_fields_def manual_of_def identity_of_def IsValidPasscode_def Let_def)
  next
    case (Some vq)
    obtain v q where vq: "vq = (v, q)" by (cases vq)
    then show ?thesis
      using n1 n2 n3 n4 i p parts_recovered [OF d] Some le [of v] le [of q] cast [of v] cast [of q]
      by (simp add: manual_fields_def manual_of_def identity_of_def IsValidPasscode_def Let_def)
  qed
qed

lemma DecodeManualCode_manual:
  assumes s: "manualCode discriminator passcode vp True = Inr s"
    and i: "assertValidPayloadIdentity (fst (identity_of vp)) (snd (identity_of vp)) = Inr ()"
    and f: "filter is_digit s' = s"
  shows "DecodeManualCode s' = Inr (manual_of discriminator passcode vp)"
proof -
  let ?ds = "manual_digits discriminator passcode vp"
  from s have d: "discriminator \<le> MaxDiscriminator" and p: "IsValidSetupPIN passcode"
    and code: "s = ?ds @ [check_char ?ds]" by (auto simp: manualCode_iff)
  note props = manual_digits_props [OF valid_pin_bound [OF p], of discriminator vp]
  have dig: "list_all is_digit s" using props(1) check_char_props(1) [OF props(1)] code by simp
  have v: "verify_check s = Inr ()"
    using verify_check_iff(1) [OF dig] check_char_props(2) [OF props(1)] code by simp
  let ?u = "unat (upper_part discriminator (vp \<noteq> None))"
  obtain c where c: "padded 1 ?u = [c]" "digit_of c = ?u"
  proof -
    have "?u < 10 ^ 1" using part_bounds(1) [OF valid_pin_bound [OF p]] by simp
    from padded_props [OF _ this] obtain c where "padded 1 ?u = [c]" "decimal_value [c] = ?u"
      by (auto simp: length_Suc_conv)
    moreover have "decimal_value [c] = digit_of c" by (simp add: decimal_value_def digit_of_def)
    ultimately show thesis using that by simp
  qed
  have "index s 0 = (Inr c :: (setup_error, byte) go)" using c code by (simp add: manual_digits_def)
  moreover have "manual_fields s ?u (vp \<noteq> None) = Inr (manual_of discriminator passcode vp)"
    unfolding code by (rule manual_fields_digits [OF d p i])
  moreover have "length s = (if vp = None then 11 else 21)" using props(2) code by simp
  ultimately show ?thesis
    using f v c(2) parts_recovered(3,4) [OF d, of "vp \<noteq> None"]
    by (cases vp) (simp_all add: DecodeManualCode_def Let_def digit_of_def)
qed

end
