(* ===== verification/Tlv_Facts.thy ===== *)
theory Tlv_Facts
  imports Tlv_Walk Wire
begin

text \<open>
  What the elements returned by \<open>Next\<close> look like: facts that the readers of TLV structures
  elsewhere in the program rely on.
\<close>

unbundle bit_operations_syntax

lemma readValue_keeps:
  "readValue el d = (Inr el', d') \<Longrightarrow> el_Tag el' = el_Tag el \<and> el_Type el' = el_Type el
     \<and> el_IsEndContainer el' = el_IsEndContainer el"
  by (auto simp: readValue_def read_then_Inr_iff utf8_element_def Let_def split: if_splits)

lemma take_field_value:
  "take_field n f d = (Inr v, d') \<Longrightarrow> f (dec_buf d) (dec_pos d) = Inr v"
  by (auto simp: take_field_def split: sum.splits)

lemma readTag_context:
  assumes "readTag TagKindContext d = (Inr tg, d')"
  shows "unat (tag_Number tg) < 256"
proof -
  have "take_field 1 (\<lambda>b i. and_then (index b i) (\<lambda>v. Inr (AnonymousTag\<lparr>tag_Kind := TagKindContext, tag_Number := ucast v\<rparr>))) d = (Inr tg, d')"
    using assms by (simp add: readTag_def)
  then obtain v :: byte where "tag_Number tg = ucast v"
    by (auto dest!: take_field_value simp: and_then_Inr_iff)
  then show ?thesis
    using unat_bounds(1) [of v] by (simp add: unsigned_ucast_eq take_bit_nat_eq_self)
qed

lemma readTag_kind: "readTag kind d = (Inr tg, d') \<Longrightarrow> tag_Kind tg = kind"
  by (auto simp: readTag_def Let_def and_then_Inr_iff split: if_splits dest!: take_field_value)

lemma Next_context:
  assumes n: "Next d = (Inr el, d')" and c: "tag_Kind (el_Tag el) = TagKindContext"
  shows "unat (tag_Number (el_Tag el)) < 256"
proof -
  have "el \<noteq> end_element" using c by (auto simp: end_element_def new_element_def AnonymousTag_def)
  with n obtain kind tg d1 t d2 where t: "readTag kind d1 = (Inr tg, d2)" and v: "readValue (new_element tg t) d2 = (Inr el, d')"
    by (auto simp: Next_def next_after_def Let_def read_then_Inr_iff split: if_splits sum.splits)
  have "el_Tag el = tg" using readValue_keeps [OF v] by (simp add: new_element_def)
  with c t readTag_kind [OF t] show ?thesis by (auto dest: readTag_context)
qed

end
