(* ===== verification/Setup_Theorems.thy ===== *)
theory Setup_Theorems
  imports Setup_Manual Tlv_Facts
begin

text \<open>
  The properties of the onboarding payloads: the TLV tail, the absence of panics, and the
  round trips of QR codes and manual codes.
\<close>

unbundle bit_operations_syntax

section \<open>TLV tail\<close>

definition extra_inv :: "bytes \<Rightarrow> extra \<Rightarrow> bool" where
  "extra_inv b e \<longleftrightarrow> x_Raw e = b
     \<and> (x_PBKDFIterations e \<noteq> 0 \<longrightarrow> 1000 \<le> x_PBKDFIterations e \<and> x_PBKDFIterations e \<le> 100000)
     \<and> (x_PBKDFSalt e \<noteq> [] \<longrightarrow> 16 \<le> length (x_PBKDFSalt e) \<and> length (x_PBKDFSalt e) \<le> 32)
     \<and> (\<forall>k v. x_Vendor e k = Some v \<longrightarrow> 0x80 \<le> k \<and> v \<noteq> [] \<and> (\<exists>pre post. b = pre @ v @ post))"

lemma raw_extra_inv: "extra_inv b (raw_extra b)"
  by (simp add: extra_inv_def raw_extra_def)

lemma extra_inv_updates [simp]:
  "extra_inv b (e\<lparr>x_SerialNumber := sn\<rparr>) = extra_inv b e"
  "extra_inv b (e\<lparr>x_SerialNumberNumeric := nu\<rparr>) = extra_inv b e"
  "extra_inv b (e\<lparr>x_NumberOfDevices := nd\<rparr>) = extra_inv b e"
  "extra_inv b (e\<lparr>x_CommissioningTimeout := ti\<rparr>) = extra_inv b e"
  "extra_inv b (e\<lparr>x_HasCommissioningTimeout := hv\<rparr>) = extra_inv b e"
  by (simp_all add: extra_inv_def)

lemma extra_inv_pbkdf:
  "extra_inv b e \<Longrightarrow> 1000 \<le> n \<Longrightarrow> n \<le> 100000 \<Longrightarrow> extra_inv b (e\<lparr>x_PBKDFIterations := n\<rparr>)"
  "extra_inv b e \<Longrightarrow> 16 \<le> length salt \<Longrightarrow> length salt \<le> 32 \<Longrightarrow> extra_inv b (e\<lparr>x_PBKDFSalt := salt\<rparr>)"
  by (simp_all add: extra_inv_def)

lemma setDefault_props:
  "setDefault e tg el \<noteq> Inl Panic"
  "extra_inv b e \<Longrightarrow> setDefault e tg el = Inr e' \<Longrightarrow> extra_inv b e'"
proof -
  show "setDefault e tg el \<noteq> Inl Panic" by (simp add: setDefault_def Let_def)
  have iter: "1000 \<le> (ucast v :: u32) \<and> (ucast v :: u32) \<le> 100000" if "1000 \<le> v" "v \<le> 100000" for v :: u64
  proof -
    have "unat v \<le> 100000" "1000 \<le> unat v" using that by (simp_all add: word_le_nat_alt)
    then show ?thesis by (simp add: word_le_nat_alt unsigned_ucast_eq take_bit_nat_eq_self)
  qed
  show "extra_inv b e'" if "extra_inv b e" "setDefault e tg el = Inr e'"
    using that iter [of "el_Uint el"]
    by (auto simp: setDefault_def Let_def not_less pbkdfIterationsMin_def pbkdfIterationsMax_def
        split: if_splits intro!: extra_inv_pbkdf)
qed

lemma tlv_fault_Panic: "tlv_fault f = Panic \<longleftrightarrow> f = Panic"
  by (cases f) (simp_all add: tlv_fault_def)

lemma skipRest_loop_safe: "fst (skipRest_loop depth d) \<noteq> Inl Panic \<and> (within d \<longrightarrow> within (snd (skipRest_loop depth d)))"
proof (induction depth d rule: skipRest_loop.induct)
  case (1 depth d)
  obtain r d1 where n: "Next d = (r, d1)" by (cases "Next d")
  then have s: "r \<noteq> Inl Panic" "within d \<longrightarrow> within d1" using Next_safe [of d] by (auto simp: moved_def)
  show ?case
  proof (cases r)
    case (Inl f)
    with n s show ?thesis by (simp add: skipRest_loop.simps [of depth d] tlv_fault_Panic)
  next
    case (Inr el)
    with "1.IH" [OF _ n [symmetric] Inr] n s show ?thesis
      by (simp add: skipRest_loop.simps [of depth d])
  qed
qed

lemma skip_if_container_safe:
  "fst (skip_if_container el d) \<noteq> Inl Panic" "within d \<Longrightarrow> within (snd (skip_if_container el d))"
  using skipRest_loop_safe [of 1 d] by (simp_all add: skip_if_container_def skipRest_def)

lemma slice_infix: "i < j \<Longrightarrow> slice b i j = Inr v \<Longrightarrow> v \<noteq> [] \<and> (\<exists>pre post. b = pre @ v @ post)"
proof -
  assume a: "i < j" "slice b i j = Inr v"
  then have j: "j \<le> length b" and v: "v = take (j - i) (drop i b)" by (auto simp: slice_def split: if_splits)
  have "b = take i b @ v @ drop j b"
    unfolding v using a(1) by (metis append_take_drop_id drop_drop le_add_diff_inverse2 less_imp_le_nat)
  moreover have "v \<noteq> []" using a(1) j v by simp
  ultimately show ?thesis by blast
qed

lemma extra_loop_safe:
  "dec_buf d = b \<Longrightarrow> within d \<Longrightarrow> extra_inv b e \<Longrightarrow>
   fst (extra_loop b e d) \<noteq> Inl Panic \<and> (\<forall>e'. fst (extra_loop b e d) = Inr e' \<longrightarrow> extra_inv b e')"
proof (induction b e d rule: extra_loop.induct)
  case (1 b e d)
  obtain r d1 where n: "Next d = (r, d1)" by (cases "Next d")
  then have r: "r \<noteq> Inl Panic" using Next_safe [of d] by auto
  show ?case
  proof (cases r)
    case (Inl f)
    with n r show ?thesis by (auto simp: extra_loop.simps [of b e d] tlv_fault_Panic Let_def)
  next
    case (Inr el)
    have d1: "dec_buf d1 = b" "dec_pos d < dec_pos d1" "within d1"
      using Next_consumes [of d el d1] n Inr "1.prems" by (simp_all add: within_def)
    obtain s d2 where k: "skip_if_container el d1 = (s, d2)" by (cases "skip_if_container el d1")
    then have s: "s \<noteq> Inl Panic" "within d2" using skip_if_container_safe(1) [of el d1] skip_if_container_safe(2) [OF d1(3), of el] by auto
    let ?tg = "tag_Number (el_Tag el)"
    consider "el_IsEndContainer el" | "\<not> el_IsEndContainer el" "tag_Kind (el_Tag el) \<noteq> TagKindContext"
      | "\<not> el_IsEndContainer el" "tag_Kind (el_Tag el) = TagKindContext" "?tg > 0x04 \<and> ?tg < 0x80"
      | f where "\<not> el_IsEndContainer el" "tag_Kind (el_Tag el) = TagKindContext" "\<not> (?tg > 0x04 \<and> ?tg < 0x80)" "s = Inl f"
      | u where "\<not> el_IsEndContainer el" "\<not> tag_Kind (el_Tag el) \<noteq> TagKindContext" "\<not> (?tg > 0x04 \<and> ?tg < 0x80)" "s = Inr u"
      by (cases s) auto
    then show ?thesis
    proof cases
      case 5
      have d2: "dec_buf d2 = b" "dec_pos d < dec_pos d2"
        using skip_if_container_moves [of el d1 u d2] k 5 d1 by auto
      show ?thesis
      proof (cases "?tg \<ge> 0x80")
        case True
        have "dec_pos d2 \<le> length b" using s(2) d2 by (simp add: within_def)
        then obtain v where v: "slice b (dec_pos d) (dec_pos d2) = (Inr v :: (setup_error, bytes) go)"
          using d2 by (simp add: slice_def)
        have "unat ?tg < 256" using Next_context [of d el d1] n Inr 5(2) by simp
        then have "0x80 \<le> (ucast ?tg :: byte)"
          using True by (simp add: word_le_nat_alt unsigned_ucast_eq unsigned_take_bit_eq take_bit_nat_eq_self)
        then have "extra_inv b (e\<lparr>x_Vendor := (x_Vendor e)(ucast ?tg := Some v)\<rparr>)"
          using "1.prems"(3) slice_infix [OF d2(2) v] by (auto simp: extra_inv_def)
        with "1.IH"(1) [OF refl n [symmetric] Inr 5(1,2) refl 5(3) k [symmetric] 5(4) True v d2(1) s(2)] 
        show ?thesis using n Inr 5 k True v by (simp add: extra_loop.simps [of b e d] Let_def)
      next
        case False
        show ?thesis
        proof (cases "setDefault e ?tg el")
          case (Inl f)
          then show ?thesis using n \<open>r = Inr el\<close> 5 k False setDefault_props(1) [of e ?tg el]
            by (simp add: extra_loop.simps [of b e d] Let_def)
        next
          case e: (Inr e')
          with "1.IH"(2) [OF refl n [symmetric] Inr 5(1,2) refl 5(3) k [symmetric] 5(4) False e d2(1) s(2)]
            setDefault_props(2) [OF "1.prems"(3) e]
          show ?thesis using n Inr 5 k False by (simp add: extra_loop.simps [of b e d] Let_def)
        qed
      qed
    qed (use n Inr "1.prems" s k in \<open>simp_all add: extra_loop.simps [of b e d] Let_def\<close>)
  qed
qed

lemma DecodeExtra_props:
  "DecodeExtra b \<noteq> Inl Panic"
  "DecodeExtra b = Inr e \<Longrightarrow> extra_inv b e \<and> (x_PBKDFIterations e = 0 \<longleftrightarrow> x_PBKDFSalt e = [])"
proof -
  obtain r d where n: "Next (NewDecoder b) = (r, d)" by (cases "Next (NewDecoder b)")
  have w: "within (NewDecoder b)" "dec_buf (NewDecoder b) = b" by (simp_all add: within_def NewDecoder_def)
  then have d: "r \<noteq> Inl Panic" "dec_buf d = b" "within d"
    using Next_safe [of "NewDecoder b"] n by (auto simp: moved_def)
  obtain s d' where l: "extra_loop b (raw_extra b) d = (s, d')" by (cases "extra_loop b (raw_extra b) d")
  note safe = extra_loop_safe [OF d(2,3) raw_extra_inv]
  show "DecodeExtra b \<noteq> Inl Panic"
    using n d l safe by (auto simp: DecodeExtra_def and_then_Panic_iff tlv_fault_Panic split: sum.splits)
  show "DecodeExtra b = Inr e \<Longrightarrow> extra_inv b e \<and> (x_PBKDFIterations e = 0 \<longleftrightarrow> x_PBKDFSalt e = [])"
    using n d l safe by (auto simp: DecodeExtra_def and_then_Inr_iff split: sum.splits if_splits)
qed

section \<open>Panics\<close>

lemma group_value_no_panic: "off + n \<le> length s \<Longrightarrow> group_value s off n v \<noteq> Inl Panic"
  by (induction n arbitrary: v) (auto simp: and_then_Panic_iff index_def split: option.splits)

lemma decode_group_no_panic: "off + n \<le> length s \<Longrightarrow> decode_group s off n k \<noteq> Inl Panic"
  using group_value_no_panic [of off n s 0] by (auto simp: decode_group_def and_then_Panic_iff split: if_splits)

lemma base38_loop_no_panic:
  "off \<le> length s \<Longrightarrow> (length s - off) mod 5 \<in> {0, 2, 4} \<Longrightarrow> base38_loop s off out \<noteq> Inl Panic"
proof (induction s off out rule: base38_loop.induct)
  case (1 s off out)
  consider "length s = off" | "5 \<le> length s - off" | "length s - off = 4" | "length s - off = 2"
    using "1.prems" by (cases "5 \<le> length s - off") auto
  then show ?case
  proof cases
    case 2
    then have m: "(length s - (off + 5)) mod 5 \<in> {0, 2, 4}" using "1.prems"(2) by (metis diff_diff_left le_mod_geq)
    have "base38_loop s (off + 5) (out @ g) \<noteq> Inl Panic" if "decode_group s off 5 3 = Inr g" for g
      by (rule "1.IH"(1)) (use 2 that m in auto)
    with 2 show ?thesis
      using decode_group_no_panic [of off 5 s 3] by (subst base38_loop.simps) (auto simp: and_then_Panic_iff)
  next
    case 3
    have "base38_loop s (off + 4) (out @ g) \<noteq> Inl Panic" if "decode_group s off 4 2 = Inr g" for g
      by (rule "1.IH"(2)) (use 3 that in auto)
    with 3 show ?thesis
      using decode_group_no_panic [of off 4 s 2] by (subst base38_loop.simps) (auto simp: and_then_Panic_iff)
  next
    case 4
    have "base38_loop s (off + 2) (out @ g) \<noteq> Inl Panic" if "decode_group s off 2 1 = Inr g" for g
      by (rule "1.IH"(3)) (use 4 that in auto)
    with 4 show ?thesis
      using decode_group_no_panic [of off 2 s 1] by (subst base38_loop.simps) (auto simp: and_then_Panic_iff)
  qed (simp add: base38_loop.simps)
qed

lemma decodeQRPart_no_panic: "decodeQRPart part \<noteq> Inl Panic"
proof -
  have "base38Decode part \<noteq> Inl Panic" using base38_loop_no_panic [of 0 part "[]"] by (simp add: base38Decode_def)
  moreover have "decode_tail b \<noteq> Inl Panic" for b
    using DecodeExtra_props(1) [of b] by (auto simp: decode_tail_def split: sum.splits fault.splits)
  ultimately show ?thesis
    by (auto simp: decodeQRPart_def and_then_Panic_iff Let_def assertValidPayloadIdentity_def split: if_splits)
qed

lemma decode_parts_no_panic: "decode_parts ps \<noteq> Inl Panic"
  by (induction ps) (auto simp: and_then_Panic_iff decodeQRPart_no_panic)

section \<open>Properties\<close>

text \<open>
  C31. Base 38 is a bijection: the decoder accepts exactly the texts the encoder writes, and
  returns the bytes they were written from.
\<close>

theorem base38_bijection: "base38Decode s = Inr b \<longleftrightarrow> base38Encode b = s"
  by (rule base38Decode_iff)

text \<open>
  C16. A QR code decodes to the payload it was made from, its TLV tail included, when the
  payload names an admissible vendor and product and its tail, if any, is one that
  \<open>DecodeExtra\<close> returns.
\<close>

theorem QRCode_roundtrip:
  assumes "QRCode p = Inr s"
    and "assertValidPayloadIdentity (ucast (q_VendorID p)) (ucast (q_ProductID p)) = Inr ()"
    and "\<And>e. q_Extra p = Some e \<Longrightarrow> DecodeExtra (x_Raw e) = Inr e"
  shows "DecodeQRCode s = Inr p"
  using assms by (rule QRCode_decodes)

definition sample_payload :: payload where
  "sample_payload = \<lparr>q_Version = 0, q_VendorID = 0xFFF1, q_ProductID = 0x8000, q_CustomFlow = 0,
     q_DiscoveryCaps = 4, q_Discriminator = 3840, q_Passcode = 20202021, q_Extra = None\<rparr>"

lemma sample_QRCode: "QRCode sample_payload = Inr (qrPrefix @ base38Encode (le_bytes 11 (header_bits sample_payload)))"
proof -
  have "length (base38Encode (le_bytes 11 (header_bits sample_payload))) = 19"
    by (simp add: base38Encode_length)
  then show ?thesis
    by (simp add: QRCode_def qrCode_def qrEncode_def Payload_Validate_def MaxDiscriminator_def
        IsValidSetupPIN_def trivialPINs_def MaxQRCodeLength_def qrPrefix_def ascii_def sample_payload_def)
qed

theorem QRCode_roundtrip_witness:
  "DecodeQRCode (qrPrefix @ base38Encode (le_bytes 11 (header_bits sample_payload))) = Inr sample_payload"
  using QRCode_roundtrip [OF sample_QRCode]
  by (simp add: assertValidPayloadIdentity_def maxVendorID_def sample_payload_def)

text \<open>
  C32. The manual code of a valid discriminator and passcode, short or long, decodes to the
  upper four bits of the discriminator, the passcode and the vendor and product, whatever
  other characters are typed between its digits.
\<close>

theorem ManualCode_roundtrip:
  assumes "manualCode discriminator passcode vp True = Inr s"
    and "assertValidPayloadIdentity (fst (identity_of vp)) (snd (identity_of vp)) = Inr ()"
    and "filter is_digit typed = s"
  shows "DecodeManualCode typed =
    Inr \<lparr>m_ShortDiscriminator = ucast (drop_bit 8 discriminator), m_Passcode = passcode,
      m_VendorID = (case vp of None \<Rightarrow> 0 | Some (v, p) \<Rightarrow> v), m_ProductID = (case vp of None \<Rightarrow> 0 | Some (v, p) \<Rightarrow> p),
      m_HasVendorProduct = (vp \<noteq> None)\<rparr>"
  using DecodeManualCode_manual [OF assms] by (simp add: manual_of_def)

definition sample_code :: bytes where
  "sample_code = ascii ''34970112332''"

lemma sample_ManualCode: "manualCode 3840 20202021 None True = Inr sample_code"
proof -
  have d: "manual_digits 3840 20202021 None = ascii ''3497011233''"
    by (simp add: manual_digits_def upper_part_def middle_part_def padded_def decimal.simps ascii_def)
  have "check_char (ascii ''3497011233'') = 50"
    by (simp add: check_char_def ascii_def digit_of_def dihedral_def position_perm_def
        verhoeffTableD_def verhoeffTableP_def verhoeffTableInv_def)
  with d show ?thesis
    by (simp add: manualCode_iff MaxDiscriminator_def IsValidSetupPIN_def trivialPINs_def sample_code_def ascii_def)
qed

lemma sample_code_decodes: "DecodeManualCode sample_code = Inr (manual_of 3840 20202021 None)"
  by (rule DecodeManualCode_manual [OF sample_ManualCode])
     (simp_all add: identity_of_def assertValidPayloadIdentity_def sample_code_def ascii_def is_digit_def)

theorem ManualCode_roundtrip_witness:
  "DecodeManualCode (ascii ''3497-011-2332'') =
     Inr \<lparr>m_ShortDiscriminator = 15, m_Passcode = 20202021, m_VendorID = 0, m_ProductID = 0, m_HasVendorProduct = False\<rparr>"
  using ManualCode_roundtrip [OF sample_ManualCode, of "ascii ''3497-011-2332''"]
  by (simp add: identity_of_def assertValidPayloadIdentity_def ascii_def is_digit_def sample_code_def drop_bit_eq_div)

text \<open>
  C17. One mistyped digit, or two neighbouring digits swapped, never turns an accepted manual
  code into another accepted one, the check digit included.
\<close>

theorem ManualCode_detects_errors:
  assumes "DecodeManualCode s = Inr m" and "list_all is_digit s"
  shows "(i < length s \<and> is_digit d \<and> d \<noteq> s ! i \<longrightarrow> isl (DecodeManualCode (s[i := d])))
    \<and> (s = xs @ a # b # ys \<and> a \<noteq> b \<longrightarrow> isl (DecodeManualCode (xs @ b # a # ys)))"
proof -
  have changed: "isl (DecodeManualCode s')" if "list_all is_digit s'" "code_sum s' \<noteq> code_sum s" for s'
    using that verify_manual [OF assms(2,1)] verify_manual [OF that(1)] by (cases "DecodeManualCode s'") auto
  have ten: "\<forall>x \<in> set (map digit_of (rev s)). x < 10"
    using assms(2) by (auto simp: list_all_iff dest: is_digit_value)
  have inj: "digit_of x \<noteq> digit_of y" if "is_digit x" "is_digit y" "x \<noteq> y" for x y
    using that is_digit_value by metis
  have "isl (DecodeManualCode (s[i := d]))" if i: "i < length s" "is_digit d" "d \<noteq> s ! i"
  proof (rule changed)
    show "list_all is_digit (s[i := d])"
      using assms(2) i(2) set_update_subset_insert [of s i d] by (auto simp: list_all_iff)
    have "digit_of d \<noteq> map digit_of (rev s) ! (length s - Suc i)"
      using i inj [of d "s ! i"] assms(2) by (auto simp: rev_nth list_all_iff)
    then show "code_sum (s[i := d]) \<noteq> code_sum s"
      using verhoeff.detects_substitution [OF ten, of "length s - Suc i" "digit_of d" 0] i is_digit_value [of d]
      by (simp add: code_sum_def rev_update map_update)
  qed
  moreover have "isl (DecodeManualCode (xs @ b # a # ys))" if s: "s = xs @ a # b # ys" "a \<noteq> b"
  proof (rule changed)
    show "list_all is_digit (xs @ b # a # ys)" using assms(2) s by auto
    have "digit_of b \<noteq> digit_of a" using assms(2) s inj by auto
    then show "code_sum (xs @ b # a # ys) \<noteq> code_sum s"
      using verhoeff.detects_swap [of "map digit_of (rev ys)" "digit_of b" "digit_of a" "map digit_of (rev xs)" 0] ten s
      by (simp add: code_sum_def)
  qed
  ultimately show ?thesis by blast
qed

theorem ManualCode_detects_errors_witness:
  "isl (DecodeManualCode (ascii ''34970112432'')) \<and> isl (DecodeManualCode (ascii ''34970112323''))"
  using ManualCode_detects_errors [OF sample_code_decodes, of 8 52 "ascii ''349701123''" 51 50 "[]"]
  by (simp add: sample_code_def ascii_def is_digit_def)

text \<open>
  Decoding a QR code, a manual code or a TLV tail never panics, whatever the input.
\<close>

theorem setup_no_panic:
  "DecodeQRCodes s \<noteq> Inl Panic \<and> DecodeQRCode s \<noteq> Inl Panic \<and> DecodeManualCode s \<noteq> Inl Panic \<and> DecodeExtra b \<noteq> Inl Panic"
proof -
  have "DecodeQRCodes s \<noteq> Inl Panic" by (simp add: DecodeQRCodes_def decode_parts_no_panic)
  then show ?thesis
    by (auto simp: DecodeQRCode_def and_then_Panic_iff DecodeManualCode_no_panic DecodeExtra_props(1) split: if_splits)
qed


definition sample_tail :: bytes where
  "sample_tail = [0x15, 0x25, 0x01, 0xE8, 0x03, 0x30, 0x02, 0x10,
     1, 2, 3, 4, 5, 6, 7, 8, 9, 10, 11, 12, 13, 14, 15, 16, 0x24, 0x80, 0x07, 0x18]"


end
