(* ===== verification/Btp_Codec.thy ===== *)
theory Btp_Codec
  imports Wire
begin

text \<open>
  The Bluetooth transport protocol (BTP): packet, handshake and advertisement codecs
  (\<^verbatim>\<open>transport/btp/codec.go\<close>) and constants (\<^verbatim>\<open>transport/btp/consts.go\<close>). An error is a
  constructor per message; \<open>Protocol\<close> errors are the \<open>*ProtocolError\<close> of the source and
  \<open>Flow\<close> errors its \<open>*FlowError\<close>.
\<close>

unbundle bit_operations_syntax

section \<open>Errors and constants\<close>

datatype protocol_violation =
    Bad_Handshake_Header | Bad_Handshake_Opcode | No_Valid_Version | No_Supported_Version | Unsupported_Version
  | Unexpected_Opcode | Handshake_Packet | Ack_Unflagged | Ack_Missing | Begin_And_Continue | End_Alone
  | Payload_Missing | Length_Missing | Length_Unexpected
  | Exceeds_Fragment | Not_Data | Empty_Packet | Wrong_Sequence | Invalid_Ack
  | Begin_While_Reassembling | Continue_Without_Begin | Continue_Empty | Exceeds_Length | End_Without_Begin
  | Length_Mismatch

datatype flow_violation = Not_Active | Empty_Message | Message_Too_Long | No_Room | Exceeds_Maximum

datatype btp_error =
    Protocol protocol_violation
  | Flow flow_violation
  | ErrTruncated
  | ErrInvalidAdvertisement
  | Segment_Size_Too_Small
  | Write_Failed
  | Message_Failed

abbreviation headerHandshakeBit :: byte where "headerHandshakeBit \<equiv> 0x40"
abbreviation headerManagementMsg :: byte where "headerManagementMsg \<equiv> 0x20"
abbreviation headerAckMsg :: byte where "headerAckMsg \<equiv> 0x08"
abbreviation headerEndSegment :: byte where "headerEndSegment \<equiv> 0x04"
abbreviation headerContinuingSegment :: byte where "headerContinuingSegment \<equiv> 0x02"
abbreviation headerBeginSegment :: byte where "headerBeginSegment \<equiv> 0x01"
abbreviation handshakeManagementOpcode :: byte where "handshakeManagementOpcode \<equiv> 0x6C"
abbreviation handshakeHeader :: byte where "handshakeHeader \<equiv> 0x65"
abbreviation advertisementServiceDataID :: u16 where "advertisementServiceDataID \<equiv> 0xFFF6"

definition handshakeResponseLength :: nat where "handshakeResponseLength = 6"

definition MinimumATTMTU :: int where "MinimumATTMTU = 20"
definition MaximumBTPMTU :: int where "MaximumBTPMTU = 244"
definition MaximumWindowSize :: int where "MaximumWindowSize = 255"
definition MaxMatterPayloadSize :: nat where "MaxMatterPayloadSize = 1280 - 48"
definition SupportedVersions :: "int list" where "SupportedVersions = [4]"

definition SegmentSizeFromATTMTU :: "int \<Rightarrow> int" where
  "SegmentSizeFromATTMTU attMTU =
     (let s = attMTU - 3 in
      if s < MinimumATTMTU then MinimumATTMTU
      else if s > MaximumBTPMTU then MaximumBTPMTU
      else s)"

section \<open>Handshake\<close>

record handshake_request =
  hq_Versions :: "int list"
  hq_ATTMTU :: u16
  hq_ClientWindowSize :: byte

record handshake_response =
  hp_Version :: int
  hp_ATTMTU :: u16
  hp_WindowSize :: byte

definition IsHandshakeResponse :: "bytes \<Rightarrow> bool" where
  "IsHandshakeResponse data \<longleftrightarrow>
     length data = handshakeResponseLength \<and> data ! 0 = handshakeHeader \<and> data ! 1 = handshakeManagementOpcode"

definition version_slot :: "handshake_request \<Rightarrow> nat \<Rightarrow> byte" where
  "version_slot r i = (if i < length (hq_Versions r) then word_of_int (hq_Versions r ! i) else 0)"

definition EncodeHandshakeRequest :: "handshake_request \<Rightarrow> bytes" where
  "EncodeHandshakeRequest r =
     (let v = version_slot r in
      [handshakeHeader, handshakeManagementOpcode,
       push_bit 4 (v 1) OR v 0, push_bit 4 (v 3) OR v 2, push_bit 4 (v 5) OR v 4, push_bit 4 (v 7) OR v 6]
      @ put_u16 (hq_ATTMTU r) @ [hq_ClientWindowSize r])"

definition EncodeHandshakeResponse :: "handshake_response \<Rightarrow> bytes" where
  "EncodeHandshakeResponse r =
     [handshakeHeader, handshakeManagementOpcode, word_of_int (hp_Version r AND 0x0F)]
     @ put_u16 (hp_ATTMTU r) @ [hp_WindowSize r]"

text \<open>The eight slots of four bytes, the low nibble of each byte first.\<close>

definition slots_of :: "bytes \<Rightarrow> int list" where
  "slots_of bs = concat (map (\<lambda>b. [uint (b AND 0x0F), drop_bit 4 (uint (b AND 0xF0))]) bs)"

definition DecodeHandshakeRequest :: "bytes \<Rightarrow> (btp_error, handshake_request) go" where
  "DecodeHandshakeRequest data =
     (if length data < 3 then Inl (Fail ErrTruncated)
      else and_then (index data 0) (\<lambda>h. if h \<noteq> handshakeHeader then Inl (Fail (Protocol Bad_Handshake_Header))
      else and_then (index data 1) (\<lambda>op. if op \<noteq> handshakeManagementOpcode then Inl (Fail (Protocol Bad_Handshake_Opcode))
      else if length data < 6 then Inl (Fail ErrTruncated)
      else and_then (slice data 2 6) (\<lambda>vs.
        let versions = filter (\<lambda>s. s \<noteq> 0) (slots_of vs) in
        if versions = [] then Inl (Fail (Protocol No_Valid_Version))
        else if length data < 9 then Inl (Fail ErrTruncated)
        else and_then (and_then (slice data 6 8) get_u16) (\<lambda>mtu. and_then (index data 8) (\<lambda>win.
          Inr \<lparr>hq_Versions = versions, hq_ATTMTU = mtu, hq_ClientWindowSize = win\<rparr>))))))"

definition DecodeHandshakeResponse :: "bytes \<Rightarrow> (btp_error, handshake_response) go" where
  "DecodeHandshakeResponse data =
     (if length data < 1 then Inl (Fail ErrTruncated)
      else and_then (index data 0) (\<lambda>h. if h \<noteq> handshakeHeader then Inl (Fail (Protocol Bad_Handshake_Header))
      else if length data < 2 then Inl (Fail ErrTruncated)
      else and_then (index data 1) (\<lambda>op. if op \<noteq> handshakeManagementOpcode then Inl (Fail (Protocol Bad_Handshake_Opcode))
      else if length data < 6 then Inl (Fail ErrTruncated)
      else and_then (index data 2) (\<lambda>v. and_then (and_then (slice data 3 5) get_u16) (\<lambda>mtu. and_then (index data 5) (\<lambda>win.
        Inr \<lparr>hp_Version = uint (v AND 0x0F), hp_ATTMTU = mtu, hp_WindowSize = win\<rparr>))))))"

section \<open>Data packets\<close>

record btp_header =
  b_IsHandshakeRequest :: bool
  b_HasManagementOpcode :: bool
  b_HasAckNumber :: bool
  b_IsEndingSegment :: bool
  b_IsContinuingSegment :: bool
  b_IsBeginningSegment :: bool

record btp_payload =
  b_AckNumber :: "byte option"
  b_SequenceNumber :: byte
  b_MessageLength :: "u16 option"
  b_SegmentPayload :: bytes

record packet =
  pk_Header :: btp_header
  pk_Payload :: btp_payload

definition header_of_bits :: "byte \<Rightarrow> btp_header" where
  "header_of_bits bits =
     \<lparr>b_IsHandshakeRequest = (bits AND headerHandshakeBit \<noteq> 0),
      b_HasManagementOpcode = (bits AND headerManagementMsg \<noteq> 0),
      b_HasAckNumber = (bits AND headerAckMsg \<noteq> 0),
      b_IsEndingSegment = (bits AND headerEndSegment \<noteq> 0),
      b_IsContinuingSegment = (bits AND headerContinuingSegment \<noteq> 0),
      b_IsBeginningSegment = (bits AND headerBeginSegment \<noteq> 0)\<rparr>"

text \<open>A field at the front of the rest of the packet, and what is left after it.\<close>

definition front :: "nat \<Rightarrow> (bytes \<Rightarrow> (btp_error, 'a) go) \<Rightarrow> bytes \<Rightarrow> (btp_error, 'a \<times> bytes) go" where
  "front n get rest =
     (if length rest < n then Inl (Fail ErrTruncated)
      else and_then (get rest) (\<lambda>x. and_then (slice_from rest n) (\<lambda>rest'. Inr (x, rest'))))"

definition front_if :: "bool \<Rightarrow> nat \<Rightarrow> (bytes \<Rightarrow> (btp_error, 'a) go) \<Rightarrow> bytes \<Rightarrow> (btp_error, 'a option \<times> bytes) go" where
  "front_if c n get rest =
     (if c then and_then (front n get rest) (\<lambda>(x, rest'). Inr (Some x, rest')) else Inr (None, rest))"

definition DecodePacket :: "bytes \<Rightarrow> (btp_error, packet) go" where
  "DecodePacket data =
     (if length data < 1 then Inl (Fail ErrTruncated)
      else and_then (index data 0) (\<lambda>bits.
        let h = header_of_bits bits in
        if b_HasManagementOpcode h then Inl (Fail (Protocol Unexpected_Opcode))
        else and_then (slice_from data 1) (\<lambda>rest.
          and_then (front_if (b_HasAckNumber h) 1 get_u8 rest) (\<lambda>(ack, rest).
          and_then (front 1 get_u8 rest) (\<lambda>(sn, rest).
          and_then (front_if (b_IsBeginningSegment h) 2 get_u16 rest) (\<lambda>(len, rest).
            Inr \<lparr>pk_Header = h, pk_Payload = \<lparr>b_AckNumber = ack, b_SequenceNumber = sn,
                   b_MessageLength = len, b_SegmentPayload = rest\<rparr>\<rparr>))))))"

definition header_bits_of :: "btp_header \<Rightarrow> byte" where
  "header_bits_of h =
     (if b_HasAckNumber h then headerAckMsg else 0) OR (if b_IsEndingSegment h then headerEndSegment else 0)
     OR (if b_IsContinuingSegment h then headerContinuingSegment else 0)
     OR (if b_IsBeginningSegment h then headerBeginSegment else 0)"

definition packet_violation :: "btp_header \<Rightarrow> btp_payload \<Rightarrow> protocol_violation option" where
  "packet_violation h p =
     (if \<not> b_HasAckNumber h \<and> b_AckNumber p \<noteq> None then Some Ack_Unflagged
      else if b_HasAckNumber h \<and> b_AckNumber p = None then Some Ack_Missing
      else if b_IsBeginningSegment h \<and> b_IsContinuingSegment h then Some Begin_And_Continue
      else if b_IsEndingSegment h \<and> \<not> b_IsContinuingSegment h \<and> \<not> b_IsBeginningSegment h then Some End_Alone
      else if (b_IsBeginningSegment h \<or> b_IsContinuingSegment h) \<and> length (b_SegmentPayload p) = 0 then Some Payload_Missing
      else if b_IsBeginningSegment h \<and> b_MessageLength p = None then Some Length_Missing
      else if \<not> b_IsBeginningSegment h \<and> b_MessageLength p \<noteq> None then Some Length_Unexpected
      else None)"

definition EncodePacket :: "packet \<Rightarrow> (btp_error, bytes) go" where
  "EncodePacket pk =
     (let h = pk_Header pk; p = pk_Payload pk in
      if b_IsHandshakeRequest h \<or> b_HasManagementOpcode h then Inl (Fail (Protocol Handshake_Packet))
      else (case packet_violation h p of
          Some v \<Rightarrow> Inl (Fail (Protocol v))
        | None \<Rightarrow> Inr ([header_bits_of h] @ (case b_AckNumber p of None \<Rightarrow> [] | Some a \<Rightarrow> [a])
            @ [b_SequenceNumber p] @ (case b_MessageLength p of None \<Rightarrow> [] | Some l \<Rightarrow> put_u16 l)
            @ b_SegmentPayload p)))"

section \<open>Advertisements\<close>

record advertisement =
  a_Discriminator :: u16
  a_VendorID :: u16
  a_ProductID :: u16
  a_HasAdditionalAdvertisementData :: bool

definition EncodeAdvertisementData :: "u16 \<Rightarrow> u16 \<Rightarrow> u16 \<Rightarrow> bool \<Rightarrow> bool \<Rightarrow> bytes" where
  "EncodeAdvertisementData discriminator vendorID productID hasAdditionalData extendedAnnouncement =
     (let vendorID = (if extendedAnnouncement then 0 else vendorID);
          productID = (if extendedAnnouncement then 0 else productID);
          flags = (if hasAdditionalData then 1 else 0) OR (if extendedAnnouncement then 2 else 0)
      in [0x02, 0x01, 0x06, 0x0B, 0x16] @ put_u16 advertisementServiceDataID @ [0x00]
         @ put_u16 discriminator @ put_u16 vendorID @ put_u16 productID @ [flags])"

definition DecodeAdvertisementServiceData :: "bytes \<Rightarrow> (btp_error, advertisement) go" where
  "DecodeAdvertisementServiceData data =
     (if length data < 1 then Inl (Fail ErrTruncated)
      else and_then (index data 0) (\<lambda>op. if op \<noteq> 0x00 then Inl (Fail ErrInvalidAdvertisement)
      else if length data < 8 then Inl (Fail ErrTruncated)
      else and_then (and_then (slice data 1 3) get_u16) (\<lambda>disc. and_then (and_then (slice data 3 5) get_u16) (\<lambda>vid.
           and_then (and_then (slice data 5 7) get_u16) (\<lambda>pid. and_then (index data 7) (\<lambda>fl.
             Inr \<lparr>a_Discriminator = disc, a_VendorID = vid, a_ProductID = pid,
                  a_HasAdditionalAdvertisementData = (fl \<noteq> 0)\<rparr>))))))"

definition DecodeAdvertisementData :: "bytes \<Rightarrow> (btp_error, advertisement) go" where
  "DecodeAdvertisementData data =
     (if length data < 7 then Inl (Fail ErrTruncated)
      else and_then (slice data 0 5) (\<lambda>ad.
        if ad \<noteq> [0x02, 0x01, 0x06, 0x0B, 0x16] then Inl (Fail ErrInvalidAdvertisement)
        else and_then (and_then (slice data 5 7) get_u16) (\<lambda>svc.
          if svc \<noteq> advertisementServiceDataID then Inl (Fail ErrInvalidAdvertisement)
          else and_then (slice_from data 7) DecodeAdvertisementServiceData)))"

section \<open>Packets\<close>

lemma header_bits_roundtrip:
  "header_of_bits (header_bits_of h) = h\<lparr>b_IsHandshakeRequest := False, b_HasManagementOpcode := False\<rparr>"
  by (auto simp: header_of_bits_def header_bits_of_def)

lemma front_u8: "front (Suc 0) get_u8 (x # rest) = Inr (x, rest)"
  by (simp add: front_def get_u8_def slice_from_def)

lemma front_u16: "front 2 get_u16 (put_u16 v @ rest) = Inr (v, rest)"
  by (simp add: front_def slice_from_def)

lemma DecodePacket_EncodePacket:
  assumes "EncodePacket pk = Inr b"
  shows "DecodePacket b = Inr pk"
proof -
  obtain h p where pk: "pk = \<lparr>pk_Header = h, pk_Payload = p\<rparr>" by (cases pk) auto
  from assms pk have h: "\<not> b_IsHandshakeRequest h" "\<not> b_HasManagementOpcode h" "packet_violation h p = None"
    and b: "b = [header_bits_of h] @ (case b_AckNumber p of None \<Rightarrow> [] | Some a \<Rightarrow> [a]) @ [b_SequenceNumber p]
      @ (case b_MessageLength p of None \<Rightarrow> [] | Some l \<Rightarrow> put_u16 l) @ b_SegmentPayload p"
    by (auto simp: EncodePacket_def Let_def split: if_splits option.splits)
  have hb: "header_of_bits (header_bits_of h) = h" using h by (simp add: header_bits_roundtrip)
  have agree: "b_HasAckNumber h \<longleftrightarrow> b_AckNumber p \<noteq> None" "b_IsBeginningSegment h \<longleftrightarrow> b_MessageLength p \<noteq> None"
    using h(3) by (auto simp: packet_violation_def split: if_splits)
  show ?thesis
    using hb h(2) agree unfolding b pk
    by (cases "b_AckNumber p"; cases "b_MessageLength p")
       (auto simp: DecodePacket_def front_if_def front_u8 front_u16 slice_from_def)
qed

section \<open>Handshakes and advertisements\<close>

lemma nibbles:
  fixes a b :: byte
  assumes "a \<le> 15" "b \<le> 15"
  shows "uint ((push_bit 4 a OR b) AND 0x0F) = uint b" "drop_bit 4 (uint ((push_bit 4 a OR b) AND 0xF0)) = uint a"
proof -
  have m: "(0x0F :: byte) = mask 4" "(0xF0 :: byte) = push_bit 4 (mask 4)" by (simp_all add: mask_eq_exp_minus_1)
  have t: "take_bit 4 x = x" if "x \<le> 15" for x :: byte
    using that by (intro word_take_bit_self) (simp add: word_le_nat_alt)
  have small: "n < 4" if "x \<le> 15" "bit x n" for x :: byte and n
    using t [OF that(1)] that(2) by (metis bit_take_bit_iff)
  have "(push_bit 4 a OR b) AND 0x0F = b"
    unfolding m by (rule bit_word_eqI) (auto simp: bit_simps dest: small [OF assms(2)])
  then show "uint ((push_bit 4 a OR b) AND 0x0F) = uint b" by simp
  have drop: "uint (drop_bit 4 w) = drop_bit 4 (uint w)" for w :: byte
    using uint_lt2p [of w] by (simp add: unsigned_drop_bit_eq take_bit_int_eq_self)
  have "drop_bit 4 ((push_bit 4 a OR b) AND 0xF0) = a"
    unfolding m by (rule bit_word_eqI) (auto simp: bit_simps dest: small [OF assms(1)] small [OF assms(2)])
  then show "drop_bit 4 (uint ((push_bit 4 a OR b) AND 0xF0)) = uint a"
    using drop by metis
qed

lemma slots_of_encoded:
  assumes v: "\<forall>v \<in> set (hq_Versions r). 0 < v \<and> v \<le> 15" and n: "length (hq_Versions r) \<le> 8"
  shows "filter (\<lambda>s. s \<noteq> 0) (slots_of [push_bit 4 (version_slot r 1) OR version_slot r 0, push_bit 4 (version_slot r 3) OR version_slot r 2,
     push_bit 4 (version_slot r 5) OR version_slot r 4, push_bit 4 (version_slot r 7) OR version_slot r 6]) = hq_Versions r"
proof -
  let ?f = "\<lambda>i. if i < length (hq_Versions r) then hq_Versions r ! i else 0"
  have b: "version_slot r i \<le> 15 \<and> uint (version_slot r i) = ?f i" for i
  proof (cases "i < length (hq_Versions r)")
    case True
    then have i: "0 < hq_Versions r ! i" "hq_Versions r ! i \<le> 15" using v by auto
    then have "uint (word_of_int (hq_Versions r ! i) :: byte) = hq_Versions r ! i"
      by (simp add: unsigned_of_int take_bit_int_eq_self)
    with True i show ?thesis by (simp add: version_slot_def word_le_def)
  qed (simp add: version_slot_def)
  have "slots_of [push_bit 4 (version_slot r 1) OR version_slot r 0, push_bit 4 (version_slot r 3) OR version_slot r 2,
     push_bit 4 (version_slot r 5) OR version_slot r 4, push_bit 4 (version_slot r 7) OR version_slot r 6] =
     map ?f [0, 1, 2, 3, 4, 5, 6, 7]"
    unfolding slots_of_def by (simp only: list.map concat.simps append.simps nibbles b)
  also have "[0, 1, 2, 3, 4, 5, 6, 7] = [0..<8]" by code_simp
  also have "[0..<8] = [0..<length (hq_Versions r)] @ [length (hq_Versions r)..<8]"
    using n by (metis le_add_diff_inverse le0 upt_add_eq_append)
  also have "map ?f \<dots> = hq_Versions r @ replicate (8 - length (hq_Versions r)) 0"
    by (auto intro!: nth_equalityI simp: nth_append)
  finally show ?thesis using v by (auto simp: filter_id_conv)
qed

lemma slice_u16_at:
  "length pre = i \<Longrightarrow> j = i + 2 \<Longrightarrow> and_then (slice (pre @ put_u16 v @ post) i j) get_u16 = Inr v"
  by (simp add: slice_def)

lemma DecodeHandshakeRequest_Encode:
  assumes v: "\<forall>v \<in> set (hq_Versions r). 0 < v \<and> v \<le> 15" and n: "length (hq_Versions r) \<le> 8" "hq_Versions r \<noteq> []"
  shows "DecodeHandshakeRequest (EncodeHandshakeRequest r) = Inr r"
proof -
  define vs where "vs = [push_bit 4 (version_slot r 1) OR version_slot r 0, push_bit 4 (version_slot r 3) OR version_slot r 2,
     push_bit 4 (version_slot r 5) OR version_slot r 4, push_bit 4 (version_slot r 7) OR version_slot r 6]"
  have e: "EncodeHandshakeRequest r = ([handshakeHeader, handshakeManagementOpcode] @ vs) @ put_u16 (hq_ATTMTU r) @ [hq_ClientWindowSize r]"
    by (simp add: EncodeHandshakeRequest_def vs_def Let_def)
  have l: "length vs = 4" by (simp add: vs_def)
  have "slice (EncodeHandshakeRequest r) 2 6 = (Inr vs :: (btp_error, bytes) go)" unfolding e using l by (simp add: slice_def)
  moreover have "and_then (slice (EncodeHandshakeRequest r) 6 8) get_u16 = (Inr (hq_ATTMTU r) :: (btp_error, u16) go)"
    unfolding e by (rule slice_u16_at) (simp_all add: l)
  moreover have "index (EncodeHandshakeRequest r) 8 = (Inr (hq_ClientWindowSize r) :: (btp_error, byte) go)"
    "index (EncodeHandshakeRequest r) 0 = (Inr handshakeHeader :: (btp_error, byte) go)"
    "index (EncodeHandshakeRequest r) 1 = (Inr handshakeManagementOpcode :: (btp_error, byte) go)"
    "length (EncodeHandshakeRequest r) = 9"
    unfolding e by (simp_all add: index_def l nth_append)
  moreover have "filter (\<lambda>s. s \<noteq> 0) (slots_of vs) = hq_Versions r"
    unfolding vs_def by (rule slots_of_encoded [OF v n(1)])
  ultimately show ?thesis using n(2) by (simp add: DecodeHandshakeRequest_def Let_def)
qed

lemma DecodeHandshakeResponse_Encode:
  assumes "0 \<le> hp_Version r" "hp_Version r \<le> 15"
  shows "DecodeHandshakeResponse (EncodeHandshakeResponse r) = Inr r"
proof -
  let ?b = "[handshakeHeader, handshakeManagementOpcode, word_of_int (hp_Version r AND 0x0F)]"
  have m: "(0x0F :: int) = mask 4" "(0x0F :: byte) = mask 4" by (simp_all add: mask_eq_exp_minus_1)
  have "hp_Version r AND 0x0F = hp_Version r"
    unfolding m using assms by (simp add: take_bit_eq_mask [symmetric] take_bit_int_eq_self)
  moreover have "uint (word_of_int (hp_Version r) AND 0x0F :: byte) = hp_Version r"
    unfolding m using assms by (simp add: take_bit_eq_mask [symmetric] unsigned_take_bit_eq unsigned_of_int take_bit_int_eq_self)
  moreover have "and_then (slice (?b @ put_u16 (hp_ATTMTU r) @ [hp_WindowSize r]) 3 5) get_u16 = (Inr (hp_ATTMTU r) :: (btp_error, u16) go)"
    by (rule slice_u16_at) simp_all
  moreover have "index (?b @ put_u16 (hp_ATTMTU r) @ [hp_WindowSize r]) 5 = (Inr (hp_WindowSize r) :: (btp_error, byte) go)"
    by (simp add: index_def nth_append)
  ultimately show ?thesis
    by (simp add: DecodeHandshakeResponse_def EncodeHandshakeResponse_def)
qed

lemma DecodeAdvertisementData_Encode:
  "DecodeAdvertisementData (EncodeAdvertisementData d v p add ext) =
     Inr \<lparr>a_Discriminator = d, a_VendorID = (if ext then 0 else v), a_ProductID = (if ext then 0 else p),
          a_HasAdditionalAdvertisementData = (add \<or> ext)\<rparr>"
proof -
  let ?v = "if ext then 0 else v" and ?p = "if ext then 0 else p"
  let ?fl = "(if add then 1 else 0) OR (if ext then 2 else 0) :: byte"
  let ?s = "[0x00] @ put_u16 d @ put_u16 ?v @ put_u16 ?p @ [?fl]"
  have e: "EncodeAdvertisementData d v p add ext = [0x02, 0x01, 0x06, 0x0B, 0x16] @ put_u16 advertisementServiceDataID @ ?s"
    by (simp add: EncodeAdvertisementData_def Let_def)
  have "and_then (slice ?s 1 3) get_u16 = (Inr d :: (btp_error, u16) go)"
    by (rule slice_u16_at) simp_all
  moreover have "and_then (slice ?s 3 5) get_u16 = (Inr ?v :: (btp_error, u16) go)"
    using slice_u16_at [of "[0x00] @ put_u16 d" 3 5 ?v "put_u16 ?p @ [?fl]"] by simp
  moreover have "and_then (slice ?s 5 7) get_u16 = (Inr ?p :: (btp_error, u16) go)"
    using slice_u16_at [of "[0x00] @ put_u16 d @ put_u16 ?v" 5 7 ?p "[?fl]"] by simp
  moreover have "index ?s 7 = (Inr ?fl :: (btp_error, byte) go)" by (simp add: index_def nth_append)
  moreover have "?fl \<noteq> 0 \<longleftrightarrow> add \<or> ext" by simp
  ultimately have s: "DecodeAdvertisementServiceData ?s = Inr \<lparr>a_Discriminator = d, a_VendorID = ?v, a_ProductID = ?p,
      a_HasAdditionalAdvertisementData = (add \<or> ext)\<rparr>"
    by (simp add: DecodeAdvertisementServiceData_def)
  have "and_then (slice (EncodeAdvertisementData d v p add ext) 5 7) get_u16 = (Inr advertisementServiceDataID :: (btp_error, u16) go)"
    unfolding e by (rule slice_u16_at) simp_all
  moreover have "slice (EncodeAdvertisementData d v p add ext) 0 5 = (Inr [0x02, 0x01, 0x06, 0x0B, 0x16] :: (btp_error, bytes) go)"
    "slice_from (EncodeAdvertisementData d v p add ext) 7 = (Inr ?s :: (btp_error, bytes) go)"
    "\<not> length (EncodeAdvertisementData d v p add ext) < 7"
    unfolding e by (simp_all add: slice_def slice_from_def)
  ultimately show ?thesis using s by (simp add: DecodeAdvertisementData_def)
qed

end
