(* ===== verification/Btp_Session.thy ===== *)
theory Btp_Session
  imports Btp_Codec
begin

text \<open>
  The BTP session (\<^verbatim>\<open>transport/btp/session.go\<close>). The session's mutex is released around the
  \<open>Write\<close> and \<open>Message\<close> callbacks, so the code between two releases is one section: a
  function from the session to its outcome and the session it leaves. A section ends by
  returning, by handing a packet to \<open>Write\<close>, or by handing a message to \<open>Message\<close>; what the
  method does after the callback is a section of its own. A timer is the flag that it runs.
  The last field counts the calls of \<open>Disconnect\<close>. Logging is not modelled.
\<close>

unbundle bit_operations_syntax

section \<open>State\<close>

datatype role = RoleCentral | RolePeripheral

record session =
  s_role :: role
  s_fragmentSize :: int
  s_windowSize :: int
  s_reassembling :: bool
  s_incomingLen :: nat
  s_incoming :: bytes
  s_prevIncomingSeq :: int
  s_prevIncomingAck :: int
  s_seq :: int
  s_prevAckedSeq :: int
  s_queue :: "(bytes \<times> nat) list"
  s_sendInProgress :: bool
  s_active :: bool
  s_pendingFirstAck :: "bytes list"
  s_pendingLive :: bool
  s_onStall :: bool
  s_stalled :: bool
  s_ackReceiveTimer :: bool
  s_sendAckTimer :: bool
  s_idleTimer :: bool
  s_closed :: bool
  s_disconnects :: nat

datatype outcome = Done | Write_Data bytes bool | Write_Ack bytes | Deliver bytes

type_synonym 'a session_op = "(session, btp_error, 'a) reader"

section \<open>Opening a session\<close>

definition newSession :: "role \<Rightarrow> int \<Rightarrow> int \<Rightarrow> int \<Rightarrow> (btp_error, session) go" where
  "newSession role version fragmentSize windowSize =
     (if version \<noteq> 4 then Inl (Fail (Protocol Unsupported_Version))
      else
        (let s = \<lparr>s_role = role, s_fragmentSize = fragmentSize, s_windowSize = windowSize,
               s_reassembling = False, s_incomingLen = 0, s_incoming = [],
               s_prevIncomingSeq = 255, s_prevIncomingAck = -1, s_seq = 0, s_prevAckedSeq = -1,
               s_queue = [], s_sendInProgress = False, s_active = True,
               s_pendingFirstAck = [], s_pendingLive = True, s_onStall = False, s_stalled = False,
               s_ackReceiveTimer = False, s_sendAckTimer = False, s_idleTimer = False,
               s_closed = False, s_disconnects = 0\<rparr>
         in Inr (if role = RolePeripheral then s\<lparr>s_prevAckedSeq := s_prevIncomingSeq s\<rparr>
                 else s\<lparr>s_prevIncomingSeq := 0, s_prevIncomingAck := -1, s_seq := -1, s_sendAckTimer := True\<rparr>)))"

text \<open>The negotiation of the peripheral: the version, the segment size and the window.\<close>

definition pick_version :: "int list \<Rightarrow> int option" where
  "pick_version versions = find (\<lambda>v. v \<in> set versions) SupportedVersions"

definition peripheral_segment_size :: "int \<Rightarrow> u16 \<Rightarrow> int" where
  "peripheral_segment_size maxDataSize offered =
     (if maxDataSize > MinimumATTMTU then
        (if uint offered \<le> MinimumATTMTU then min maxDataSize MaximumBTPMTU
         else min (uint offered) (min maxDataSize MaximumBTPMTU))
      else MinimumATTMTU)"

text \<open>
  \<open>write\<close> is whether the \<open>Write\<close> callback takes the response. The result is the response
  handed to it and the session.
\<close>

definition NewPeripheral :: "int \<Rightarrow> bytes \<Rightarrow> (bytes \<Rightarrow> bool) \<Rightarrow> (btp_error, bytes \<times> session) go" where
  "NewPeripheral maxDataSize handshakeRequest write =
     and_then (DecodeHandshakeRequest handshakeRequest) (\<lambda>req.
       case pick_version (hq_Versions req) of
         None \<Rightarrow> Inl (Fail (Protocol No_Supported_Version))
       | Some version \<Rightarrow>
           (let attMTU = peripheral_segment_size maxDataSize (hq_ATTMTU req);
                window = min MaximumWindowSize (uint (hq_ClientWindowSize req));
                resp = EncodeHandshakeResponse
                  \<lparr>hp_Version = version, hp_ATTMTU = word_of_int attMTU, hp_WindowSize = word_of_int window\<rparr>
            in and_then (newSession RolePeripheral version attMTU window) (\<lambda>s.
                 if \<not> write resp then Inl (Fail Write_Failed)
                 else Inr (resp, s\<lparr>s_ackReceiveTimer := True\<rparr>))))"

definition NewCentral :: "bytes \<Rightarrow> int \<Rightarrow> (btp_error, session) go" where
  "NewCentral handshakeResponse requestedSegmentSize =
     (if requestedSegmentSize < MinimumATTMTU then Inl (Fail Segment_Size_Too_Small)
      else and_then (DecodeHandshakeResponse handshakeResponse) (\<lambda>resp.
        let fragment = min (uint (hp_ATTMTU resp)) (min requestedSegmentSize MaximumBTPMTU)
        in newSession RoleCentral (hp_Version resp) fragment (uint (hp_WindowSize resp))))"

section \<open>Window\<close>

text \<open>Go's remainder has the sign of the dividend.\<close>

definition go_rem :: "int \<Rightarrow> int \<Rightarrow> int" where
  "go_rem a b = sgn a * (\<bar>a\<bar> mod \<bar>b\<bar>)"

definition modularDistance :: "int \<Rightarrow> int \<Rightarrow> int" where
  "modularDistance from to = go_rem (go_rem (to - from) 256 + 256) 256"

definition remoteWindowFreeSlots :: "session \<Rightarrow> int" where
  "remoteWindowFreeSlots s = s_windowSize s - modularDistance (s_prevIncomingAck s) (s_seq s)"

definition localWindowFreeSlots :: "session \<Rightarrow> int" where
  "localWindowFreeSlots s = s_windowSize s - modularDistance (s_prevAckedSeq s) (s_prevIncomingSeq s)"

definition canSend :: "session \<Rightarrow> bool \<Rightarrow> bool" where
  "canSend s carriesAck =
     (let free = remoteWindowFreeSlots s in
      if free \<le> 0 then False
      else if free \<le> 1 \<and> \<not> carriesAck then False
      else True)"

definition nextSequenceNumber :: "session \<Rightarrow> byte \<times> session" where
  "nextSequenceNumber s =
     (let q = s_seq s + 1; q = (if q > 255 then 0 else q) in (word_of_int q, s\<lparr>s_seq := q\<rparr>))"

section \<open>Closing\<close>

definition stopTimersLocked :: "session \<Rightarrow> session" where
  "stopTimersLocked s = s\<lparr>s_sendAckTimer := False, s_ackReceiveTimer := False, s_idleTimer := False\<rparr>"

definition Close :: "session \<Rightarrow> session" where
  "Close s =
     (let s = stopTimersLocked s in
      if \<not> s_active s then s
      else s\<lparr>s_active := False, s_closed := True, s_disconnects := s_disconnects s + 1\<rparr>)"

definition Suspend :: "session \<Rightarrow> session" where
  "Suspend s = (stopTimersLocked s)\<lparr>s_active := False\<rparr>"

datatype write_result = Write_Ok | Write_Disconnected | Write_Error

definition handleFailedWriteLocked :: "write_result \<Rightarrow> outcome session_op" where
  "handleFailedWriteLocked err s =
     (if \<not> s_active s then (Inr Done, s)
      else if err = Write_Disconnected then (Inr Done, Close s)
      else (Inl (Fail Write_Failed), Close s))"

section \<open>Sending\<close>

text \<open>
  A stand-alone acknowledgement up to its \<open>Write\<close>.
\<close>

definition sendStandaloneAckLocked :: "outcome session_op" where
  "sendStandaloneAckLocked s =
     (if s_sendInProgress s \<or> \<not> s_active s then (Inr Done, s)
      else
        (let ack = s_prevIncomingSeq s in
         if ack = s_prevAckedSeq s then (Inr Done, s)
         else if \<not> canSend s True then (Inr Done, s)
         else
           (case nextSequenceNumber (s\<lparr>s_sendInProgress := True\<rparr>) of (sn, s1) \<Rightarrow>
              (case EncodePacket
                  \<lparr>pk_Header = \<lparr>b_IsHandshakeRequest = False, b_HasManagementOpcode = False, b_HasAckNumber = True,
                     b_IsEndingSegment = False, b_IsContinuingSegment = False, b_IsBeginningSegment = False\<rparr>,
                   pk_Payload = \<lparr>b_AckNumber = Some (word_of_int ack), b_SequenceNumber = sn,
                     b_MessageLength = None, b_SegmentPayload = []\<rparr>\<rparr> of
                 Inl f \<Rightarrow> (Inl f, s1\<lparr>s_sendInProgress := False\<rparr>)
               | Inr packet \<Rightarrow> (Inr (Write_Ack packet), s1\<lparr>s_prevAckedSeq := ack\<rparr>)))))"

text \<open>One turn of the send loop up to its \<open>Write\<close>.\<close>

definition data_packet :: "bool \<Rightarrow> bool \<Rightarrow> byte option \<Rightarrow> byte \<Rightarrow> u16 option \<Rightarrow> bytes \<Rightarrow> packet" where
  "data_packet isBeginning isEnding ack sn len seg =
     \<lparr>pk_Header = \<lparr>b_IsHandshakeRequest = False, b_HasManagementOpcode = False, b_HasAckNumber = (ack \<noteq> None),
        b_IsEndingSegment = isEnding, b_IsContinuingSegment = (\<not> isBeginning), b_IsBeginningSegment = isBeginning\<rparr>,
      pk_Payload = \<lparr>b_AckNumber = ack, b_SequenceNumber = sn, b_MessageLength = len, b_SegmentPayload = seg\<rparr>\<rparr>"

definition send_segment :: "outcome session_op" where
  "send_segment s =
     (let hasAck = s_prevIncomingSeq s \<noteq> s_prevAckedSeq s;
          s1 = (if hasAck then s\<lparr>s_sendAckTimer := False\<rparr> else s)
      in (case s_queue s1 of
            [] \<Rightarrow> (Inl Panic, s1)
          | (data, off) # rest \<Rightarrow>
             (let remaining = length data - off;
                  isBeginning = (remaining = length data);
                  headerLen = 2 + (if isBeginning then 2 else 0) + (if hasAck then 1 else 0);
                  room = s_fragmentSize s1 - headerLen
              in if room \<le> 0 then (Inl (Fail (Flow No_Room)), s1\<lparr>s_sendInProgress := False\<rparr>)
                 else
                   (let isEnding = (int remaining \<le> room);
                        n = min (nat room) remaining
                    in (case slice data off (off + n) of
                          Inl f \<Rightarrow> (Inl f, s1)
                        | Inr seg \<Rightarrow>
                           (case nextSequenceNumber (s1\<lparr>s_queue := (data, off + n) # rest\<rparr>) of (sn, s2) \<Rightarrow>
                              (let ack = (if hasAck then Some (word_of_int (s_prevIncomingSeq s2)) else None);
                                   s3 = (if hasAck then s2\<lparr>s_prevAckedSeq := s_prevIncomingSeq s2\<rparr> else s2);
                                   len = (if isBeginning then Some (word_of_nat remaining) else None)
                               in (case EncodePacket (data_packet isBeginning isEnding ack sn len seg) of
                                     Inl f \<Rightarrow> (Inl f, s3\<lparr>s_sendInProgress := False\<rparr>)
                                   | Inr packet \<Rightarrow> (Inr (Write_Data packet isEnding), s3)))))))))"

text \<open>The head of the loop; leaving it ends with the acknowledgement that could not be piggybacked.\<close>

definition send_loop :: "outcome session_op" where
  "send_loop s =
     (if s_queue s \<noteq> [] \<and> canSend s (s_prevIncomingSeq s \<noteq> s_prevAckedSeq s) then send_segment s
      else sendStandaloneAckLocked (s\<lparr>s_sendInProgress := False\<rparr>))"

definition processSendQueueLocked :: "outcome session_op" where
  "processSendQueueLocked s =
     (if s_sendInProgress s \<or> \<not> s_active s \<or> s_queue s = [] then (Inr Done, s)
      else send_loop (s\<lparr>s_sendInProgress := True\<rparr>))"

text \<open>After the \<open>Write\<close> of a data packet: the rest of the turn and the head of the next.\<close>

definition after_data_write :: "bool \<Rightarrow> write_result \<Rightarrow> outcome session_op" where
  "after_data_write isEnding werr s =
     (if werr \<noteq> Write_Ok then handleFailedWriteLocked werr (s\<lparr>s_queue := [], s_sendInProgress := False\<rparr>)
      else if \<not> s_active s then (Inr Done, s\<lparr>s_queue := [], s_sendInProgress := False\<rparr>)
      else
        (let s1 = s\<lparr>s_ackReceiveTimer := True\<rparr>;
             s2 = (if s_role s1 = RoleCentral then s1\<lparr>s_idleTimer := True\<rparr> else s1)
         in if isEnding then
              (case s_queue s2 of [] \<Rightarrow> (Inl Panic, s2) | _ # rest \<Rightarrow> send_loop (s2\<lparr>s_queue := rest\<rparr>))
            else send_loop s2))"

definition after_ack_write :: "write_result \<Rightarrow> outcome session_op" where
  "after_ack_write werr s =
     (if werr \<noteq> Write_Ok then
        (case handleFailedWriteLocked werr s of (r, s1) \<Rightarrow> (r, s1\<lparr>s_sendInProgress := False\<rparr>))
      else
        (let s1 = s\<lparr>s_sendAckTimer := False\<rparr>;
             s2 = (if s_active s1 then s1\<lparr>s_ackReceiveTimer := True\<rparr> else s1)
         in processSendQueueLocked (s2\<lparr>s_sendInProgress := False\<rparr>)))"

definition Send :: "bytes \<Rightarrow> outcome session_op" where
  "Send msg s =
     (if \<not> s_active s then (Inl (Fail (Flow Not_Active)), s)
      else if length msg = 0 then (Inl (Fail (Flow Empty_Message)), s)
      else if length msg > 0xFFFF then (Inl (Fail (Flow Message_Too_Long)), s)
      else
        (let s1 = (if s_pendingLive s then s\<lparr>s_pendingFirstAck := s_pendingFirstAck s @ [msg]\<rparr> else s)
         in processSendQueueLocked (s1\<lparr>s_queue := s_queue s1 @ [(msg, 0)]\<rparr>)))"

definition Conn_Send :: "bytes \<Rightarrow> outcome session_op" where
  "Conn_Send msg s =
     (if length msg > MaxMatterPayloadSize then (Inl (Fail (Flow Exceeds_Maximum)), s) else Send msg s)"

definition sendImmediateAckIfWindowLowLocked :: "outcome session_op" where
  "sendImmediateAckIfWindowLowLocked s =
     (if s_queue s \<noteq> [] \<or> s_sendInProgress s then (Inr Done, s)
      else if localWindowFreeSlots s > 2 then (Inr Done, s)
      else sendStandaloneAckLocked s)"

section \<open>Receiving\<close>

definition receive_ack :: "btp_header \<Rightarrow> btp_payload \<Rightarrow> unit session_op" where
  "receive_ack h p s =
     (case b_AckNumber p of
        Some a \<Rightarrow>
          if b_HasAckNumber h then
            (let ack = uint a;
                 outstanding = modularDistance (s_prevIncomingAck s) (s_seq s)
             in if modularDistance (s_prevIncomingAck s) ack > outstanding then
                  (Inl (Fail (Protocol Invalid_Ack)), s)
                else (Inr (), s\<lparr>s_prevIncomingAck := ack, s_ackReceiveTimer := (ack \<noteq> s_seq s)\<rparr>))
          else (Inr (), s)
      | None \<Rightarrow> (Inr (), s))"

text \<open>Where a segment goes: the message being reassembled, the message it completes.\<close>

definition add_segment :: "btp_header \<Rightarrow> btp_payload \<Rightarrow> unit session_op" where
  "add_segment h p s =
     (if b_IsBeginningSegment h then
        (if s_reassembling s then (Inl (Fail (Protocol Begin_While_Reassembling)), s)
         else (case b_MessageLength p of
             None \<Rightarrow> (Inl Panic, s)
           | Some l \<Rightarrow> (Inr (), s\<lparr>s_reassembling := True, s_incomingLen := unat l, s_incoming := b_SegmentPayload p\<rparr>)))
      else if b_IsContinuingSegment h \<or> b_IsEndingSegment h then
        (if \<not> s_reassembling s then (Inl (Fail (Protocol Continue_Without_Begin)), s)
         else if length (b_SegmentPayload p) = 0 then (Inl (Fail (Protocol Continue_Empty)), s)
         else if length (s_incoming s) + length (b_SegmentPayload p) > s_incomingLen s then
           (Inl (Fail (Protocol Exceeds_Length)), s)
         else (Inr (), s\<lparr>s_incoming := s_incoming s @ b_SegmentPayload p\<rparr>))
      else (Inr (), s))"

definition finish_message :: "btp_header \<Rightarrow> (bytes option) session_op" where
  "finish_message h s =
     (if b_IsEndingSegment h then
        (if \<not> s_reassembling s then (Inl (Fail (Protocol End_Without_Begin)), s)
         else if length (s_incoming s) \<noteq> s_incomingLen s then (Inl (Fail (Protocol Length_Mismatch)), s)
         else (Inr (Some (s_incoming s)), s\<lparr>s_reassembling := False, s_incomingLen := 0, s_incoming := []\<rparr>))
      else (Inr None, s))"

definition receive_packet :: "packet \<Rightarrow> (bytes option) session_op" where
  "receive_packet pk s =
     (let h = pk_Header pk; p = pk_Payload pk in
      if b_IsHandshakeRequest h \<or> b_HasManagementOpcode h then (Inl (Fail (Protocol Not_Data)), s)
      else if length (b_SegmentPayload p) = 0 \<and> \<not> b_HasAckNumber h then (Inl (Fail (Protocol Empty_Packet)), s)
      else if uint (b_SequenceNumber p) \<noteq> go_rem (s_prevIncomingSeq s + 1) 256 then
        (Inl (Fail (Protocol Wrong_Sequence)), s)
      else
        (let s1 = s\<lparr>s_prevIncomingSeq := uint (b_SequenceNumber p), s_pendingFirstAck := [], s_pendingLive := False,
                    s_sendAckTimer := True\<rparr>
         in read_then (receive_ack h p) (\<lambda>_. read_then (add_segment h p) (\<lambda>_. finish_message h)) s1))"

text \<open>
  The locked part of \<open>HandleIncoming\<close>: up to \<open>Message\<close> when the packet completes a message,
  through the send queue otherwise.
\<close>

definition handleIncomingLocked :: "bytes \<Rightarrow> outcome session_op" where
  "handleIncomingLocked data s =
     (if int (length data) > s_fragmentSize s \<and> int (length data) > s_fragmentSize s + 3 then
        (Inl (Fail (Protocol Exceeds_Fragment)), s)
      else (case DecodePacket data of
          Inl f \<Rightarrow> (Inl f, s)
        | Inr pk \<Rightarrow> (case receive_packet pk s of
            (Inl f, s') \<Rightarrow> (Inl f, s')
          | (Inr (Some msg), s') \<Rightarrow> (Inr (Deliver msg), s')
          | (Inr None, s') \<Rightarrow> processSendQueueLocked s')))"

definition HandleIncoming :: "bytes \<Rightarrow> outcome session_op" where
  "HandleIncoming data s = (if \<not> s_active s then (Inr Done, s) else handleIncomingLocked data s)"

text \<open>What \<open>HandleIncoming\<close> returns for an error, after it has closed the session.\<close>

definition incoming_error :: "btp_error \<Rightarrow> btp_error option" where
  "incoming_error e = (case e of Protocol _ \<Rightarrow> None | _ \<Rightarrow> Some e)"

section \<open>Timers\<close>

definition sendAckTimeoutTriggered :: "outcome session_op" where
  "sendAckTimeoutTriggered s = (if \<not> s_active s then (Inr Done, s) else sendStandaloneAckLocked s)"

definition messagesToReplayOnStallLocked :: "session \<Rightarrow> bytes list option" where
  "messagesToReplayOnStallLocked s =
     (if \<not> s_pendingLive s \<or> s_pendingFirstAck s = [] \<or> \<not> s_onStall s then None
      else if s_role s \<noteq> RoleCentral \<or> s_fragmentSize s \<le> MinimumATTMTU then None
      else Some (s_pendingFirstAck s))"

definition ackTimeoutTriggered :: "session \<Rightarrow> bytes list option \<times> session" where
  "ackTimeoutTriggered s =
     (if \<not> s_active s \<or> s_prevIncomingAck s = s_seq s then (None, s)
      else (case messagesToReplayOnStallLocked s of
          Some replay \<Rightarrow>
            (Some replay,
             (stopTimersLocked (s\<lparr>s_pendingFirstAck := [], s_pendingLive := False\<rparr>))\<lparr>s_active := False, s_stalled := True\<rparr>)
        | None \<Rightarrow> (None, Close s)))"

end
