(* ===== verification/Btp_Steps.thy ===== *)
theory Btp_Steps
  imports Btp_Session "HOL-Library.Sublist"
begin

text \<open>
  A BTP session under every interleaving of its methods, callbacks and timers. A state is the
  session, the writer that is inside \<open>Write\<close> (there is at most one) with the method it returns
  to, the number of \<open>HandleIncoming\<close> calls that are inside \<open>Message\<close>, and three logs: the packets
  handed to \<open>Write\<close>, the messages handed to \<open>Message\<close> and the messages \<open>Send\<close> has accepted.
  A method that closes the session after releasing the mutex does so in the same step; \<open>Close\<close>
  is also a step of its own at any time.
\<close>

unbundle bit_operations_syntax

section \<open>Steps\<close>

datatype writer = W_Data bool | W_Ack

datatype caller = By_Incoming | By_Incoming_Last | By_Other

record net =
  n_s :: session
  n_writer :: "(writer \<times> caller) option"
  n_delivering :: nat
  n_wrote :: "bytes list"
  n_given :: "bytes list"
  n_accepted :: "bytes list"
  n_panicked :: bool

definition conclude :: "caller \<Rightarrow> (btp_error, outcome) go \<times> session \<Rightarrow> net \<Rightarrow> net" where
  "conclude k res n = (case res of
      (Inr Done, s) \<Rightarrow> n\<lparr>n_s := s\<rparr>
    | (Inr (Write_Data p e), s) \<Rightarrow> n\<lparr>n_s := s, n_writer := Some (W_Data e, k), n_wrote := n_wrote n @ [p]\<rparr>
    | (Inr (Write_Ack p), s) \<Rightarrow> n\<lparr>n_s := s, n_writer := Some (W_Ack, k), n_wrote := n_wrote n @ [p]\<rparr>
    | (Inr (Deliver m), s) \<Rightarrow> n\<lparr>n_s := s, n_delivering := n_delivering n + 1, n_given := n_given n @ [m]\<rparr>
    | (Inl (Fail e), s) \<Rightarrow> n\<lparr>n_s := (if k = By_Other then s else Close s)\<rparr>
    | (Inl Panic, s) \<Rightarrow> n\<lparr>n_s := s, n_panicked := True\<rparr>)"

text \<open>\<open>HandleIncoming\<close> ends with the immediate acknowledgement.\<close>

definition run_section :: "caller \<Rightarrow> outcome session_op \<Rightarrow> net \<Rightarrow> net" where
  "run_section k op n = (case op (n_s n) of
      (Inr Done, s) \<Rightarrow>
        if k = By_Incoming then conclude By_Incoming_Last (sendImmediateAckIfWindowLowLocked s) n
        else n\<lparr>n_s := s\<rparr>
    | res \<Rightarrow> conclude k res n)"

definition accepts :: "bytes \<Rightarrow> session \<Rightarrow> bool" where
  "accepts msg s \<longleftrightarrow> s_active s \<and> length msg \<noteq> 0 \<and> length msg \<le> 0xFFFF"

definition note_accepted :: "bytes \<Rightarrow> net \<Rightarrow> net" where
  "note_accepted msg n = (if accepts msg (n_s n) then n\<lparr>n_accepted := n_accepted n @ [msg]\<rparr> else n)"

inductive btp_step :: "net \<Rightarrow> net \<Rightarrow> bool" where
  send: "btp_step n (run_section By_Other (Send msg) (note_accepted msg n))"
| incoming: "btp_step n (run_section By_Incoming (HandleIncoming data) n)"
| message_ok: "n_delivering n = Suc k \<Longrightarrow>
    btp_step n (run_section By_Incoming processSendQueueLocked (n\<lparr>n_delivering := k\<rparr>))"
| message_failed: "n_delivering n = Suc k \<Longrightarrow> btp_step n (n\<lparr>n_delivering := k, n_s := Close (n_s n)\<rparr>)"
| data_written: "n_writer n = Some (W_Data e, k) \<Longrightarrow>
    btp_step n (run_section k (after_data_write e werr) (n\<lparr>n_writer := None\<rparr>))"
| ack_written: "n_writer n = Some (W_Ack, k) \<Longrightarrow>
    btp_step n (run_section k (after_ack_write werr) (n\<lparr>n_writer := None\<rparr>))"
| send_ack_timeout: "btp_step n (run_section By_Other sendAckTimeoutTriggered n)"
| ack_timeout: "btp_step n (n\<lparr>n_s := snd (ackTimeoutTriggered (n_s n))\<rparr>)"
| closing: "btp_step n (n\<lparr>n_s := Close (n_s n)\<rparr>)"
| suspending: "btp_step n (n\<lparr>n_s := Suspend (n_s n)\<rparr>)"
| observing: "btp_step n (n\<lparr>n_s := (n_s n)\<lparr>s_onStall := True\<rparr>\<rparr>)"
| timer_fired: "btp_step n (n\<lparr>n_s := (n_s n)\<lparr>s_ackReceiveTimer := a \<and> s_ackReceiveTimer (n_s n),
    s_sendAckTimer := b \<and> s_sendAckTimer (n_s n), s_idleTimer := c \<and> s_idleTimer (n_s n)\<rparr>\<rparr>)"

definition net_of :: "session \<Rightarrow> net" where
  "net_of s = \<lparr>n_s = s, n_writer = None, n_delivering = 0, n_wrote = [], n_given = [], n_accepted = [], n_panicked = False\<rparr>"

inductive btp_reach :: "session \<Rightarrow> net \<Rightarrow> bool" for s0 where
  initial: "btp_reach s0 (net_of s0)"
| further: "btp_reach s0 n \<Longrightarrow> btp_step n n' \<Longrightarrow> btp_reach s0 n'"

section \<open>Arithmetic of the window\<close>

lemma go_rem_mod: "go_rem a 256 mod 256 = a mod 256" "\<bar>go_rem a 256\<bar> < 256"
proof -
  show "go_rem a 256 mod 256 = a mod 256"
    by (cases "a < 0") (auto simp: go_rem_def mod_minus_eq sgn_if)
  show "\<bar>go_rem a 256\<bar> < 256"
    by (cases "a < 0") (auto simp: go_rem_def sgn_if)
qed

lemma modularDistance_mod: "modularDistance f t = (t - f) mod 256"
proof -
  have p: "0 < go_rem (t - f) 256 + 256" using go_rem_mod(2) [of "t - f"] by linarith
  have "modularDistance f t = (go_rem (t - f) 256 + 256) mod 256"
    using p by (simp add: modularDistance_def go_rem_def [of "go_rem (t - f) 256 + 256"] sgn_if)
  also have "\<dots> = (t - f) mod 256" using go_rem_mod(1) [of "t - f"] by simp
  finally show ?thesis .
qed

lemma distance_step:
  assumes "-1 \<le> q" "q \<le> 255" "(q - a) mod 256 < w" "w \<le> (255 :: int)"
  shows "((if q + 1 > 255 then 0 else q + 1) - a) mod 256 = (q - a) mod 256 + 1"
proof -
  have m: "((if q + 1 > 255 then 0 else q + 1) - a) mod 256 = (q + 1 - a) mod 256"
  proof (cases "q + 1 > 255")
    case True
    with assms(2) have "q + 1 - a = 256 + (0 - a)" by simp
    then have "(q + 1 - a) mod 256 = (0 - a) mod 256" by (simp only: mod_add_self1)
    then show ?thesis using True by simp
  qed simp
  have "(q + 1 - a) mod 256 = ((q - a) mod 256 + 1) mod 256"
  proof -
    have "q + 1 - a = (q - a) + 1" by simp
    then show ?thesis by (simp only: mod_add_left_eq)
  qed
  also have "\<dots> = (q - a) mod 256 + 1" using assms(3,4) by (intro mod_pos_pos_trivial) auto
  finally show ?thesis using m by simp
qed

lemma distance_ack:
  fixes a q b :: int
  assumes "(b - a) mod 256 \<le> (q - a) mod 256"
  shows "(q - b) mod 256 = (q - a) mod 256 - (b - a) mod 256"
proof -
  have "(q - b) mod 256 = ((q - a) mod 256 - (b - a) mod 256) mod 256"
    by (simp add: mod_diff_eq)
  also have "\<dots> = (q - a) mod 256 - (b - a) mod 256"
  proof (rule mod_pos_pos_trivial)
    have "0 \<le> (b - a) mod 256" "(q - a) mod 256 < 256" by simp_all
    then show "(q - a) mod 256 - (b - a) mod 256 < 256" by linarith
  qed (use assms in simp)
  finally show ?thesis .
qed

section \<open>Reassembly of what was written\<close>

text \<open>
  The receiver's handling of the segment of one packet (\<open>add_segment\<close> and \<open>finish_message\<close>), and
  of all packets in order: the reassembly state and the messages completed, unless an error
  occurs.
\<close>

definition absorb :: "session \<times> bytes list \<Rightarrow> bytes \<Rightarrow> (session \<times> bytes list) option" where
  "absorb st b = (case DecodePacket b of
      Inl _ \<Rightarrow> None
    | Inr pk \<Rightarrow>
        (case read_then (add_segment (pk_Header pk) (pk_Payload pk)) (\<lambda>_. finish_message (pk_Header pk)) (fst st) of
           (Inr (Some m), s) \<Rightarrow> Some (s, snd st @ [m])
         | (Inr None, s) \<Rightarrow> Some (s, snd st)
         | (Inl _, s) \<Rightarrow> None))"

definition reassembled :: "session \<Rightarrow> bytes list \<Rightarrow> (session \<times> bytes list) option" where
  "reassembled peer bs = foldl (\<lambda>st b. Option.bind st (\<lambda>x. absorb x b)) (Some (peer, [])) bs"

lemma reassembled_snoc: "reassembled peer (bs @ [b]) = Option.bind (reassembled peer bs) (\<lambda>x. absorb x b)"
  by (simp add: reassembled_def)

text \<open>The reassembly state holds the first \<open>off\<close> bytes of a message, or nothing.\<close>

definition holds :: "session \<Rightarrow> bytes \<Rightarrow> nat \<Rightarrow> bool" where
  "holds s data off \<longleftrightarrow>
     (if 0 < off \<and> off < length data
      then s_reassembling s \<and> s_incomingLen s = length data \<and> s_incoming s = take off data
      else \<not> s_reassembling s)"

lemma EncodePacket_data:
  assumes "seg \<noteq> []" "(len \<noteq> None) = isBeginning"
  shows "\<exists>b. EncodePacket (data_packet isBeginning isEnding ack sn len seg) = Inr b
    \<and> length b = length seg + 2 + (if ack = None then 0 else 1) + (if len = None then 0 else 2)"
  using assms by (auto simp: EncodePacket_def data_packet_def packet_violation_def Let_def split: option.split)

lemma absorb_data:
  assumes e: "EncodePacket (data_packet isBeginning isEnding ack sn len seg) = Inr b"
    and h: "holds s data off" and seg: "seg = take n (drop off data)" "0 < n" "off + n \<le> length data"
    and b: "isBeginning = (off = 0)" "isEnding = (off + n = length data)"
    and len: "len = (if isBeginning then Some (word_of_nat (length data)) else None)" "length data \<le> 0xFFFF"
  shows "\<exists>s'. absorb (s, ms) b = Some (s', if isEnding then ms @ [data] else ms) \<and> holds s' data (off + n)"
proof -
  have d: "DecodePacket b = Inr (data_packet isBeginning isEnding ack sn len seg)"
    by (rule DecodePacket_EncodePacket [OF e])
  have u: "unat (word_of_nat (length data) :: u16) = length data" using len(2) by (simp add: unat_of_nat)
  have sn: "length seg = n" using seg by simp
  show ?thesis
  proof (cases "off = 0")
    case True
    then show ?thesis
      using h d u seg sn b len
      by (auto simp: absorb_def data_packet_def holds_def add_segment_def finish_message_def read_then_def)
  next
    case False
    then have r: "s_reassembling s" "s_incomingLen s = length data" "s_incoming s = take off data"
      using h seg by (auto simp: holds_def)
    have "take off data @ seg = take (off + n) data" using seg by (simp add: take_add)
    then show ?thesis
      using False r d seg sn b len
      by (auto simp: absorb_def data_packet_def holds_def add_segment_def finish_message_def read_then_def)
  qed
qed

lemma absorb_ack:
  assumes "EncodePacket \<lparr>pk_Header = \<lparr>b_IsHandshakeRequest = False, b_HasManagementOpcode = False, b_HasAckNumber = True,
       b_IsEndingSegment = False, b_IsContinuingSegment = False, b_IsBeginningSegment = False\<rparr>,
     pk_Payload = \<lparr>b_AckNumber = Some a, b_SequenceNumber = sn, b_MessageLength = None, b_SegmentPayload = []\<rparr>\<rparr> = Inr b"
  shows "absorb st b = Some st"
  using DecodePacket_EncodePacket [OF assms]
  by (cases st) (simp add: absorb_def add_segment_def finish_message_def read_then_def)

section \<open>Invariant\<close>

text \<open>The numbers of a session stay in range, and no more packets are outstanding than the window allows.\<close>

definition num_inv :: "session \<Rightarrow> bool" where
  "num_inv s \<longleftrightarrow> 0 \<le> s_windowSize s \<and> s_windowSize s \<le> 255
     \<and> -1 \<le> s_seq s \<and> s_seq s \<le> 255 \<and> 0 \<le> s_prevIncomingSeq s \<and> s_prevIncomingSeq s \<le> 255
     \<and> modularDistance (s_prevIncomingAck s) (s_seq s) \<le> max 1 (s_windowSize s)"

text \<open>
  The queue: messages that are not empty and fit the length field; only the first may be
  partly sent, and while a packet of it is being written that packet is counted as sent.
\<close>

definition queue_inv :: "(bytes \<times> nat) list \<Rightarrow> writer option \<Rightarrow> bool" where
  "queue_inv q w \<longleftrightarrow>
     (\<forall>(d, off) \<in> set q. d \<noteq> [] \<and> length d \<le> 0xFFFF) \<and> (\<forall>(d, off) \<in> set (tl q). off = 0)
     \<and> (case w of
          Some (W_Data e) \<Rightarrow> (\<exists>d off rest. q = (d, off) # rest \<and> 0 < off \<and> off \<le> length d \<and> e = (off = length d))
        | _ \<Rightarrow> (\<forall>d off rest. q = (d, off) # rest \<longrightarrow> off < length d))"

definition unsent :: "(bytes \<times> nat) list \<Rightarrow> writer option \<Rightarrow> bytes list" where
  "unsent q w = map fst (if w = Some (W_Data True) then tl q else q)"

definition stream_inv :: "session \<Rightarrow> bool \<Rightarrow> (bytes \<times> nat) list \<Rightarrow> writer option \<Rightarrow> bytes list \<Rightarrow> bytes list \<Rightarrow> bool" where
  "stream_inv peer active q w wrote acc \<longleftrightarrow> (\<exists>r ms. reassembled peer wrote = Some (r, ms)
     \<and> (acc = ms @ unsent q w \<and> (case q of [] \<Rightarrow> \<not> s_reassembling r | (d, off) # _ \<Rightarrow> holds r d off)
        \<or> \<not> active \<and> q = [] \<and> w = None \<and> prefix ms acc))"

definition btp_inv :: "session \<Rightarrow> session \<Rightarrow> writer option \<Rightarrow> bytes list \<Rightarrow> bytes list \<Rightarrow> bool" where
  "btp_inv peer s w wrote acc \<longleftrightarrow> num_inv s \<and> (s_sendInProgress s \<longleftrightarrow> w \<noteq> None) \<and> queue_inv (s_queue s) w
     \<and> stream_inv peer (s_active s) (s_queue s) w wrote acc \<and> (\<forall>p \<in> set wrote. int (length p) \<le> max 3 (s_fragmentSize s))"

definition result_inv :: "session \<Rightarrow> writer option \<Rightarrow> bytes list \<Rightarrow> bytes list \<Rightarrow> (btp_error, outcome) go \<times> session \<Rightarrow> bool" where
  "result_inv peer w wrote acc res \<longleftrightarrow> (case res of
      (Inr (Write_Data p e), s) \<Rightarrow> btp_inv peer s (Some (W_Data e)) (wrote @ [p]) acc
    | (Inr (Write_Ack p), s) \<Rightarrow> btp_inv peer s (Some W_Ack) (wrote @ [p]) acc
    | (Inl Panic, s) \<Rightarrow> False
    | (_, s) \<Rightarrow> btp_inv peer s w wrote acc)"

end
