(* ===== verification/Btp_Invariant.thy ===== *)
theory Btp_Invariant
  imports Btp_Steps
begin

text \<open>
  The invariant of a BTP session holds after every section, hence in every reachable state.
\<close>

unbundle bit_operations_syntax

section \<open>Fields the invariant does not read\<close>

lemma num_inv_updates [simp]:
  "num_inv (s\<lparr>s_sendInProgress := x\<rparr>) = num_inv s"
  "num_inv (s\<lparr>s_queue := q\<rparr>) = num_inv s"
  "num_inv (s\<lparr>s_sendAckTimer := x\<rparr>) = num_inv s"
  "num_inv (s\<lparr>s_ackReceiveTimer := x\<rparr>) = num_inv s"
  "num_inv (s\<lparr>s_idleTimer := x\<rparr>) = num_inv s"
  "num_inv (s\<lparr>s_active := x\<rparr>) = num_inv s"
  "num_inv (s\<lparr>s_prevAckedSeq := z\<rparr>) = num_inv s"
  "num_inv (s\<lparr>s_pendingFirstAck := m\<rparr>) = num_inv s"
  "num_inv (s\<lparr>s_pendingLive := x\<rparr>) = num_inv s"
  "num_inv (s\<lparr>s_onStall := x\<rparr>) = num_inv s"
  "num_inv (s\<lparr>s_stalled := x\<rparr>) = num_inv s"
  "num_inv (s\<lparr>s_closed := x\<rparr>) = num_inv s"
  "num_inv (s\<lparr>s_disconnects := n\<rparr>) = num_inv s"
  "num_inv (s\<lparr>s_reassembling := x\<rparr>) = num_inv s"
  "num_inv (s\<lparr>s_incomingLen := n\<rparr>) = num_inv s"
  "num_inv (s\<lparr>s_incoming := b\<rparr>) = num_inv s"
  by (simp_all add: num_inv_def)

lemma canSend_updates [simp]:
  "canSend (s\<lparr>s_sendInProgress := x\<rparr>) c = canSend s c"
  "canSend (s\<lparr>s_queue := q\<rparr>) c = canSend s c"
  "canSend (s\<lparr>s_sendAckTimer := x\<rparr>) c = canSend s c"
  "canSend (s\<lparr>s_ackReceiveTimer := x\<rparr>) c = canSend s c"
  "canSend (s\<lparr>s_idleTimer := x\<rparr>) c = canSend s c"
  "canSend (s\<lparr>s_active := x\<rparr>) c = canSend s c"
  "canSend (s\<lparr>s_prevAckedSeq := z\<rparr>) c = canSend s c"
  "canSend (s\<lparr>s_pendingFirstAck := m\<rparr>) c = canSend s c"
  "canSend (s\<lparr>s_pendingLive := x\<rparr>) c = canSend s c"
  "canSend (s\<lparr>s_onStall := x\<rparr>) c = canSend s c"
  "canSend (s\<lparr>s_stalled := x\<rparr>) c = canSend s c"
  "canSend (s\<lparr>s_closed := x\<rparr>) c = canSend s c"
  "canSend (s\<lparr>s_disconnects := n\<rparr>) c = canSend s c"
  "canSend (s\<lparr>s_reassembling := x\<rparr>) c = canSend s c"
  "canSend (s\<lparr>s_incomingLen := n\<rparr>) c = canSend s c"
  "canSend (s\<lparr>s_incoming := b\<rparr>) c = canSend s c"
  by (simp_all add: canSend_def remoteWindowFreeSlots_def)

lemma btp_inv_updates [simp]:
  "btp_inv peer (s\<lparr>s_sendAckTimer := x\<rparr>) w wrote acc = btp_inv peer s w wrote acc"
  "btp_inv peer (s\<lparr>s_ackReceiveTimer := x\<rparr>) w wrote acc = btp_inv peer s w wrote acc"
  "btp_inv peer (s\<lparr>s_idleTimer := x\<rparr>) w wrote acc = btp_inv peer s w wrote acc"
  "btp_inv peer (s\<lparr>s_prevAckedSeq := z\<rparr>) w wrote acc = btp_inv peer s w wrote acc"
  "btp_inv peer (s\<lparr>s_pendingFirstAck := m\<rparr>) w wrote acc = btp_inv peer s w wrote acc"
  "btp_inv peer (s\<lparr>s_pendingLive := x\<rparr>) w wrote acc = btp_inv peer s w wrote acc"
  "btp_inv peer (s\<lparr>s_onStall := x\<rparr>) w wrote acc = btp_inv peer s w wrote acc"
  "btp_inv peer (s\<lparr>s_stalled := x\<rparr>) w wrote acc = btp_inv peer s w wrote acc"
  "btp_inv peer (s\<lparr>s_closed := x\<rparr>) w wrote acc = btp_inv peer s w wrote acc"
  "btp_inv peer (s\<lparr>s_disconnects := n\<rparr>) w wrote acc = btp_inv peer s w wrote acc"
  "btp_inv peer (s\<lparr>s_reassembling := x\<rparr>) w wrote acc = btp_inv peer s w wrote acc"
  "btp_inv peer (s\<lparr>s_incomingLen := n\<rparr>) w wrote acc = btp_inv peer s w wrote acc"
  "btp_inv peer (s\<lparr>s_incoming := b\<rparr>) w wrote acc = btp_inv peer s w wrote acc"
  by (simp_all add: btp_inv_def)

section \<open>Sending\<close>

lemma nextSequenceNumber_num:
  assumes "num_inv s" "canSend s c"
  shows "num_inv (snd (nextSequenceNumber s))"
proof -
  have q: "-1 \<le> s_seq s" "s_seq s \<le> 255" "(s_seq s - s_prevIncomingAck s) mod 256 < s_windowSize s" "s_windowSize s \<le> 255"
    using assms by (auto simp: num_inv_def canSend_def remoteWindowFreeSlots_def modularDistance_mod Let_def split: if_splits)
  from distance_step [OF this] q assms(1) show ?thesis
    by (auto simp: num_inv_def nextSequenceNumber_def modularDistance_mod Let_def)
qed

lemma nextSequenceNumber_keeps:
  "nextSequenceNumber s = (sn, s') \<Longrightarrow> \<exists>q. s' = s\<lparr>s_seq := q\<rparr>"
  by (auto simp: nextSequenceNumber_def Let_def)

lemma stream_inv_ack:
  "stream_inv peer True q None wrote acc \<Longrightarrow> reassembled peer wrote' = reassembled peer wrote \<Longrightarrow>
   stream_inv peer True q (Some W_Ack) wrote' acc"
  by (simp add: stream_inv_def unsent_def)

lemma queue_inv_ack: "queue_inv q None \<Longrightarrow> queue_inv q (Some W_Ack)"
  by (simp add: queue_inv_def)

lemma sendStandaloneAck_inv:
  assumes inv: "btp_inv peer s w wrote acc"
  shows "result_inv peer w wrote acc (sendStandaloneAckLocked s)"
proof (cases "s_sendInProgress s \<or> \<not> s_active s \<or> s_prevIncomingSeq s = s_prevAckedSeq s \<or> \<not> canSend s True")
  case True
  then show ?thesis using inv by (auto simp: sendStandaloneAckLocked_def result_inv_def Let_def)
next
  case False
  then have w: "w = None" using inv by (simp add: btp_inv_def)
  let ?s = "s\<lparr>s_sendInProgress := True\<rparr>"
  obtain sn s1 where n: "nextSequenceNumber ?s = (sn, s1)" by (cases "nextSequenceNumber ?s")
  have num: "num_inv s1"
    using nextSequenceNumber_num [of ?s True] n inv False by (simp add: btp_inv_def)
  let ?pk = "\<lparr>pk_Header = \<lparr>b_IsHandshakeRequest = False, b_HasManagementOpcode = False, b_HasAckNumber = True,
       b_IsEndingSegment = False, b_IsContinuingSegment = False, b_IsBeginningSegment = False\<rparr>,
     pk_Payload = \<lparr>b_AckNumber = Some (word_of_int (s_prevIncomingSeq s)), b_SequenceNumber = sn, b_MessageLength = None, b_SegmentPayload = []\<rparr>\<rparr>"
  obtain b where b: "EncodePacket ?pk = Inr b" "length b = 3"
    by (simp add: EncodePacket_def packet_violation_def)
  have r: "reassembled peer (wrote @ [b]) = reassembled peer wrote"
    using absorb_ack [OF b(1)] by (cases "reassembled peer wrote") (auto simp: reassembled_snoc)
  have "sendStandaloneAckLocked s = (Inr (Write_Ack b), s1\<lparr>s_prevAckedSeq := s_prevIncomingSeq s\<rparr>)"
    using False n b(1) by (simp add: sendStandaloneAckLocked_def Let_def)
  moreover have "btp_inv peer (s1\<lparr>s_prevAckedSeq := s_prevIncomingSeq s\<rparr>) (Some W_Ack) (wrote @ [b]) acc"
  proof -
    obtain q where q: "s1 = ?s\<lparr>s_seq := q\<rparr>" using nextSequenceNumber_keeps [OF n] by blast
    with inv w num r b(2) False show ?thesis
      by (auto simp: btp_inv_def intro: stream_inv_ack queue_inv_ack)
  qed
  ultimately show ?thesis by (simp add: result_inv_def)
qed

lemma send_segment_inv:
  assumes inv: "btp_inv peer (s\<lparr>s_sendInProgress := False\<rparr>) None wrote acc" and p: "s_sendInProgress s" "s_active s"
    and q: "s_queue s \<noteq> []" and c: "canSend s (s_prevIncomingSeq s \<noteq> s_prevAckedSeq s)"
  shows "result_inv peer None wrote acc (send_segment s)"
proof -
  define hasAck where "hasAck = (s_prevIncomingSeq s \<noteq> s_prevAckedSeq s)"
  define s1 where "s1 = (if hasAck then s\<lparr>s_sendAckTimer := False\<rparr> else s)"
  obtain data off rest where qu: "s_queue s = (data, off) # rest" using q by (cases "s_queue s") auto
  have fields: "s_queue s1 = (data, off) # rest" "s_fragmentSize s1 = s_fragmentSize s" "s_active s1" "s_sendInProgress s1"
    "s_prevIncomingSeq s1 = s_prevIncomingSeq s" "num_inv s1" "canSend s1 hasAck"
    using qu p c inv by (auto simp: s1_def hasAck_def btp_inv_def)
  have d: "data \<noteq> []" "length data \<le> 0xFFFF" "off < length data" "\<forall>(d, off) \<in> set rest. off = 0 \<and> d \<noteq> [] \<and> length d \<le> 0xFFFF"
    using inv qu by (auto simp: btp_inv_def queue_inv_def)
  obtain r ms where r: "reassembled peer wrote = Some (r, ms)" "acc = ms @ map fst ((data, off) # rest)" "holds r data off"
    using inv qu by (auto simp: btp_inv_def stream_inv_def unsent_def)
  define isBeginning where "isBeginning = (off = 0)"
  define room where "room = s_fragmentSize s - (2 + (if isBeginning then 2 else 0) + (if hasAck then 1 else 0))"
  have beg: "(length data - off = length data) = isBeginning" using d by (auto simp: isBeginning_def)
  show ?thesis
  proof (cases "room \<le> 0")
    case True
    then have "send_segment s = (Inl (Fail (Flow No_Room)), s1\<lparr>s_sendInProgress := False\<rparr>)"
      using fields beg by (simp add: send_segment_def Let_def s1_def [symmetric] hasAck_def [symmetric] room_def)
    moreover have "btp_inv peer (s1\<lparr>s_sendInProgress := False\<rparr>) None wrote acc"
      using inv by (auto simp: s1_def btp_inv_def)
    ultimately show ?thesis by (simp add: result_inv_def)
  next
    case False
    define remaining where "remaining = length data - off"
    define isEnding where "isEnding = (int remaining \<le> room)"
    define n where "n = min (nat room) remaining"
    define seg where "seg = take n (drop off data)"
    have n: "0 < n" "off + n \<le> length data" "isEnding = (off + n = length data)" "int n \<le> room"
      using False d(3) by (auto simp: n_def isEnding_def remaining_def)
    have seg: "slice data off (off + n) = (Inr seg :: (btp_error, bytes) go)" "length seg = n" "seg \<noteq> []"
      using n by (auto simp: slice_def seg_def)
    let ?s1 = "s1\<lparr>s_queue := (data, off + n) # rest\<rparr>"
    obtain sn s2 where sn: "nextSequenceNumber ?s1 = (sn, s2)" by (cases "nextSequenceNumber ?s1")
    obtain z where z: "s2 = ?s1\<lparr>s_seq := z\<rparr>" using nextSequenceNumber_keeps [OF sn] by blast
    have num: "num_inv s2" using nextSequenceNumber_num [of ?s1 hasAck] sn fields by simp
    define ack :: "byte option" where "ack = (if hasAck then Some (word_of_int (s_prevIncomingSeq s2)) else None)"
    define s3 where "s3 = (if hasAck then s2\<lparr>s_prevAckedSeq := s_prevIncomingSeq s2\<rparr> else s2)"
    define len :: "u16 option" where "len = (if isBeginning then Some (word_of_nat remaining) else None)"
    obtain b where b: "EncodePacket (data_packet isBeginning isEnding ack sn len seg) = Inr b"
      "length b = n + 2 + (if hasAck then 1 else 0) + (if isBeginning then 2 else 0)"
    proof -
      have l: "(len \<noteq> None) = isBeginning" "(ack = None) = (\<not> hasAck)" "(len = None) = (\<not> isBeginning)"
        by (simp_all add: len_def ack_def)
      show thesis using EncodePacket_data [OF seg(3) l(1), of isEnding ack sn] that l(2,3) seg(2) by auto
    qed
    have "send_segment s = (Inr (Write_Data b isEnding), s3)"
      using fields beg False seg(1) sn b(1)
      by (cases hasAck; cases isBeginning)
         (simp_all add: send_segment_def Let_def qu s1_def hasAck_def [symmetric] room_def
            remaining_def [symmetric] n_def isEnding_def ack_def s3_def len_def)
    moreover have "btp_inv peer s3 (Some (W_Data isEnding)) (wrote @ [b]) acc"
    proof -
      obtain r' where r': "absorb (r, ms) b = Some (r', if isEnding then ms @ [data] else ms)" "holds r' data (off + n)"
      proof -
        have "len = (if isBeginning then Some (word_of_nat (length data)) else None)"
          by (simp add: len_def remaining_def isBeginning_def)
        from absorb_data [OF b(1) r(3) seg_def n(1,2) isBeginning_def n(3) this d(2), of ms] that show thesis by blast
      qed
      have "stream_inv peer True ((data, off + n) # rest) (Some (W_Data isEnding)) (wrote @ [b]) acc"
        using r(1,2) r' by (auto simp: stream_inv_def reassembled_snoc unsent_def)
      moreover have "queue_inv ((data, off + n) # rest) (Some (W_Data isEnding))"
        using d n by (auto simp: queue_inv_def)
      moreover have "int (length b) \<le> s_fragmentSize s" using b(2) n(4) by (auto simp: room_def)
      ultimately show ?thesis
        using inv num z fields by (auto simp: btp_inv_def s3_def)
    qed
    ultimately show ?thesis by (simp add: result_inv_def)
  qed
qed

lemma send_loop_inv:
  assumes inv: "btp_inv peer (s\<lparr>s_sendInProgress := False\<rparr>) None wrote acc" and p: "s_sendInProgress s" "s_active s"
  shows "result_inv peer None wrote acc (send_loop s)"
  using send_segment_inv [OF inv p] sendStandaloneAck_inv [OF inv] by (simp add: send_loop_def)

lemma processSendQueue_inv:
  assumes inv: "btp_inv peer s w wrote acc"
  shows "result_inv peer w wrote acc (processSendQueueLocked s)"
proof (cases "s_sendInProgress s \<or> \<not> s_active s \<or> s_queue s = []")
  case True
  with inv show ?thesis by (auto simp: processSendQueueLocked_def result_inv_def)
next
  case False
  then have "w = None" "btp_inv peer ((s\<lparr>s_sendInProgress := True\<rparr>)\<lparr>s_sendInProgress := False\<rparr>) None wrote acc"
    using inv by (auto simp: btp_inv_def)
  with send_loop_inv [of peer "s\<lparr>s_sendInProgress := True\<rparr>" wrote acc] False show ?thesis
    by (simp add: processSendQueueLocked_def)
qed

lemma sendImmediateAck_inv:
  "btp_inv peer s w wrote acc \<Longrightarrow> result_inv peer w wrote acc (sendImmediateAckIfWindowLowLocked s)"
  using sendStandaloneAck_inv [of peer s w wrote acc]
  by (auto simp: sendImmediateAckIfWindowLowLocked_def result_inv_def)

section \<open>Closing\<close>

lemma inactive_inv: "btp_inv peer s w wrote acc \<Longrightarrow> btp_inv peer (s\<lparr>s_active := False\<rparr>) w wrote acc"
  by (auto simp: btp_inv_def stream_inv_def)

lemma Close_inv: "btp_inv peer s w wrote acc \<Longrightarrow> btp_inv peer (Close s) w wrote acc"
  by (auto simp: Close_def stopTimersLocked_def Let_def intro: inactive_inv)

lemma Suspend_inv: "btp_inv peer s w wrote acc \<Longrightarrow> btp_inv peer (Suspend s) w wrote acc"
  by (auto simp: Suspend_def stopTimersLocked_def intro: inactive_inv)

lemma ackTimeout_inv: "btp_inv peer s w wrote acc \<Longrightarrow> btp_inv peer (snd (ackTimeoutTriggered s)) w wrote acc"
  by (auto simp: ackTimeoutTriggered_def stopTimersLocked_def Close_inv intro: inactive_inv split: option.split)

section \<open>After a write\<close>

lemma drop_queue_inv:
  assumes "btp_inv peer s (Some w) wrote acc" "\<not> s_active s"
  shows "btp_inv peer (s\<lparr>s_queue := [], s_sendInProgress := False\<rparr>) None wrote acc"
  using assms by (auto simp: btp_inv_def queue_inv_def stream_inv_def prefix_def)

lemma after_data_inv:
  assumes inv: "btp_inv peer s (Some (W_Data e)) wrote acc"
  shows "result_inv peer None wrote acc (after_data_write e werr s)"
proof -
  consider "werr \<noteq> Write_Ok" | "werr = Write_Ok" "\<not> s_active s" | "werr = Write_Ok" "s_active s" by blast
  then show ?thesis
  proof cases
    case 1
    have "btp_inv peer (s\<lparr>s_queue := [], s_sendInProgress := False, s_active := False\<rparr>) None wrote acc"
      using drop_queue_inv [OF inactive_inv [OF inv]] by (simp add: btp_inv_def)
    then show ?thesis using 1 drop_queue_inv [OF inv]
      by (auto simp: after_data_write_def handleFailedWriteLocked_def result_inv_def Close_def stopTimersLocked_def Let_def btp_inv_def)
  next
    case 2
    then show ?thesis using drop_queue_inv [OF inv] by (simp add: after_data_write_def result_inv_def)
  next
    case 3
    define s1 where "s1 = s\<lparr>s_ackReceiveTimer := True\<rparr>"
    define s2 where "s2 = (if s_role s1 = RoleCentral then s1\<lparr>s_idleTimer := True\<rparr> else s1)"
    have i2: "btp_inv peer s2 (Some (W_Data e)) wrote acc" using inv by (simp add: s2_def s1_def)
    have f: "s_active s2" "s_sendInProgress s2" using 3 inv by (auto simp: s2_def s1_def btp_inv_def)
    obtain d off rest where q: "s_queue s2 = (d, off) # rest" "0 < off" "off \<le> length d" "e = (off = length d)"
      using i2 by (auto simp: btp_inv_def queue_inv_def)
    show ?thesis
    proof (cases e)
      case True
      have "btp_inv peer ((s2\<lparr>s_queue := rest\<rparr>)\<lparr>s_sendInProgress := False\<rparr>) None wrote acc"
      proof -
        have q0: "\<forall>(d, off) \<in> set rest. off = 0 \<and> d \<noteq> [] \<and> length d \<le> 0xFFFF"
          using i2 q(1) by (auto simp: btp_inv_def queue_inv_def)
        then have "queue_inv rest None" by (cases rest) (auto simp: queue_inv_def)
        moreover have "stream_inv peer True rest None wrote acc"
          using i2 f q q0 True
          by (cases rest) (auto simp: btp_inv_def stream_inv_def unsent_def holds_def)
        ultimately show ?thesis using i2 f by (simp add: btp_inv_def)
      qed
      from send_loop_inv [OF this] True f q 3 show ?thesis
        by (simp add: after_data_write_def s1_def [symmetric] s2_def [symmetric] Let_def)
    next
      case False
      have "btp_inv peer (s2\<lparr>s_sendInProgress := False\<rparr>) None wrote acc"
        using i2 q False by (auto simp: btp_inv_def queue_inv_def stream_inv_def unsent_def)
      from send_loop_inv [OF this f(2,1)] False 3 show ?thesis
        by (simp add: after_data_write_def s1_def [symmetric] s2_def [symmetric] Let_def)
    qed
  qed
qed

lemma after_ack_inv:
  assumes inv: "btp_inv peer s (Some W_Ack) wrote acc"
  shows "result_inv peer None wrote acc (after_ack_write werr s)"
proof -
  have n: "btp_inv peer (s\<lparr>s_sendInProgress := False\<rparr>) None wrote acc"
    using inv by (auto simp: btp_inv_def queue_inv_def stream_inv_def unsent_def)
  have c: "btp_inv peer ((Close s)\<lparr>s_sendInProgress := False\<rparr>) None wrote acc"
    using Close_inv [OF n] by (simp add: Close_def stopTimersLocked_def Let_def btp_inv_def split: if_splits)
  show ?thesis
  proof (cases "werr = Write_Ok")
    case True
    define s1 where "s1 = s\<lparr>s_sendAckTimer := False\<rparr>"
    define s2 where "s2 = (if s_active s1 then s1\<lparr>s_ackReceiveTimer := True\<rparr> else s1)"
    have "btp_inv peer (s2\<lparr>s_sendInProgress := False\<rparr>) None wrote acc"
      using n by (auto simp: s2_def s1_def btp_inv_def)
    from processSendQueue_inv [OF this] True show ?thesis
      by (simp add: after_ack_write_def s1_def [symmetric] s2_def [symmetric] Let_def)
  next
    case False
    then show ?thesis using n c by (auto simp: after_ack_write_def handleFailedWriteLocked_def result_inv_def)
  qed
qed

section \<open>Receiving\<close>

lemma Send_inv:
  assumes "btp_inv peer s w wrote acc"
  shows "result_inv peer w wrote (if accepts msg s then acc @ [msg] else acc) (Send msg s)"
proof (cases "accepts msg s")
  case True
  define s1 where "s1 = (if s_pendingLive s then s\<lparr>s_pendingFirstAck := s_pendingFirstAck s @ [msg]\<rparr> else s)"
  have s1: "btp_inv peer s1 w wrote acc" "s_active s1" "msg \<noteq> []" "length msg \<le> 0xFFFF"
    using assms True by (auto simp: s1_def accepts_def)
  have "btp_inv peer (s1\<lparr>s_queue := s_queue s1 @ [(msg, 0)]\<rparr>) w wrote (acc @ [msg])"
  proof -
    have q: "queue_inv (s_queue s1) w" and t: "stream_inv peer True (s_queue s1) w wrote acc"
      using s1 by (auto simp: btp_inv_def)
    have ne: "s_queue s1 \<noteq> []" if "w = Some (W_Data e)" for e using q that by (auto simp: queue_inv_def)
    have "queue_inv (s_queue s1 @ [(msg, 0)]) w"
      using q s1(3,4) by (cases "s_queue s1") (auto simp: queue_inv_def split: option.splits writer.splits)
    moreover have "unsent (s_queue s1 @ [(msg, 0)]) w = unsent (s_queue s1) w @ [msg]"
      using ne by (auto simp: unsent_def)
    then have "stream_inv peer True (s_queue s1 @ [(msg, 0)]) w wrote (acc @ [msg])"
      using t by (cases "s_queue s1") (auto simp: stream_inv_def holds_def)
    ultimately show ?thesis using s1 by (simp add: btp_inv_def)
  qed
  from processSendQueue_inv [OF this] True show ?thesis
    by (simp add: Send_def accepts_def s1_def Let_def)
next
  case False
  then show ?thesis using assms by (auto simp: Send_def accepts_def result_inv_def)
qed

lemma receive_ack_inv:
  assumes "btp_inv peer s w wrote acc" "receive_ack h p s = (r, s')"
  shows "btp_inv peer s' w wrote acc" "r \<noteq> Inl Panic"
proof -
  have step: "btp_inv peer (s\<lparr>s_prevIncomingAck := uint a, s_ackReceiveTimer := x\<rparr>) w wrote acc"
    if "\<not> modularDistance (s_prevIncomingAck s) (uint a) > modularDistance (s_prevIncomingAck s) (s_seq s)" for a :: byte and x
  proof -
    have "(uint a - s_prevIncomingAck s) mod 256 \<le> (s_seq s - s_prevIncomingAck s) mod 256"
      using that by (simp add: modularDistance_mod)
    from distance_ack [OF this] have "(s_seq s - uint a) mod 256 \<le> (s_seq s - s_prevIncomingAck s) mod 256" by simp
    then show ?thesis using assms(1) by (auto simp: btp_inv_def num_inv_def modularDistance_mod)
  qed
  show "btp_inv peer s' w wrote acc"
    using assms step by (auto simp: receive_ack_def Let_def split: option.splits if_splits)
  show "r \<noteq> Inl Panic"
    using assms(2) by (auto simp: receive_ack_def Let_def split: option.splits if_splits)
qed

lemma add_segment_inv:
  assumes "btp_inv peer s w wrote acc" "add_segment h p s = (r, s')" "b_IsBeginningSegment h \<longrightarrow> b_MessageLength p \<noteq> None"
  shows "btp_inv peer s' w wrote acc" "r \<noteq> Inl Panic"
  using assms by (auto simp: add_segment_def split: if_splits option.splits)

lemma finish_message_inv:
  assumes "btp_inv peer s w wrote acc" "finish_message h s = (r, s')"
  shows "btp_inv peer s' w wrote acc" "r \<noteq> Inl Panic"
  using assms by (auto simp: finish_message_def split: if_splits)

lemma receive_packet_inv:
  assumes inv: "btp_inv peer s w wrote acc" and r: "receive_packet pk s = (r, s')"
    and l: "b_IsBeginningSegment (pk_Header pk) \<longrightarrow> b_MessageLength (pk_Payload pk) \<noteq> None"
  shows "btp_inv peer s' w wrote acc" "r \<noteq> Inl Panic"
proof -
  let ?h = "pk_Header pk" and ?p = "pk_Payload pk"
  define s1 where "s1 = s\<lparr>s_prevIncomingSeq := uint (b_SequenceNumber ?p), s_pendingFirstAck := [],
    s_pendingLive := False, s_sendAckTimer := True\<rparr>"
  have "uint (b_SequenceNumber ?p) < 256" "0 \<le> uint (b_SequenceNumber ?p)" using uint_lt2p [of "b_SequenceNumber ?p"] by simp_all
  then have i1: "btp_inv peer s1 w wrote acc" using inv by (auto simp: s1_def btp_inv_def num_inv_def)
  have "btp_inv peer s2 w wrote acc \<and> r2 \<noteq> Inl Panic"
    if "read_then (receive_ack ?h ?p) (\<lambda>_. read_then (add_segment ?h ?p) (\<lambda>_. finish_message ?h)) s1 = (r2, s2)" for r2 s2
  proof -
    obtain ra sa where a: "receive_ack ?h ?p s1 = (ra, sa)" by (cases "receive_ack ?h ?p s1")
    obtain rb sb where b: "add_segment ?h ?p sa = (rb, sb)" by (cases "add_segment ?h ?p sa")
    obtain rc sc where c: "finish_message ?h sb = (rc, sc)" by (cases "finish_message ?h sb")
    note ia = receive_ack_inv [OF i1 a]
    note ib = add_segment_inv [OF ia(1) b l]
    note ic = finish_message_inv [OF ib(1) c]
    show ?thesis
      using that ia ib ic a b c by (cases ra; cases rb) (auto simp: read_then_def)
  qed
  then show "btp_inv peer s' w wrote acc" "r \<noteq> Inl Panic"
    using r inv unfolding receive_packet_def Let_def s1_def [symmetric] by (auto split: if_splits)
qed

lemma DecodePacket_length:
  "DecodePacket data = Inr pk \<Longrightarrow> b_IsBeginningSegment (pk_Header pk) \<longrightarrow> b_MessageLength (pk_Payload pk) \<noteq> None"
  by (auto simp: DecodePacket_def Let_def and_then_Inr_iff front_if_def split: if_splits prod.splits)

lemma DecodePacket_no_panic: "DecodePacket data \<noteq> Inl Panic"
proof -
  have f: "front 1 get_u8 rest \<noteq> Inl Panic" "front 2 get_u16 rest \<noteq> Inl Panic" for rest
    by (auto simp: front_def and_then_Panic_iff u8.get_Panic_iff u16.get_Panic_iff slice_from_def Suc_le_eq)
  then have "front_if c 1 get_u8 rest \<noteq> Inl Panic" "front_if c 2 get_u16 rest \<noteq> Inl Panic" for c rest
    by (auto simp: front_if_def and_then_Panic_iff)
  with f show ?thesis
    by (auto simp: DecodePacket_def Let_def and_then_Panic_iff index_def slice_from_def Suc_le_eq split: if_splits prod.splits)
qed

lemma HandleIncoming_inv:
  assumes inv: "btp_inv peer s w wrote acc"
  shows "result_inv peer w wrote acc (HandleIncoming data s)"
proof (cases "s_active s")
  case True
  show ?thesis
  proof (cases "DecodePacket data")
    case (Inl f)
    then have "f \<noteq> Panic" using DecodePacket_no_panic [of data] by auto
    then show ?thesis using True Inl inv
      by (cases f) (auto simp: HandleIncoming_def handleIncomingLocked_def result_inv_def)
  next
    case (Inr pk)
    obtain r s' where r: "receive_packet pk s = (r, s')" by (cases "receive_packet pk s")
    note i = receive_packet_inv [OF inv r DecodePacket_length [OF Inr]]
    show ?thesis
    proof (cases r)
      case (Inl f)
      with i r Inr True inv show ?thesis
        by (cases f) (auto simp: HandleIncoming_def handleIncomingLocked_def result_inv_def)
    next
      case x: (Inr x)
      with i(1) r Inr True inv processSendQueue_inv [OF i(1)] show ?thesis
        by (cases x) (auto simp: HandleIncoming_def handleIncomingLocked_def result_inv_def)
    qed
  qed
qed (use inv in \<open>simp add: HandleIncoming_def result_inv_def\<close>)

section \<open>Reachable states\<close>

definition net_inv :: "session \<Rightarrow> net \<Rightarrow> bool" where
  "net_inv peer n \<longleftrightarrow> btp_inv peer (n_s n) (map_option fst (n_writer n)) (n_wrote n) (n_accepted n) \<and> \<not> n_panicked n"

lemma conclude_inv:
  assumes "result_inv peer (map_option fst (n_writer n)) (n_wrote n) (n_accepted n) res" "\<not> n_panicked n"
  shows "net_inv peer (conclude k res n)"
  using assms Close_inv
  by (cases res) (auto simp: conclude_def result_inv_def net_inv_def split: sum.splits fault.splits outcome.splits)

lemma run_section_inv:
  assumes "result_inv peer (map_option fst (n_writer n)) (n_wrote n) (n_accepted n) (op (n_s n))" "\<not> n_panicked n"
  shows "net_inv peer (run_section k op n)"
proof (cases "\<exists>s. op (n_s n) = (Inr Done, s)")
  case True
  then obtain s where s: "op (n_s n) = (Inr Done, s)" by blast
  then have i: "btp_inv peer s (map_option fst (n_writer n)) (n_wrote n) (n_accepted n)"
    using assms(1) by (simp add: result_inv_def)
  from conclude_inv [OF sendImmediateAck_inv [OF this] assms(2)] i assms(2) s show ?thesis
    by (simp add: run_section_def net_inv_def)
next
  case False
  then have "run_section k op n = conclude k (op (n_s n)) n"
    by (auto simp: run_section_def split: prod.splits sum.splits outcome.splits)
  with conclude_inv [OF assms] show ?thesis by simp
qed

lemma btp_step_inv: "btp_step n n' \<Longrightarrow> net_inv peer n \<Longrightarrow> net_inv peer n'"
proof (induction rule: btp_step.induct)
  case (send n msg)
  have "result_inv peer (map_option fst (n_writer n)) (n_wrote n) (if accepts msg (n_s n) then n_accepted n @ [msg] else n_accepted n) (Send msg (n_s n))"
    using send by (intro Send_inv) (simp add: net_inv_def)
  with send show ?case by (intro run_section_inv) (auto simp: net_inv_def note_accepted_def)
next
  case (incoming n data)
  then show ?case by (intro run_section_inv) (auto simp: net_inv_def intro: HandleIncoming_inv)
next
  case (message_ok n k)
  then show ?case by (intro run_section_inv) (auto simp: net_inv_def intro: processSendQueue_inv)
next
  case (message_failed n k)
  then show ?case by (simp add: net_inv_def Close_inv)
next
  case (data_written n e k werr)
  then show ?case by (intro run_section_inv) (auto simp: net_inv_def intro: after_data_inv)
next
  case (ack_written n k werr)
  then show ?case by (intro run_section_inv) (auto simp: net_inv_def intro: after_ack_inv)
next
  case (send_ack_timeout n)
  then have "result_inv peer (map_option fst (n_writer n)) (n_wrote n) (n_accepted n) (sendAckTimeoutTriggered (n_s n))"
    using sendStandaloneAck_inv by (auto simp: sendAckTimeoutTriggered_def net_inv_def result_inv_def)
  with send_ack_timeout show ?case by (intro run_section_inv) (auto simp: net_inv_def)
qed (simp_all add: net_inv_def Close_inv Suspend_inv ackTimeout_inv)

definition opened :: "session \<Rightarrow> bool" where
  "opened s \<longleftrightarrow> (\<exists>role fragment window. 0 \<le> window \<and> window \<le> 255 \<and> newSession role 4 fragment window = Inr s)"

lemma opened_inv:
  assumes "opened s" "\<not> s_reassembling peer"
  shows "net_inv peer (net_of s)"
proof -
  obtain role fragment window where w: "0 \<le> window" "window \<le> 255" "newSession role 4 fragment window = Inr s"
    using assms(1) by (auto simp: opened_def)
  then have "num_inv s" "s_queue s = []" "\<not> s_sendInProgress s" "s_active s"
    by (auto simp: newSession_def num_inv_def modularDistance_mod Let_def split: if_splits)
  then show ?thesis
    using assms(2) by (simp add: net_inv_def net_of_def btp_inv_def queue_inv_def stream_inv_def unsent_def reassembled_def)
qed

lemma btp_reach_inv:
  assumes "opened s0" "\<not> s_reassembling peer" "btp_reach s0 n"
  shows "net_inv peer n"
  using assms(3) by (induction) (auto intro: opened_inv [OF assms(1,2)] btp_step_inv)

end
