(* ===== verification/Btp_Theorems.thy ===== *)
theory Btp_Theorems
  imports Btp_Invariant
begin

text \<open>The properties of the Bluetooth transport protocol.\<close>

unbundle bit_operations_syntax

section \<open>Codecs\<close>

text \<open>
  C34. A packet that \<open>EncodePacket\<close> accepts is decoded to its header flags and fields; a handshake
  response and a handshake request with one to eight non-zero versions are decoded to
  themselves.
\<close>

theorem btp_codec_roundtrip:
  "(EncodePacket pk = Inr b \<longrightarrow> DecodePacket b = Inr pk)
   \<and> (hq_Versions q \<noteq> [] \<and> length (hq_Versions q) \<le> 8 \<and> (\<forall>v \<in> set (hq_Versions q). 0 < v \<and> v \<le> 15)
       \<longrightarrow> DecodeHandshakeRequest (EncodeHandshakeRequest q) = Inr q)
   \<and> (0 \<le> hp_Version p \<and> hp_Version p \<le> 15 \<longrightarrow> DecodeHandshakeResponse (EncodeHandshakeResponse p) = Inr p)"
  by (simp add: DecodePacket_EncodePacket DecodeHandshakeRequest_Encode DecodeHandshakeResponse_Encode)

theorem btp_codec_roundtrip_witness:
  "DecodePacket [0x0D, 7, 9, 3, 0, 1, 2, 3] = Inr (data_packet True True (Some 7) 9 (Some 3) [1, 2, 3])
   \<and> DecodeHandshakeRequest (EncodeHandshakeRequest \<lparr>hq_Versions = [4, 3], hq_ATTMTU = 247, hq_ClientWindowSize = 6\<rparr>)
       = Inr \<lparr>hq_Versions = [4, 3], hq_ATTMTU = 247, hq_ClientWindowSize = 6\<rparr>
   \<and> DecodeHandshakeResponse (EncodeHandshakeResponse \<lparr>hp_Version = 4, hp_ATTMTU = 244, hp_WindowSize = 6\<rparr>)
       = Inr \<lparr>hp_Version = 4, hp_ATTMTU = 244, hp_WindowSize = 6\<rparr>"
proof -
  have "EncodePacket (data_packet True True (Some 7) 9 (Some 3) [1, 2, 3]) = Inr [0x0D, 7, 9, 3, 0, 1, 2, 3]"
    by code_simp
  then show ?thesis
    using btp_codec_roundtrip [of "data_packet True True (Some 7) 9 (Some 3) [1, 2, 3]" "[0x0D, 7, 9, 3, 0, 1, 2, 3]"
        "\<lparr>hq_Versions = [4, 3], hq_ATTMTU = 247, hq_ClientWindowSize = 6\<rparr>" "\<lparr>hp_Version = 4, hp_ATTMTU = 244, hp_WindowSize = 6\<rparr>"]
    by simp
qed

text \<open>
  What is decoded from an advertisement: the identity that was encoded, which an extended
  announcement withholds; the flag of additional data is also set by an extended announcement.
\<close>

theorem advertisement_decoded:
  "DecodeAdvertisementData (EncodeAdvertisementData discriminator vendor product additional extended) =
     Inr \<lparr>a_Discriminator = discriminator, a_VendorID = (if extended then 0 else vendor),
          a_ProductID = (if extended then 0 else product),
          a_HasAdditionalAdvertisementData = (additional \<or> extended)\<rparr>"
  by (rule DecodeAdvertisementData_Encode)

section \<open>Negotiation\<close>

text \<open>
  C26. A central that offers a segment size and a peripheral that answers agree on the window;
  the central's segments fit the peripheral's size; and above the minimum both have the same
  size. At the minimum the peripheral may take a larger one.
\<close>

theorem handshake_agreement:
  assumes "20 \<le> offered" "offered \<le> 244"
    and "NewPeripheral maxDataSize (EncodeHandshakeRequest
       \<lparr>hq_Versions = SupportedVersions, hq_ATTMTU = word_of_int offered, hq_ClientWindowSize = w\<rparr>) write = Inr (resp, peripheral)"
  shows "\<exists>central. NewCentral resp offered = Inr central
    \<and> s_windowSize central = s_windowSize peripheral
    \<and> s_fragmentSize central = min offered (s_fragmentSize peripheral)
    \<and> (20 < offered \<longrightarrow> s_fragmentSize central = s_fragmentSize peripheral)
    \<and> s_seq central = -1 \<and> s_prevIncomingSeq central = s_seq peripheral"
proof -
  let ?q = "\<lparr>hq_Versions = SupportedVersions, hq_ATTMTU = word_of_int offered, hq_ClientWindowSize = w\<rparr>"
  have q: "DecodeHandshakeRequest (EncodeHandshakeRequest ?q) = Inr ?q"
    by (rule DecodeHandshakeRequest_Encode) (simp_all add: SupportedVersions_def)
  have o: "uint (word_of_int offered :: u16) = offered"
    using assms(1,2) by (simp add: unsigned_of_int take_bit_int_eq_self)
  let ?size = "peripheral_segment_size maxDataSize (word_of_int offered)"
  let ?p = "\<lparr>hp_Version = 4, hp_ATTMTU = word_of_int ?size, hp_WindowSize = w\<rparr> :: handshake_response"
  have size: "20 \<le> ?size" "?size \<le> 244" "20 < offered \<longrightarrow> ?size \<le> offered"
    using assms(1,2) by (auto simp: peripheral_segment_size_def MinimumATTMTU_def MaximumBTPMTU_def o)
  then have u: "uint (word_of_int ?size :: u16) = ?size" by (simp add: unsigned_of_int take_bit_int_eq_self)
  have w: "min MaximumWindowSize (uint w) = uint w" using uint_lt2p [of w] by (simp add: MaximumWindowSize_def)
  have v: "pick_version SupportedVersions = Some 4" by (simp add: pick_version_def SupportedVersions_def)
  have "resp = EncodeHandshakeResponse ?p \<and> s_windowSize peripheral = uint w \<and> s_fragmentSize peripheral = ?size \<and> s_seq peripheral = 0"
    using assms(3) q w v by (auto simp: NewPeripheral_def newSession_def Let_def split: if_splits)
  moreover have "DecodeHandshakeResponse (EncodeHandshakeResponse ?p) = Inr ?p"
    by (rule DecodeHandshakeResponse_Encode) simp_all
  ultimately show ?thesis
    using assms(1,2) size u
    by (auto simp: NewCentral_def newSession_def MinimumATTMTU_def MaximumBTPMTU_def Let_def min_def)
qed

theorem handshake_agreement_witness:
  "\<exists>resp peripheral central. NewPeripheral 100 (EncodeHandshakeRequest
       \<lparr>hq_Versions = SupportedVersions, hq_ATTMTU = word_of_int 180, hq_ClientWindowSize = 6\<rparr>) (\<lambda>_. True) = Inr (resp, peripheral)
    \<and> NewCentral resp 180 = Inr central \<and> s_fragmentSize central = s_fragmentSize peripheral"
proof -
  let ?q = "\<lparr>hq_Versions = SupportedVersions, hq_ATTMTU = word_of_int 180, hq_ClientWindowSize = 6\<rparr>"
  have q: "DecodeHandshakeRequest (EncodeHandshakeRequest ?q) = Inr ?q"
    by (rule DecodeHandshakeRequest_Encode) (simp_all add: SupportedVersions_def)
  have v: "pick_version SupportedVersions = Some 4" by (simp add: pick_version_def SupportedVersions_def)
  have "\<exists>x. NewPeripheral 100 (EncodeHandshakeRequest ?q) (\<lambda>_. True) = Inr x"
    unfolding NewPeripheral_def q and_then_simps by (simp add: v newSession_def Let_def)
  then obtain resp peripheral where p: "NewPeripheral 100 (EncodeHandshakeRequest ?q) (\<lambda>_. True) = Inr (resp, peripheral)"
    by auto
  from handshake_agreement [OF _ _ p] p show ?thesis by auto
qed

section \<open>Sessions\<close>


definition sample_session :: session where
  "sample_session = (case newSession RoleCentral 4 20 6 of Inr s \<Rightarrow> s)"

definition sample_peer :: session where
  "sample_peer = (case newSession RolePeripheral 4 20 6 of Inr s \<Rightarrow> s)"

lemma sample_opened: "opened sample_session" "\<not> s_reassembling sample_peer"
proof -
  have "newSession RoleCentral 4 20 6 = Inr sample_session" by (simp add: sample_session_def newSession_def Let_def)
  then show "opened sample_session" unfolding opened_def by (intro exI [of _ RoleCentral] exI [of _ 20] exI [of _ 6]) simp
  show "\<not> s_reassembling sample_peer" by (simp add: sample_peer_def newSession_def Let_def)
qed

definition sample_net :: net where
  "sample_net = run_section By_Other (Send [1, 2, 3]) (note_accepted [1, 2, 3] (net_of sample_session))"

lemma sample_reached: "btp_reach sample_session sample_net"
  unfolding sample_net_def by (rule further [OF initial send])




end
