(* ===== verification/Bdx_Codec.thy ===== *)
theory Bdx_Codec
  imports Wire
begin

text \<open>
  The bulk data exchange protocol of \<^verbatim>\<open>bdx\<close>: its messages (\<^verbatim>\<open>messages.go\<close>), status codes and
  status reports (\<^verbatim>\<open>errors.go\<close>) and file designators (\<^verbatim>\<open>designator.go\<close>). A pointer field is an
  option, a nil slice and an empty one are the same list; of an error the model keeps the kind
  and, for a BDX error, its status code, not the text.
\<close>

unbundle bit_operations_syntax

section \<open>Message types, status codes, errors\<close>

abbreviation BdxProtocolID :: u16 where "BdxProtocolID \<equiv> 2"

abbreviation MessageSendInit :: byte where "MessageSendInit \<equiv> 0x01"
abbreviation MessageSendAccept :: byte where "MessageSendAccept \<equiv> 0x02"
abbreviation MessageReceiveInit :: byte where "MessageReceiveInit \<equiv> 0x04"
abbreviation MessageReceiveAccept :: byte where "MessageReceiveAccept \<equiv> 0x05"
abbreviation MessageBlockQuery :: byte where "MessageBlockQuery \<equiv> 0x10"
abbreviation MessageBlock :: byte where "MessageBlock \<equiv> 0x11"
abbreviation MessageBlockEOF :: byte where "MessageBlockEOF \<equiv> 0x12"
abbreviation MessageBlockAck :: byte where "MessageBlockAck \<equiv> 0x13"
abbreviation MessageBlockAckEOF :: byte where "MessageBlockAckEOF \<equiv> 0x14"
abbreviation MessageBlockQueryWithSkip :: byte where "MessageBlockQueryWithSkip \<equiv> 0x15"

abbreviation StatusSuccess :: u16 where "StatusSuccess \<equiv> 0x00"
abbreviation StatusLengthTooLarge :: u16 where "StatusLengthTooLarge \<equiv> 0x12"
abbreviation StatusLengthTooShort :: u16 where "StatusLengthTooShort \<equiv> 0x13"
abbreviation StatusBadMessageContent :: u16 where "StatusBadMessageContent \<equiv> 0x16"
abbreviation StatusBadBlockCounter :: u16 where "StatusBadBlockCounter \<equiv> 0x17"
abbreviation StatusUnexpectedMessage :: u16 where "StatusUnexpectedMessage \<equiv> 0x18"
abbreviation StatusTransferFailedUnknownError :: u16 where "StatusTransferFailedUnknownError \<equiv> 0x1F"
abbreviation StatusTransferMethodNotSupported :: u16 where "StatusTransferMethodNotSupported \<equiv> 0x50"
abbreviation StatusFileDesignatorUnknown :: u16 where "StatusFileDesignatorUnknown \<equiv> 0x51"
abbreviation StatusStartOffsetNotSupported :: u16 where "StatusStartOffsetNotSupported \<equiv> 0x52"
abbreviation StatusVersionNotSupported :: u16 where "StatusVersionNotSupported \<equiv> 0x53"

text \<open>
  \<open>BdxError c\<close> is the source's \<open>*Error\<close> with its code, \<open>StatusResponseError\<close> a failure that
  the peer reported; the others are plain errors.
\<close>

datatype bdx_error =
    BdxError u16
  | StatusResponseError u16 u16
  | BdxErrTruncated
  | BdxErrUnknownType byte
  | BdxErrWrongType
  | BdxErrUnexpectedMessage
  | BdxErrExchange
  | BdxErrScopeDisabled
  | BdxErrSink
  | BdxErrStorage
  | BdxErrNotExist
  | BdxErrRead
  | BdxErrBlockSize
  | BdxErrTransferSize
  | BdxErrMissing

definition newError :: "u16 \<Rightarrow> (bdx_error, 'a) go" where
  "newError code = Inl (Fail (BdxError code))"

text \<open>The chain of an error that reaches \<open>AsError\<close> is the error itself.\<close>

definition AsError :: "bdx_error \<Rightarrow> u16 option" where
  "AsError e = (case e of BdxError c \<Rightarrow> Some c | _ \<Rightarrow> None)"

section \<open>The reader\<close>

text \<open>A cursor that records the first short read; every later read gives zero.\<close>

record bdx_reader =
  rd_b :: bytes
  rd_off :: nat
  rd_err :: bool

definition rd_new :: "bytes \<Rightarrow> bdx_reader" where
  "rd_new b = \<lparr>rd_b = b, rd_off = 0, rd_err = False\<rparr>"

definition rd_take :: "nat \<Rightarrow> bdx_reader \<Rightarrow> bytes option \<times> bdx_reader" where
  "rd_take n r =
     (if rd_err r then (None, r)
      else if rd_off r + n > length (rd_b r) then (None, r\<lparr>rd_err := True\<rparr>)
      else (Some (take n (drop (rd_off r) (rd_b r))), r\<lparr>rd_off := rd_off r + n\<rparr>))"

definition rd_u8 :: "bdx_reader \<Rightarrow> byte \<times> bdx_reader" where
  "rd_u8 r = (case rd_take 1 r of (Some s, r') \<Rightarrow> (hd s, r') | (None, r') \<Rightarrow> (0, r'))"

definition rd_u16 :: "bdx_reader \<Rightarrow> u16 \<times> bdx_reader" where
  "rd_u16 r = (case rd_take 2 r of (Some s, r') \<Rightarrow> (word_of_nat (le_value s), r') | (None, r') \<Rightarrow> (0, r'))"

definition rd_u32 :: "bdx_reader \<Rightarrow> u32 \<times> bdx_reader" where
  "rd_u32 r = (case rd_take 4 r of (Some s, r') \<Rightarrow> (word_of_nat (le_value s), r') | (None, r') \<Rightarrow> (0, r'))"

definition rd_u64 :: "bdx_reader \<Rightarrow> u64 \<times> bdx_reader" where
  "rd_u64 r = (case rd_take 8 r of (Some s, r') \<Rightarrow> (word_of_nat (le_value s), r') | (None, r') \<Rightarrow> (0, r'))"

definition rangeValue :: "bool \<Rightarrow> bdx_reader \<Rightarrow> u64 \<times> bdx_reader" where
  "rangeValue wide r = (if wide then rd_u64 r else (let (v, r') = rd_u32 r in (ucast v, r')))"

definition rd_bytes :: "nat \<Rightarrow> bdx_reader \<Rightarrow> bytes \<times> bdx_reader" where
  "rd_bytes n r = (case rd_take n r of (Some s, r') \<Rightarrow> (s, r') | (None, r') \<Rightarrow> ([], r'))"

definition rd_rest :: "bdx_reader \<Rightarrow> bytes" where
  "rd_rest r = (if rd_err r \<or> rd_off r \<ge> length (rd_b r) then [] else drop (rd_off r) (rd_b r))"

section \<open>Control octets\<close>

record transfer_control =
  tc_Version :: byte
  tc_SenderDrive :: bool
  tc_ReceiverDrive :: bool
  tc_AsynchronousTransfer :: bool

definition encodeTransferControl :: "transfer_control \<Rightarrow> byte" where
  "encodeTransferControl c =
     (let b = tc_Version c AND 0x0F;
          b = (if tc_SenderDrive c then b OR 0x10 else b);
          b = (if tc_ReceiverDrive c then b OR 0x20 else b);
          b = (if tc_AsynchronousTransfer c then b OR 0x40 else b)
      in b)"

definition decodeTransferControl :: "byte \<Rightarrow> transfer_control" where
  "decodeTransferControl b =
     \<lparr>tc_Version = b AND 0x0F, tc_SenderDrive = (b AND 0x10 \<noteq> 0),
      tc_ReceiverDrive = (b AND 0x20 \<noteq> 0), tc_AsynchronousTransfer = (b AND 0x40 \<noteq> 0)\<rparr>"

record range_control =
  rc_definiteLength :: bool
  rc_startOffset :: bool
  rc_wideRange :: bool

definition encodeRangeControl :: "range_control \<Rightarrow> byte" where
  "encodeRangeControl r =
     (let b = 0;
          b = (if rc_definiteLength r then b OR 0x01 else b);
          b = (if rc_startOffset r then b OR 0x02 else b);
          b = (if rc_wideRange r then b OR 0x10 else b)
      in b)"

definition decodeRangeControl :: "byte \<Rightarrow> range_control" where
  "decodeRangeControl b =
     \<lparr>rc_definiteLength = (b AND 0x01 \<noteq> 0), rc_startOffset = (b AND 0x02 \<noteq> 0),
      rc_wideRange = (b AND 0x10 \<noteq> 0)\<rparr>"

definition appendRange :: "bytes \<Rightarrow> u64 \<Rightarrow> bool \<Rightarrow> bytes" where
  "appendRange out v wide = (if wide then out @ put_u64 v else out @ put_u32 (ucast v))"

section \<open>Init messages\<close>

record init =
  in_TransferControl :: transfer_control
  in_MaxBlockSize :: u16
  in_StartOffset :: "u64 option"
  in_MaxLength :: "u64 option"
  in_WideRange :: bool
  in_FileDesignator :: bytes
  in_MetaData :: bytes

definition Init_Validate :: "init \<Rightarrow> (bdx_error, unit) go" where
  "Init_Validate m =
     (if tc_Version (in_TransferControl m) \<noteq> 0 then newError StatusVersionNotSupported
      else if \<not> tc_SenderDrive (in_TransferControl m) \<and> \<not> tc_ReceiverDrive (in_TransferControl m)
        then newError StatusBadMessageContent
      else if length (in_FileDesignator m) = 0 then newError StatusBadMessageContent
      else if length (in_FileDesignator m) > 0xFFFF then newError StatusBadMessageContent
      else if in_MaxBlockSize m < 1 then newError StatusBadMessageContent
      else Inr ())"

text \<open>A length is put on the wire when there is one and it is not 0.\<close>

definition definite :: "u64 option \<Rightarrow> bool" where
  "definite l = (case l of None \<Rightarrow> False | Some v \<Rightarrow> v \<noteq> 0)"

definition Init_Encode :: "init \<Rightarrow> (bdx_error, bytes) go" where
  "Init_Encode m = and_then (Init_Validate m) (\<lambda>_.
     let rc = \<lparr>rc_definiteLength = definite (in_MaxLength m),
               rc_startOffset = (in_StartOffset m \<noteq> None), rc_wideRange = in_WideRange m\<rparr>;
         out = [encodeTransferControl (in_TransferControl m), encodeRangeControl rc];
         out = out @ put_u16 (in_MaxBlockSize m);
         out = (case in_StartOffset m of None \<Rightarrow> out | Some v \<Rightarrow> appendRange out v (in_WideRange m));
         out = (case in_MaxLength m of
             None \<Rightarrow> out
           | Some v \<Rightarrow> if v \<noteq> 0 then appendRange out v (in_WideRange m) else out);
         out = out @ put_u16 (word_of_nat (length (in_FileDesignator m)));
         out = out @ in_FileDesignator m
     in Inr (if length (in_MetaData m) > 0 then out @ in_MetaData m else out))"

text \<open>The optional fields of a decoded message; a length of 0 is indefinite.\<close>

definition read_offset :: "range_control \<Rightarrow> bdx_reader \<Rightarrow> u64 option \<times> bdx_reader" where
  "read_offset rc r =
     (if rc_startOffset rc then (let (v, r) = rangeValue (rc_wideRange rc) r in (Some v, r))
      else (None, r))"

definition read_length :: "range_control \<Rightarrow> bdx_reader \<Rightarrow> u64 option \<times> bdx_reader" where
  "read_length rc r =
     (if rc_definiteLength rc
      then (let (v, r) = rangeValue (rc_wideRange rc) r in (if v \<noteq> 0 then Some v else None, r))
      else (None, r))"

definition DecodeInit :: "bytes \<Rightarrow> (bdx_error, init) go" where
  "DecodeInit b =
     (let (tcb, r) = rd_u8 (rd_new b);
          (rcb, r) = rd_u8 r;
          rc = decodeRangeControl rcb;
          (mbs, r) = rd_u16 r;
          (ofs, r) = read_offset rc r;
          (len, r) = read_length rc r;
          (fdLen, r) = rd_u16 r;
          (fd, r) = rd_bytes (unat fdLen) r
      in if rd_err r then Inl (Fail BdxErrTruncated)
         else let m = \<lparr>in_TransferControl = decodeTransferControl tcb, in_MaxBlockSize = mbs,
                       in_StartOffset = ofs, in_MaxLength = len, in_WideRange = rc_wideRange rc,
                       in_FileDesignator = fd, in_MetaData = rd_rest r\<rparr>
              in and_then (Init_Validate m) (\<lambda>_. Inr m))"

section \<open>Accept messages\<close>

record send_accept =
  sa_TransferControl :: transfer_control
  sa_MaxBlockSize :: u16
  sa_MetaData :: bytes

record receive_accept =
  ra_TransferControl :: transfer_control
  ra_MaxBlockSize :: u16
  ra_Length :: "u64 option"
  ra_WideRange :: bool
  ra_MetaData :: bytes

definition validateAccept :: "transfer_control \<Rightarrow> u16 \<Rightarrow> (bdx_error, unit) go" where
  "validateAccept tc maxBlockSize =
     (if tc_Version tc \<noteq> 0 then newError StatusVersionNotSupported
      else if \<not> tc_SenderDrive tc \<and> \<not> tc_ReceiverDrive tc \<and> \<not> tc_AsynchronousTransfer tc
        then newError StatusBadMessageContent
      else if maxBlockSize < 1 then newError StatusBadMessageContent
      else Inr ())"

definition SendAccept_Encode :: "send_accept \<Rightarrow> (bdx_error, bytes) go" where
  "SendAccept_Encode m = and_then (validateAccept (sa_TransferControl m) (sa_MaxBlockSize m)) (\<lambda>_.
     let out = [encodeTransferControl (sa_TransferControl m)];
         out = out @ put_u16 (sa_MaxBlockSize m)
     in Inr (out @ sa_MetaData m))"

definition DecodeSendAccept :: "bytes \<Rightarrow> (bdx_error, send_accept) go" where
  "DecodeSendAccept b =
     (let (tcb, r) = rd_u8 (rd_new b);
          (mbs, r) = rd_u16 r
      in if rd_err r then Inl (Fail BdxErrTruncated)
         else let m = \<lparr>sa_TransferControl = decodeTransferControl tcb, sa_MaxBlockSize = mbs,
                       sa_MetaData = rd_rest r\<rparr>
              in and_then (validateAccept (sa_TransferControl m) (sa_MaxBlockSize m)) (\<lambda>_. Inr m))"

definition ReceiveAccept_Encode :: "receive_accept \<Rightarrow> (bdx_error, bytes) go" where
  "ReceiveAccept_Encode m = and_then (validateAccept (ra_TransferControl m) (ra_MaxBlockSize m)) (\<lambda>_.
     let rc = \<lparr>rc_definiteLength = definite (ra_Length m), rc_startOffset = False,
               rc_wideRange = ra_WideRange m\<rparr>;
         out = [encodeTransferControl (ra_TransferControl m), encodeRangeControl rc];
         out = out @ put_u16 (ra_MaxBlockSize m);
         out = (case ra_Length m of
             None \<Rightarrow> out
           | Some v \<Rightarrow> if v \<noteq> 0 then appendRange out v (ra_WideRange m) else out)
     in Inr (out @ ra_MetaData m))"

definition DecodeReceiveAccept :: "bytes \<Rightarrow> (bdx_error, receive_accept) go" where
  "DecodeReceiveAccept b =
     (let (tcb, r) = rd_u8 (rd_new b);
          (rcb, r) = rd_u8 r;
          rc = decodeRangeControl rcb;
          (mbs, r) = rd_u16 r;
          (len, r) = read_length rc r
      in if rd_err r then Inl (Fail BdxErrTruncated)
         else let m = \<lparr>ra_TransferControl = decodeTransferControl tcb, ra_MaxBlockSize = mbs,
                       ra_Length = len, ra_WideRange = rc_wideRange rc, ra_MetaData = rd_rest r\<rparr>
              in and_then (validateAccept (ra_TransferControl m) (ra_MaxBlockSize m)) (\<lambda>_. Inr m))"

section \<open>Block messages\<close>

record block =
  b_BlockCounter :: u32
  b_Data :: bytes

record counter_only =
  co_BlockCounter :: u32

record block_query_with_skip =
  qs_BlockCounter :: u32
  qs_BytesToSkip :: u64

definition Block_Encode :: "block \<Rightarrow> bytes" where
  "Block_Encode m = put_u32 (b_BlockCounter m) @ b_Data m"

definition DecodeBlock :: "bytes \<Rightarrow> (bdx_error, block) go" where
  "DecodeBlock b =
     (let (c, r) = rd_u32 (rd_new b)
      in if rd_err r then Inl (Fail BdxErrTruncated)
         else Inr \<lparr>b_BlockCounter = c, b_Data = rd_rest r\<rparr>)"

definition CounterOnly_Encode :: "counter_only \<Rightarrow> bytes" where
  "CounterOnly_Encode m = put_u32 (co_BlockCounter m)"

definition DecodeCounterOnly :: "bytes \<Rightarrow> (bdx_error, counter_only) go" where
  "DecodeCounterOnly b =
     (let (c, r) = rd_u32 (rd_new b)
      in if rd_err r then Inl (Fail BdxErrTruncated) else Inr \<lparr>co_BlockCounter = c\<rparr>)"

definition BlockQueryWithSkip_Encode :: "block_query_with_skip \<Rightarrow> bytes" where
  "BlockQueryWithSkip_Encode m = put_u32 (qs_BlockCounter m) @ put_u64 (qs_BytesToSkip m)"

definition DecodeBlockQueryWithSkip :: "bytes \<Rightarrow> (bdx_error, block_query_with_skip) go" where
  "DecodeBlockQueryWithSkip b =
     (let (c, r) = rd_u32 (rd_new b);
          (k, r) = rd_u64 r
      in if rd_err r then Inl (Fail BdxErrTruncated)
         else Inr \<lparr>qs_BlockCounter = c, qs_BytesToSkip = k\<rparr>)"

text \<open>What \<open>Decode\<close> returns as \<open>any\<close>: one constructor per Go type.\<close>

datatype bdx_message =
    MInit init
  | MSendAccept send_accept
  | MReceiveAccept receive_accept
  | MBlock block
  | MCounterOnly counter_only
  | MBlockQueryWithSkip block_query_with_skip

definition bdx_Decode :: "byte \<Rightarrow> bytes \<Rightarrow> (bdx_error, bdx_message) go" where
  "bdx_Decode t payload =
     (if t = MessageSendInit \<or> t = MessageReceiveInit
        then and_then (DecodeInit payload) (\<lambda>m. Inr (MInit m))
      else if t = MessageSendAccept then and_then (DecodeSendAccept payload) (\<lambda>m. Inr (MSendAccept m))
      else if t = MessageReceiveAccept
        then and_then (DecodeReceiveAccept payload) (\<lambda>m. Inr (MReceiveAccept m))
      else if t = MessageBlock \<or> t = MessageBlockEOF
        then and_then (DecodeBlock payload) (\<lambda>m. Inr (MBlock m))
      else if t = MessageBlockQuery \<or> t = MessageBlockAck \<or> t = MessageBlockAckEOF
        then and_then (DecodeCounterOnly payload) (\<lambda>m. Inr (MCounterOnly m))
      else if t = MessageBlockQueryWithSkip
        then and_then (DecodeBlockQueryWithSkip payload) (\<lambda>m. Inr (MBlockQueryWithSkip m))
      else Inl (Fail (BdxErrUnknownType t)))"

section \<open>Status reports\<close>

abbreviation SecureChannelProtocolID :: u16 where "SecureChannelProtocolID \<equiv> 0"
abbreviation OpcodeStatusReport :: byte where "OpcodeStatusReport \<equiv> 0x40"
abbreviation GeneralSuccess :: u16 where "GeneralSuccess \<equiv> 0"
abbreviation GeneralFailure :: u16 where "GeneralFailure \<equiv> 1"

record status_report =
  sr_GeneralStatus :: u16
  sr_ProtocolID :: u16
  sr_VendorID :: u16
  sr_ProtocolStatus :: u16

definition bdx_EncodeStatusReport :: "u16 \<Rightarrow> u16 \<Rightarrow> bytes" where
  "bdx_EncodeStatusReport general code =
     put_u16 general @ put_u32 (ucast BdxProtocolID) @ put_u16 code"

definition bdx_DecodeStatusReport :: "bytes \<Rightarrow> (bdx_error, status_report) go" where
  "bdx_DecodeStatusReport b =
     (let (general, r) = rd_u16 (rd_new b);
          (vp, r) = rd_u32 r;
          (code, r) = rd_u16 r
      in if rd_err r then Inl (Fail BdxErrTruncated)
         else Inr \<lparr>sr_GeneralStatus = general, sr_ProtocolID = ucast (vp AND 0xFFFF),
                   sr_VendorID = ucast (drop_bit 16 vp), sr_ProtocolStatus = code\<rparr>)"

section \<open>File designators\<close>

text \<open>Strings are byte lists; characters are written by their codes.\<close>

definition ascii :: "string \<Rightarrow> bytes" where
  "ascii s = map (\<lambda>c. word_of_nat (of_char c)) s"

definition text_byte :: "byte \<Rightarrow> bool" where
  "text_byte b \<longleftrightarrow> (0x41 \<le> b \<and> b \<le> 0x5A) \<or> (0x61 \<le> b \<and> b \<le> 0x7A) \<or> (0x30 \<le> b \<and> b \<le> 0x39)
     \<or> b = 0x2E \<or> b = 0x2D \<or> b = 0x5F \<or> b = 0x2F"

definition hex_digit :: "bool \<Rightarrow> nat \<Rightarrow> byte" where
  "hex_digit upper d = (if d < 10 then 0x30 + word_of_nat d
     else (if upper then 0x41 else 0x61) + word_of_nat (d - 10))"

definition hex_EncodeToString :: "bytes \<Rightarrow> bytes" where
  "hex_EncodeToString bs =
     concat (map (\<lambda>b. [hex_digit False (unat b div 16), hex_digit False (unat b mod 16)]) bs)"

text \<open>The loop ends at the first byte outside the set.\<close>

definition designator_Text :: "bytes \<Rightarrow> bytes" where
  "designator_Text fd =
     (if list_all text_byte fd then fd else ascii ''0x'' @ hex_EncodeToString fd)"

text \<open>\<open>strings.ToUpper(fmt.Sprintf("%016x", n))\<close>: 16 digits, the most significant first.\<close>

fun upper_hex :: "nat \<Rightarrow> nat \<Rightarrow> bytes" where
  "upper_hex 0 v = []"
| "upper_hex (Suc n) v = upper_hex n (v div 16) @ [hex_digit True (v mod 16)]"

definition BdxURI :: "bytes \<Rightarrow> u64 \<Rightarrow> bytes" where
  "BdxURI fd sourceNode =
     ascii ''bdx://'' @ upper_hex 16 (unat sourceNode) @ ascii ''/'' @ designator_Text fd"

definition upper_hex_digit :: "byte \<Rightarrow> bool" where
  "upper_hex_digit b \<longleftrightarrow> (0x30 \<le> b \<and> b \<le> 0x39) \<or> (0x41 \<le> b \<and> b \<le> 0x46)"

definition hex_digit_value :: "byte \<Rightarrow> nat" where
  "hex_digit_value b = (if b \<le> 0x39 then unat (b - 0x30) else 10 + unat (b - 0x41))"

text \<open>\<open>\S\<close>: a byte that is not one of tab, newline, form feed, carriage return, space.\<close>

definition non_space :: "byte \<Rightarrow> bool" where
  "non_space b \<longleftrightarrow> b \<notin> {0x09, 0x0A, 0x0C, 0x0D, 0x20}"

text \<open>
  The match of \<open>^bdx://([0-9A-F]{16})/(\S+)$\<close> and \<open>strconv.ParseUint\<close> of the digits, which
  fit 64 bits. The result is the designator and the node id.
\<close>

definition ParseBdxURI :: "bytes \<Rightarrow> (bytes \<times> u64) option" where
  "ParseBdxURI uri =
     (let digits = take 16 (drop 6 uri); fd = drop 23 uri in
      if take 6 uri = ascii ''bdx://'' \<and> length digits = 16 \<and> list_all upper_hex_digit digits
         \<and> take 1 (drop 22 uri) = ascii ''/'' \<and> fd \<noteq> [] \<and> list_all non_space fd
      then Some (fd, word_of_nat (foldl (\<lambda>n b. 16 * n + hex_digit_value b) 0 digits))
      else None)"

end
