(* ===== verification/Bdx_Flow.thy ===== *)
theory Bdx_Flow
  imports Bdx_Codec
begin

text \<open>
  Transfers of the bulk data exchange protocol: the messenger (\<^verbatim>\<open>bdx/messenger.go\<close>), the file
  sink (\<^verbatim>\<open>sink.go\<close>), the inbound flow with its initiator (\<^verbatim>\<open>session.go\<close>) and the outbound flow
  with its initiator (\<^verbatim>\<open>outbound.go\<close>, \<^verbatim>\<open>send.go\<close>).

  An exchange is a record of what its environment will do: the messages the peer sends (after
  the last one \<open>Receive\<close> fails, as it does when the wait times out or the context ends), how
  many more sends succeed, the largest payload, and, for a context that is cancelled, whether
  it was cancelled before the last block and whether the cause is that the scope was disabled.
  Its additional retransmission delay is kept for the exchanges that take one.
  Every method of the source is a state transformer over the flow record; a run of a flow is
  then a function of what the peer sends. Byte counts of type \<open>int64\<close> are integers: they leave
  the range of the type only after 2 to the 63 bytes. Log output is left out, and so is the
  \<open>Result\<close> that is returned beside an error.
\<close>

unbundle bit_operations_syntax

section \<open>Exchange and messenger\<close>

record wire_message =
  w_ProtocolID :: u16
  w_Opcode :: byte
  w_Payload :: bytes

record link =
  x_inbox :: "wire_message list"
  x_sent :: "wire_message list"
  x_sends :: nat
  x_maxPayload :: int
  x_cancelled :: bool
  x_disabled :: bool
  x_takesMrpDelay :: bool
  x_mrpDelay :: "int option"

definition ex_Send :: "u16 \<Rightarrow> byte \<Rightarrow> bytes \<Rightarrow> (link, bdx_error, unit) reader" where
  "ex_Send pid op payload x =
     (if x_sends x = 0 then (Inl (Fail BdxErrExchange), x)
      else (Inr (), x\<lparr>x_sends := x_sends x - 1,
             x_sent := x_sent x @ [\<lparr>w_ProtocolID = pid, w_Opcode = op, w_Payload = payload\<rparr>]\<rparr>))"

definition statusReportError :: "bytes \<Rightarrow> (bdx_error, unit) go" where
  "statusReportError payload = and_then (bdx_DecodeStatusReport payload) (\<lambda>sr.
     if sr_GeneralStatus sr \<noteq> GeneralSuccess
       then Inl (Fail (StatusResponseError (sr_GeneralStatus sr) (sr_ProtocolStatus sr)))
     else if sr_ProtocolStatus sr \<noteq> StatusSuccess
       then Inl (Fail (StatusResponseError (sr_GeneralStatus sr) (sr_ProtocolStatus sr)))
     else Inr ())"

text \<open>The loop of \<open>Next\<close>: messages of other protocols are dropped.\<close>

fun next_loop :: "byte list \<Rightarrow> wire_message list \<Rightarrow> (bdx_error, byte \<times> bdx_message) go \<times> wire_message list" where
  "next_loop expected [] = (Inl (Fail BdxErrExchange), [])"
| "next_loop expected (msg # ms) =
     (if w_ProtocolID msg = SecureChannelProtocolID \<and> w_Opcode msg = OpcodeStatusReport
        then (and_then (statusReportError (w_Payload msg)) (\<lambda>_. Inl (Fail BdxErrUnexpectedMessage)), ms)
      else if w_ProtocolID msg \<noteq> BdxProtocolID then next_loop expected ms
      else let t = w_Opcode msg in
        if t \<notin> set expected then (Inl (Fail BdxErrUnexpectedMessage), ms)
        else (and_then (bdx_Decode t (w_Payload msg)) (\<lambda>v. Inr (t, v)), ms))"

definition bdx_Next :: "byte list \<Rightarrow> (link, bdx_error, byte \<times> bdx_message) reader" where
  "bdx_Next expected x =
     (let (r, ms) = next_loop expected (x_inbox x) in (r, x\<lparr>x_inbox := ms\<rparr>))"

text \<open>\<open>as[T]\<close>, the checked type assertion, for the types it is used at.\<close>

definition as_SendAccept :: "bdx_message \<Rightarrow> (bdx_error, send_accept) go" where
  "as_SendAccept v = (case v of MSendAccept m \<Rightarrow> Inr m | _ \<Rightarrow> Inl (Fail BdxErrWrongType))"

definition as_ReceiveAccept :: "bdx_message \<Rightarrow> (bdx_error, receive_accept) go" where
  "as_ReceiveAccept v = (case v of MReceiveAccept m \<Rightarrow> Inr m | _ \<Rightarrow> Inl (Fail BdxErrWrongType))"

definition as_Block :: "bdx_message \<Rightarrow> (bdx_error, block) go" where
  "as_Block v = (case v of MBlock m \<Rightarrow> Inr m | _ \<Rightarrow> Inl (Fail BdxErrWrongType))"

definition as_CounterOnly :: "bdx_message \<Rightarrow> (bdx_error, counter_only) go" where
  "as_CounterOnly v = (case v of MCounterOnly m \<Rightarrow> Inr m | _ \<Rightarrow> Inl (Fail BdxErrWrongType))"

definition counterOf :: "bdx_message \<Rightarrow> u32" where
  "counterOf v = (case v of
       MCounterOnly q \<Rightarrow> co_BlockCounter q
     | MBlockQueryWithSkip q \<Rightarrow> qs_BlockCounter q
     | _ \<Rightarrow> 0)"

text \<open>A computation without effect on the state.\<close>

definition pure_go :: "('e, 'a) go \<Rightarrow> ('s, 'e, 'a) reader" where
  "pure_go r s = (r, s)"

definition m_send :: "byte \<Rightarrow> bytes \<Rightarrow> (link, bdx_error, unit) reader" where
  "m_send t payload = ex_Send BdxProtocolID t payload"

definition SendSendInit :: "init \<Rightarrow> (link, bdx_error, send_accept) reader" where
  "SendSendInit msg = read_then (pure_go (Init_Encode msg)) (\<lambda>payload.
     read_then (m_send MessageSendInit payload) (\<lambda>_.
     read_then (bdx_Next [MessageSendAccept]) (\<lambda>(_, v). pure_go (as_SendAccept v))))"

definition SendReceiveInit :: "init \<Rightarrow> (link, bdx_error, receive_accept) reader" where
  "SendReceiveInit msg = read_then (pure_go (Init_Encode msg)) (\<lambda>payload.
     read_then (m_send MessageReceiveInit payload) (\<lambda>_.
     read_then (bdx_Next [MessageReceiveAccept]) (\<lambda>(_, v). pure_go (as_ReceiveAccept v))))"

definition SendSendAccept :: "send_accept \<Rightarrow> (link, bdx_error, unit) reader" where
  "SendSendAccept msg = read_then (pure_go (SendAccept_Encode msg)) (m_send MessageSendAccept)"

definition SendReceiveAccept :: "receive_accept \<Rightarrow> (link, bdx_error, unit) reader" where
  "SendReceiveAccept msg = read_then (pure_go (ReceiveAccept_Encode msg)) (m_send MessageReceiveAccept)"

definition SendBlock :: "block \<Rightarrow> (link, bdx_error, unit) reader" where
  "SendBlock msg = m_send MessageBlock (Block_Encode msg)"

definition SendBlockEOF :: "block \<Rightarrow> (link, bdx_error, unit) reader" where
  "SendBlockEOF msg = m_send MessageBlockEOF (Block_Encode msg)"

definition SendBlockQuery :: "u32 \<Rightarrow> (link, bdx_error, unit) reader" where
  "SendBlockQuery c = m_send MessageBlockQuery (CounterOnly_Encode \<lparr>co_BlockCounter = c\<rparr>)"

definition SendBlockQueryWithSkip :: "block_query_with_skip \<Rightarrow> (link, bdx_error, unit) reader" where
  "SendBlockQueryWithSkip msg = m_send MessageBlockQueryWithSkip (BlockQueryWithSkip_Encode msg)"

definition SendBlockAck :: "u32 \<Rightarrow> (link, bdx_error, unit) reader" where
  "SendBlockAck c = m_send MessageBlockAck (CounterOnly_Encode \<lparr>co_BlockCounter = c\<rparr>)"

definition SendBlockAckEOF :: "u32 \<Rightarrow> (link, bdx_error, unit) reader" where
  "SendBlockAckEOF c = m_send MessageBlockAckEOF (CounterOnly_Encode \<lparr>co_BlockCounter = c\<rparr>)"

definition ReadBlock :: "(link, bdx_error, byte \<times> block) reader" where
  "ReadBlock = read_then (bdx_Next [MessageBlock, MessageBlockEOF]) (\<lambda>(t, v).
     read_then (pure_go (as_Block v)) (\<lambda>b.
     pure_go (if t = MessageBlock \<and> length (b_Data b) = 0 then newError StatusBadMessageContent
              else Inr (t, b))))"

definition ReadBlockQuery :: "(link, bdx_error, byte \<times> bdx_message) reader" where
  "ReadBlockQuery =
     read_then (bdx_Next [MessageBlockQuery, MessageBlockQueryWithSkip, MessageBlockAck]) (\<lambda>(t, v).
     if t = MessageBlockAck then
       read_then (pure_go (as_CounterOnly v)) (\<lambda>ack.
       read_then (bdx_Next [MessageBlockQuery, MessageBlockQueryWithSkip]) (\<lambda>(t, v).
       pure_go (if counterOf v \<noteq> co_BlockCounter ack + 1 then newError StatusBadBlockCounter
                else Inr (t, v))))
     else pure_go (Inr (t, v)))"

definition ReadBlockAckEOF :: "(link, bdx_error, counter_only) reader" where
  "ReadBlockAckEOF = read_then (bdx_Next [MessageBlockAckEOF]) (\<lambda>(_, v). pure_go (as_CounterOnly v))"

definition ReadBlockAck :: "(link, bdx_error, counter_only) reader" where
  "ReadBlockAck = read_then (bdx_Next [MessageBlockAck]) (\<lambda>(_, v). pure_go (as_CounterOnly v))"

definition SendError :: "u16 \<Rightarrow> (link, bdx_error, unit) reader" where
  "SendError code =
     ex_Send SecureChannelProtocolID OpcodeStatusReport (bdx_EncodeStatusReport GeneralFailure code)"

section \<open>Sinks\<close>

text \<open>
  A sink is given by its two methods: \<open>Write\<close>, and \<open>Close\<close> whose argument says whether the
  transfer completed.
\<close>

record 'k sink_ops =
  k_Write :: "bytes \<Rightarrow> ('k, bdx_error, nat) reader"
  k_Close :: "bool \<Rightarrow> ('k, bdx_error, unit) reader"

text \<open>
  The file sink with the part of the file system it touches: the file at the path, the
  temporary file, and which calls of the operating system succeed. A write stores what still
  fits and fails when that is not all.
\<close>

record file_sink =
  fs_tmp :: "bytes option"
  fs_written :: int
  fs_closed :: bool
  fs_file :: "bytes option"
  fs_create_ok :: bool
  fs_space :: nat
  fs_sync_ok :: bool
  fs_close_ok :: bool
  fs_rename_ok :: bool

definition CreateTemp :: "(file_sink, bdx_error, unit) reader" where
  "CreateTemp s = (if fs_create_ok s then (Inr (), s\<lparr>fs_tmp := Some []\<rparr>) else (Inl (Fail BdxErrSink), s))"

definition FileSink_Write :: "bytes \<Rightarrow> (file_sink, bdx_error, nat) reader" where
  "FileSink_Write p s =
     (if fs_closed s then (Inl (Fail BdxErrSink), s)
      else read_then (if fs_tmp s = None then CreateTemp else pure_go (Inr ())) (\<lambda>_ s.
        let n = min (length p) (fs_space s);
            s = s\<lparr>fs_tmp := map_option (\<lambda>c. c @ take n p) (fs_tmp s), fs_space := fs_space s - n,
                  fs_written := fs_written s + int n\<rparr>
        in (if n < length p then Inl (Fail BdxErrSink) else Inr n, s)) s)"

definition Written :: "file_sink \<Rightarrow> int" where
  "Written s = fs_written s"

definition FileSink_Close :: "bool \<Rightarrow> (file_sink, bdx_error, unit) reader" where
  "FileSink_Close completed s =
     (if fs_closed s then (Inr (), s)
      else let s = s\<lparr>fs_closed := True\<rparr> in
        if fs_tmp s = None \<and> \<not> completed then (Inr (), s)
        else read_then (if fs_tmp s = None then CreateTemp else pure_go (Inr ())) (\<lambda>_ s.
          let removed = s\<lparr>fs_tmp := None\<rparr> in
          if \<not> completed then (Inr (), removed)
          else if \<not> fs_sync_ok s then (Inl (Fail BdxErrSink), removed)
          else if \<not> fs_close_ok s then (Inl (Fail BdxErrSink), removed)
          else if \<not> fs_rename_ok s then (Inl (Fail BdxErrSink), removed)
          else (Inr (), removed\<lparr>fs_file := fs_tmp s\<rparr>)) s)"

definition FileSink :: "file_sink sink_ops" where
  "FileSink = \<lparr>k_Write = FileSink_Write, k_Close = FileSink_Close\<rparr>"

section \<open>What flows share\<close>

datatype driver_mode = SenderDrive | ReceiverDrive

text \<open>Which of the observers are set, and the calls made to them.\<close>

record flow_hooks =
  h_progress :: bool
  h_finished :: bool
  h_cancelled :: bool

datatype hook_call = Progress u64 "u64 option" | Finished u64 | Cancelled

definition no_hooks :: flow_hooks where
  "no_hooks = \<lparr>h_progress = False, h_finished = False, h_cancelled = False\<rparr>"

record result =
  res_Transferred :: u64
  res_Length :: "u64 option"
  res_Mode :: driver_mode
  res_BlockSize :: u16
  res_StartOffset :: u64

abbreviation blockCounterOverhead :: int where "blockCounterOverhead \<equiv> 4"
abbreviation maxSafeInteger :: u64 where "maxSafeInteger \<equiv> 0x1FFFFFFFFFFFFF"

definition capBlockSizeToTransport :: "link \<Rightarrow> int \<Rightarrow> int" where
  "capBlockSizeToTransport x maxBlockSize =
     (let transport = x_maxPayload x - blockCounterOverhead in
      if maxBlockSize > transport then transport else maxBlockSize)"

definition default_modes :: "driver_mode list \<Rightarrow> driver_mode list" where
  "default_modes modes = (if length modes = 0 then [SenderDrive, ReceiverDrive] else modes)"

text \<open>The block size an initiator offers.\<close>

definition offered_block_size :: "link \<Rightarrow> u16 \<Rightarrow> (bdx_error, int) go" where
  "offered_block_size x configured =
     (let maxBlockSize = min (x_maxPayload x - blockCounterOverhead) 0xFFFF;
          maxBlockSize = (if configured \<noteq> 0 \<and> maxBlockSize > uint configured then uint configured
                          else maxBlockSize)
      in if maxBlockSize < 1 \<or> maxBlockSize > 0xFFFF then Inl (Fail BdxErrBlockSize)
         else Inr maxBlockSize)"

definition next_counter :: "int \<Rightarrow> int" where
  "next_counter c = (c + 1) mod 0x100000000"

section \<open>Inbound flow\<close>

record 'k inbound =
  f_x :: link
  f_sink :: 'k
  f_hooks :: flow_hooks
  f_counter :: int
  f_transferred :: u64
  f_dataLength :: "u64 option"
  f_bytesLeft :: "int option"
  f_calls :: "hook_call list"

definition new_inbound :: "link \<Rightarrow> 'k \<Rightarrow> flow_hooks \<Rightarrow> 'k inbound" where
  "new_inbound x k hooks = \<lparr>f_x = x, f_sink = k, f_hooks = hooks, f_counter = -1, f_transferred = 0,
     f_dataLength = None, f_bytesLeft = None, f_calls = []\<rparr>"

definition f_link :: "(link, bdx_error, 'a) reader \<Rightarrow> ('k inbound, bdx_error, 'a) reader" where
  "f_link op f = (let (r, x) = op (f_x f) in (r, f\<lparr>f_x := x\<rparr>))"

definition f_close :: "'k sink_ops \<Rightarrow> bool \<Rightarrow> ('k inbound, bdx_error, unit) reader" where
  "f_close ops completed f = (let (r, k) = k_Close ops completed (f_sink f) in (r, f\<lparr>f_sink := k\<rparr>))"

definition setDataLength :: "u64 \<Rightarrow> 'k inbound \<Rightarrow> 'k inbound" where
  "setDataLength l f = f\<lparr>f_dataLength := Some l, f_bytesLeft := Some (uint l)\<rparr>"

definition f_emit :: "'k inbound \<Rightarrow> 'k inbound" where
  "f_emit f = (if h_progress (f_hooks f)
     then f\<lparr>f_calls := f_calls f @ [Progress (f_transferred f) (f_dataLength f)]\<rparr> else f)"

definition f_fail :: "'k sink_ops \<Rightarrow> bdx_error fault \<Rightarrow> 'k inbound \<Rightarrow> 'k inbound" where
  "f_fail ops err f =
     (let f = (case err of
             Fail e \<Rightarrow> (case AsError e of Some code \<Rightarrow> snd (f_link (SendError code) f) | None \<Rightarrow> f)
           | Panic \<Rightarrow> f);
          f = (if h_cancelled (f_hooks f) then f\<lparr>f_calls := f_calls f @ [Cancelled]\<rparr> else f)
      in snd (f_close ops False f))"

definition f_write :: "'k sink_ops \<Rightarrow> bytes \<Rightarrow> byte \<Rightarrow> ('k inbound, bdx_error, bool) reader" where
  "f_write ops data t f = (case k_Write ops data (f_sink f) of
       (Inl e, k) \<Rightarrow> (Inl e, f\<lparr>f_sink := k\<rparr>)
     | (Inr _, k) \<Rightarrow>
         let f = f\<lparr>f_sink := k, f_bytesLeft := map_option (\<lambda>l. l - int (length data)) (f_bytesLeft f)\<rparr> in
         if t \<noteq> MessageBlockEOF then (Inr False, f)
         else (case f_bytesLeft f of
             None \<Rightarrow> (Inr True, f)
           | Some l \<Rightarrow> if l \<noteq> 0 then (newError (if l > 0 then StatusLengthTooShort else StatusLengthTooLarge), f)
                      else (Inr True, f)))"

definition f_nextCounter :: "'k inbound \<Rightarrow> u32 \<times> 'k inbound" where
  "f_nextCounter f = (let c = next_counter (f_counter f) in (word_of_int c, f\<lparr>f_counter := c\<rparr>))"

definition f_count :: "bytes \<Rightarrow> 'k inbound \<Rightarrow> 'k inbound" where
  "f_count data f = f\<lparr>f_transferred := f_transferred f + word_of_nat (length data)\<rparr>"

definition drivingNext :: "'k sink_ops \<Rightarrow> ('k inbound, bdx_error, bool) reader" where
  "drivingNext ops f = (let (counter, f) = f_nextCounter f in
     read_then (f_link (SendBlockQuery counter)) (\<lambda>_.
     read_then (f_link ReadBlock) (\<lambda>(t, block) f.
       if b_BlockCounter block \<noteq> counter then (newError StatusBadBlockCounter, f)
       else f_write ops (b_Data block) t (f_count (b_Data block) f))) f)"

definition in_followingNext :: "'k sink_ops \<Rightarrow> ('k inbound, bdx_error, bool) reader" where
  "in_followingNext ops = read_then (f_link ReadBlock) (\<lambda>(t, block) f.
     let (want, f) = f_nextCounter f in
     if b_BlockCounter block \<noteq> want then (newError StatusBadBlockCounter, f)
     else read_then (f_write ops (b_Data block) t) (\<lambda>done.
       if done then pure_go (Inr True)
       else read_then (f_link (SendBlockAck (b_BlockCounter block))) (\<lambda>_. pure_go (Inr False)))
       (f_count (b_Data block) f))"

text \<open>One iteration of the loop of \<open>process\<close>.\<close>

definition in_step :: "'k sink_ops \<Rightarrow> bool \<Rightarrow> ('k inbound, bdx_error, bool) reader" where
  "in_step ops isDriver = (if isDriver then drivingNext ops else in_followingNext ops)"

text \<open>A step that asks for another one has consumed a message.\<close>

lemma next_loop_consumes: "next_loop expected ms = (Inr v, ms') \<Longrightarrow> length ms' < length ms"
proof (induction expected ms rule: next_loop.induct)
  case (2 expected msg ms)
  then show ?case by (auto simp: Let_def and_then_Inr_iff split: if_splits)
qed simp

lemma ReadBlock_consumes: "ReadBlock x = (Inr v, x') \<Longrightarrow> length (x_inbox x') < length (x_inbox x)"
  by (auto simp: ReadBlock_def read_then_Inr_iff bdx_Next_def pure_go_def split: prod.splits if_splits
      dest: next_loop_consumes)

lemma ex_Send_inbox: "x_inbox (snd (ex_Send pid op p x)) = x_inbox x"
  by (simp add: ex_Send_def)

lemma f_write_link: "f_x (snd (f_write ops data t f)) = f_x f"
  by (auto simp: f_write_def Let_def split: prod.splits sum.splits option.splits)

lemma in_step_consumes:
  assumes "in_step ops isDriver f = (Inr done, f')"
  shows "length (x_inbox (f_x f')) < length (x_inbox (f_x f))"
proof (cases isDriver)
  case True
  have s: "x_inbox (snd (SendBlockQuery c x)) = x_inbox x" for c x
    by (simp add: SendBlockQuery_def m_send_def ex_Send_inbox)
  from assms True obtain g t b h where 1: "f_link (SendBlockQuery (word_of_int (next_counter (f_counter f))))
        (f\<lparr>f_counter := next_counter (f_counter f)\<rparr>) = (Inr (), g)"
      and 2: "f_link ReadBlock g = (Inr (t, b), h)"
      and 3: "f_write ops (b_Data b) t (f_count (b_Data b) h) = (Inr done, f')"
    by (auto simp: in_step_def drivingNext_def f_nextCounter_def Let_def read_then_Inr_iff newError_def split: if_splits)
  have "x_inbox (f_x g) = x_inbox (f_x f)"
    using 1 s [of "word_of_int (next_counter (f_counter f))" "f_x f"] by (auto simp: f_link_def split: prod.splits)
  moreover have "length (x_inbox (f_x h)) < length (x_inbox (f_x g))"
    using 2 by (auto simp: f_link_def split: prod.splits dest: ReadBlock_consumes)
  moreover have "f_x f' = f_x h"
    using 3 f_write_link [of ops "b_Data b" t "f_count (b_Data b) h"] by (simp add: f_count_def)
  ultimately show ?thesis by simp
next
  case False
  have s: "x_inbox (snd (SendBlockAck c x)) = x_inbox x" for c x
    by (simp add: SendBlockAck_def m_send_def ex_Send_inbox)
  from assms False obtain t b h g d where 2: "f_link ReadBlock f = (Inr (t, b), h)"
      and 3: "f_write ops (b_Data b) t (f_count (b_Data b) (h\<lparr>f_counter := next_counter (f_counter h)\<rparr>)) = (Inr d, g)"
      and 4: "f' = g \<or> f' = snd (f_link (SendBlockAck (b_BlockCounter b)) g)"
    by (auto simp: in_step_def in_followingNext_def f_nextCounter_def Let_def read_then_Inr_iff newError_def pure_go_def
        split: if_splits)
  have "length (x_inbox (f_x h)) < length (x_inbox (f_x f))"
    using 2 by (auto simp: f_link_def split: prod.splits dest: ReadBlock_consumes)
  moreover have "f_x g = f_x h"
    using 3 f_write_link [of ops "b_Data b" t "f_count (b_Data b) (h\<lparr>f_counter := next_counter (f_counter h)\<rparr>)"]
    by (simp add: f_count_def)
  moreover have "x_inbox (f_x f') = x_inbox (f_x g)"
    using 4 s [of "b_BlockCounter b" "f_x g"] by (auto simp: f_link_def split: prod.splits)
  ultimately show ?thesis by simp
qed

function in_blocks :: "'k sink_ops \<Rightarrow> bool \<Rightarrow> ('k inbound, bdx_error, unit) reader" where
  "in_blocks ops isDriver f = (case in_step ops isDriver f of
       (Inl e, f) \<Rightarrow> (Inl e, f)
     | (Inr done, f) \<Rightarrow> if done then (Inr (), f) else in_blocks ops isDriver (f_emit f))"
  by pat_completeness auto
termination
  by (relation "measure (\<lambda>(ops, isDriver, f). length (x_inbox (f_x f)))")
    (auto simp: f_emit_def dest: in_step_consumes [OF sym])

declare in_blocks.simps [simp del]

definition f_finish :: "'k inbound \<Rightarrow> 'k inbound" where
  "f_finish f = (if h_finished (f_hooks f)
     then f\<lparr>f_calls := f_calls f @ [Finished (f_transferred f)]\<rparr> else f)"

definition in_process :: "'k sink_ops \<Rightarrow> bool \<Rightarrow> ('k inbound, bdx_error, unit) reader" where
  "in_process ops isDriver f =
     read_then (in_blocks ops isDriver) (\<lambda>_ f.
     read_then (f_close ops True) (\<lambda>_ f.
     read_then (f_link (SendBlockAckEOF (word_of_int (f_counter f)))) (\<lambda>_ f.
       (Inr (), f_finish f)) f) (f_emit f)) (f_emit f)"

record 'k receive_options =
  ro_TransferFileDesignator :: bytes
  ro_Sink :: "'k option"
  ro_PreferredDriverModes :: "driver_mode list"
  ro_MaxBlockSize :: u16
  ro_Progress :: bool

text \<open>
  \<open>run\<close> up to the call of \<open>process\<close>: the init, the peer's accept, and what is settled.
\<close>

definition receive_init :: "int \<Rightarrow> driver_mode list \<Rightarrow> bytes \<Rightarrow> init" where
  "receive_init maxBlockSize modes fd =
     \<lparr>in_TransferControl = \<lparr>tc_Version = 0, tc_SenderDrive = (SenderDrive \<in> set modes),
        tc_ReceiverDrive = (ReceiverDrive \<in> set modes), tc_AsynchronousTransfer = False\<rparr>,
      in_MaxBlockSize = word_of_int maxBlockSize, in_StartOffset = None, in_MaxLength = None,
      in_WideRange = False, in_FileDesignator = fd, in_MetaData = []\<rparr>"

definition mode_of :: "transfer_control \<Rightarrow> driver_mode" where
  "mode_of tc = (if tc_SenderDrive tc then SenderDrive else ReceiverDrive)"

definition in_settle :: "receive_accept \<Rightarrow> ('k inbound, bdx_error, result) reader" where
  "in_settle accept f =
     (if tc_AsynchronousTransfer (ra_TransferControl accept)
        then (newError StatusTransferMethodNotSupported, f)
      else let blockSize = capBlockSizeToTransport (f_x f) (uint (ra_MaxBlockSize accept)) in
        case (case ra_Length accept of
            None \<Rightarrow> Some f
          | Some l \<Rightarrow> if l > maxSafeInteger then None else Some (setDataLength l f)) of
          None \<Rightarrow> (newError StatusLengthTooLarge, f)
        | Some f \<Rightarrow> (Inr \<lparr>res_Transferred = 0, res_Length = f_dataLength f,
              res_Mode = mode_of (ra_TransferControl accept), res_BlockSize = word_of_int blockSize,
              res_StartOffset = 0\<rparr>, f))"

definition in_run :: "'k sink_ops \<Rightarrow> driver_mode list \<Rightarrow> 'k receive_options \<Rightarrow> ('k inbound, bdx_error, result) reader" where
  "in_run ops modes opts f =
     read_then (\<lambda>f. (offered_block_size (f_x f) (ro_MaxBlockSize opts), f)) (\<lambda>maxBlockSize.
     read_then (f_link (SendReceiveInit (receive_init maxBlockSize modes (ro_TransferFileDesignator opts)))) (\<lambda>accept.
     read_then (in_settle accept) (\<lambda>res.
     read_then (in_process ops (\<not> tc_SenderDrive (ra_TransferControl accept))) (\<lambda>_ f.
       (Inr (res\<lparr>res_Transferred := f_transferred f\<rparr>), f))))) f"

text \<open>
  \<open>Receive\<close>: the result and the flow it leaves behind, none when there is no sink.
\<close>

definition bdx_Receive :: "'k sink_ops \<Rightarrow> 'k receive_options \<Rightarrow> link \<Rightarrow> (bdx_error, result) go \<times> 'k inbound option" where
  "bdx_Receive ops opts x = (case ro_Sink opts of
       None \<Rightarrow> (Inl (Fail BdxErrMissing), None)
     | Some k \<Rightarrow>
         (case in_run ops (default_modes (ro_PreferredDriverModes opts)) opts
             (new_inbound x k (no_hooks\<lparr>h_progress := ro_Progress opts\<rparr>)) of
           (Inl e, f) \<Rightarrow> (Inl e, Some (f_fail ops e f))
         | (Inr res, f) \<Rightarrow> (Inr res, Some f)))"

section \<open>Outbound flow\<close>

text \<open>
  The stream the blocks are read from: the bytes it still yields, and whether it then ends or
  fails.
\<close>

record byte_stream =
  st_rest :: bytes
  st_broken :: bool

record outbound =
  g_x :: link
  g_hooks :: flow_hooks
  g_data :: byte_stream
  g_blockSize :: int
  g_counter :: int
  g_finalCounter :: u32
  g_transferred :: u64
  g_dataLength :: "u64 option"
  g_bytesLeft :: "int option"
  g_negotiatedLength :: "u64 option"
  g_calls :: "hook_call list"

definition new_outbound :: "link \<Rightarrow> byte_stream \<Rightarrow> outbound" where
  "new_outbound x data = \<lparr>g_x = x, g_hooks = no_hooks, g_data = data, g_blockSize = 0, g_counter = -1,
     g_finalCounter = 0, g_transferred = 0, g_dataLength = None, g_bytesLeft = None,
     g_negotiatedLength = None, g_calls = []\<rparr>"

definition g_link :: "(link, bdx_error, 'a) reader \<Rightarrow> (outbound, bdx_error, 'a) reader" where
  "g_link op g = (let (r, x) = op (g_x g) in (r, g\<lparr>g_x := x\<rparr>))"

definition g_emit :: "outbound \<Rightarrow> outbound" where
  "g_emit g = (if h_progress (g_hooks g)
     then g\<lparr>g_calls := g_calls g @ [Progress (g_transferred g) (g_dataLength g)]\<rparr> else g)"

definition g_finish :: "outbound \<Rightarrow> outbound" where
  "g_finish g = (if h_finished (g_hooks g)
     then g\<lparr>g_calls := g_calls g @ [Finished (g_transferred g)]\<rparr> else g)"

definition g_fail :: "bdx_error fault \<Rightarrow> outbound \<Rightarrow> outbound" where
  "g_fail err g =
     (let g = (case err of
             Fail e \<Rightarrow> (case AsError e of Some code \<Rightarrow> snd (g_link (SendError code) g) | None \<Rightarrow> g)
           | Panic \<Rightarrow> g)
      in if h_cancelled (g_hooks g) then g\<lparr>g_calls := g_calls g @ [Cancelled]\<rparr> else g)"

definition negotiate :: "u64 \<Rightarrow> outbound \<Rightarrow> outbound" where
  "negotiate len g = g\<lparr>g_negotiatedLength := Some len, g_dataLength := Some len,
     g_bytesLeft := Some (uint len)\<rparr>"

definition g_nextCounter :: "outbound \<Rightarrow> u32 \<times> outbound" where
  "g_nextCounter g = (let c = next_counter (g_counter g) in (word_of_int c, g\<lparr>g_counter := c\<rparr>))"

definition validateCounter :: "u32 \<Rightarrow> u32 \<Rightarrow> (bdx_error, unit) go" where
  "validateCounter got want = (if got \<noteq> want then newError StatusBadBlockCounter else Inr ())"

text \<open>
  \<open>io.ReadFull\<close> into a buffer of \<open>n\<close> bytes: the data and whether the stream ended before the
  buffer was full.
\<close>

definition ReadFull :: "nat \<Rightarrow> (byte_stream, bdx_error, bytes \<times> bool) reader" where
  "ReadFull n d =
     (if n \<le> length (st_rest d) then (Inr (take n (st_rest d), False), d\<lparr>st_rest := drop n (st_rest d)\<rparr>)
      else if st_broken d then (Inl (Fail BdxErrRead), d\<lparr>st_rest := []\<rparr>)
      else (Inr (st_rest d, True), d\<lparr>st_rest := []\<rparr>))"

text \<open>\<open>io.CopyN\<close> to nowhere; that the stream ends early is not an error of the caller.\<close>

definition skip_bytes :: "nat \<Rightarrow> (byte_stream, bdx_error, unit) reader" where
  "skip_bytes n d =
     (if n > length (st_rest d) \<and> st_broken d then (Inl (Fail BdxErrRead), d\<lparr>st_rest := []\<rparr>)
      else (Inr (), d\<lparr>st_rest := drop n (st_rest d)\<rparr>))"

definition g_stream :: "(byte_stream, bdx_error, 'a) reader \<Rightarrow> (outbound, bdx_error, 'a) reader" where
  "g_stream op g = (let (r, d) = op (g_data g) in (r, g\<lparr>g_data := d\<rparr>))"

definition readDataChunk :: "(outbound, bdx_error, bytes \<times> bool) reader" where
  "readDataChunk g =
     (if g_blockSize g < 0 then (Inl Panic, g)
      else read_then (g_stream (ReadFull (nat (g_blockSize g)))) (\<lambda>(data, done) g.
        if g_bytesLeft g = None \<or> g_negotiatedLength g = None then (Inr (data, done), g)
        else let left = the (g_bytesLeft g) - int (length data); g = g\<lparr>g_bytesLeft := Some left\<rparr> in
          if left < 0 then (newError StatusLengthTooLarge, g)
          else if done \<and> left > 0 then (newError StatusLengthTooShort, g)
          else (Inr (data, done \<or> left = 0), g)) g)"

definition g_count :: "nat \<Rightarrow> outbound \<Rightarrow> outbound" where
  "g_count n g = g\<lparr>g_transferred := g_transferred g + word_of_nat n\<rparr>"

definition sendBlockEOF :: "block \<Rightarrow> (outbound, bdx_error, unit) reader" where
  "sendBlockEOF b g =
     (if x_cancelled (g_x g)
        then (Inl (Fail (if x_disabled (g_x g) then BdxErrScopeDisabled else BdxErrExchange)), g)
      else (case g_link (SendBlockEOF b) g of
          (Inl e, g) \<Rightarrow> (if x_disabled (g_x g) then Inr () else Inl e, g)
        | (Inr _, g) \<Rightarrow> (Inr (), g)))"

text \<open>
  The end of both steps: the block goes out, the last one as \<open>BlockEof\<close>; \<open>after\<close> is what follows
  a block that is not the last.
\<close>

definition send_chunk :: "u32 \<Rightarrow> (outbound, bdx_error, bool) reader \<Rightarrow> (outbound, bdx_error, bool) reader" where
  "send_chunk counter after = read_then readDataChunk (\<lambda>(data, done).
     if done then
       read_then (sendBlockEOF \<lparr>b_BlockCounter = counter, b_Data = data\<rparr>) (\<lambda>_ g.
         (Inr True, (g_count (length data) g)\<lparr>g_finalCounter := counter\<rparr>))
     else
       read_then (g_link (SendBlock \<lparr>b_BlockCounter = counter, b_Data = data\<rparr>)) (\<lambda>_ g.
         after (g_count (length data) g)))"

definition drivenNext :: "(outbound, bdx_error, bool) reader" where
  "drivenNext g = (let (counter, g) = g_nextCounter g in
     send_chunk counter (read_then (g_link ReadBlockAck) (\<lambda>ack.
       read_then (pure_go (validateCounter (co_BlockCounter ack) counter)) (\<lambda>_. pure_go (Inr False)))) g)"

definition out_followingNext :: "(outbound, bdx_error, bool) reader" where
  "out_followingNext = read_then (g_link ReadBlockQuery) (\<lambda>(t, v).
     read_then (pure_go (if t = MessageBlockQueryWithSkip then (case v of
           MBlockQueryWithSkip q \<Rightarrow>
             if qs_BytesToSkip q > maxSafeInteger then newError StatusTransferFailedUnknownError
             else Inr (qs_BytesToSkip q)
         | _ \<Rightarrow> Inr 0)
       else Inr 0)) (\<lambda>skip g.
     let counter = counterOf v; (want, g) = g_nextCounter g in
     read_then (pure_go (validateCounter counter want)) (\<lambda>_.
     read_then (if skip > 0
         then read_then (g_stream (skip_bytes (unat skip))) (\<lambda>_ g. (Inr (), g_count (unat skip) g))
         else pure_go (Inr ())) (\<lambda>_.
     send_chunk counter (pure_go (Inr False)))) g))"

definition out_step :: "bool \<Rightarrow> (outbound, bdx_error, bool) reader" where
  "out_step isDriver = (if isDriver then drivenNext else out_followingNext)"

text \<open>A step that asks for another one has consumed a message, here too.\<close>

lemma bdx_Next_consumes: "bdx_Next ts x = (Inr v, x') \<Longrightarrow> length (x_inbox x') < length (x_inbox x)"
  by (auto simp: bdx_Next_def split: prod.splits dest: next_loop_consumes)

lemma ReadBlockAck_consumes: "ReadBlockAck x = (Inr v, x') \<Longrightarrow> length (x_inbox x') < length (x_inbox x)"
  by (auto simp: ReadBlockAck_def read_then_Inr_iff pure_go_def split: prod.splits dest: bdx_Next_consumes)

lemma ReadBlockQuery_consumes: "ReadBlockQuery x = (Inr v, x') \<Longrightarrow> length (x_inbox x') < length (x_inbox x)"
  by (auto simp: ReadBlockQuery_def read_then_Inr_iff pure_go_def split: prod.splits if_splits
      dest!: bdx_Next_consumes)

lemma g_link_inbox: "(\<And>y. x_inbox (snd (op y)) = x_inbox y) \<Longrightarrow> x_inbox (g_x (snd (g_link op g))) = x_inbox (g_x g)"
  by (simp add: g_link_def split: prod.splits) (metis snd_conv)

lemma SendBlock_inbox: "x_inbox (snd (SendBlock b x)) = x_inbox x" "x_inbox (snd (SendBlockEOF b x)) = x_inbox x"
  by (simp_all add: SendBlock_def SendBlockEOF_def m_send_def ex_Send_inbox)

lemma readDataChunk_link: "g_x (snd (readDataChunk g)) = g_x g"
  by (simp add: readDataChunk_def read_then_def g_stream_def ReadFull_def Let_def split: sum.splits prod.splits)

lemma send_chunk_inbox:
  assumes "send_chunk c after g = (Inr False, g')"
  shows "\<exists>h. after h = (Inr False, g') \<and> x_inbox (g_x h) = x_inbox (g_x g)"
proof -
  from assms obtain data h k where 1: "readDataChunk g = (Inr (data, False), h)"
    and 2: "g_link (SendBlock \<lparr>b_BlockCounter = c, b_Data = data\<rparr>) h = (Inr (), k)"
    and 3: "after (g_count (length data) k) = (Inr False, g')"
    by (auto simp: send_chunk_def read_then_Inr_iff split: if_splits)
  have "x_inbox (g_x k) = x_inbox (g_x h)"
    using g_link_inbox [where op = "SendBlock \<lparr>b_BlockCounter = c, b_Data = data\<rparr>" and g = h, OF SendBlock_inbox(1)] 2
    by simp
  moreover have "g_x h = g_x g" using readDataChunk_link [of g] 1 by simp
  ultimately show ?thesis using 3 by (intro exI [of _ "g_count (length data) k"]) (simp add: g_count_def)
qed

lemma out_step_consumes:
  assumes "out_step isDriver g = (Inr False, g')"
  shows "length (x_inbox (g_x g')) < length (x_inbox (g_x g))"
proof (cases isDriver)
  case True
  with assms obtain h where "read_then (g_link ReadBlockAck) (\<lambda>ack.
       read_then (pure_go (validateCounter (co_BlockCounter ack) (word_of_int (next_counter (g_counter g)))))
         (\<lambda>_. pure_go (Inr False))) h = (Inr False, g')" "x_inbox (g_x h) = x_inbox (g_x g)"
    by (auto simp: out_step_def drivenNext_def g_nextCounter_def Let_def dest!: send_chunk_inbox)
  then show ?thesis
    by (auto simp: read_then_Inr_iff g_link_def pure_go_def split: prod.splits dest: ReadBlockAck_consumes)
next
  case False
  with assms have "out_followingNext g = (Inr False, g')" by (simp add: out_step_def)
  then obtain t v h skip k where 1: "g_link ReadBlockQuery g = (Inr (t, v), h)"
    and 3: "(if (skip :: u64) > 0
         then read_then (g_stream (skip_bytes (unat skip))) (\<lambda>_ g. (Inr (), g_count (unat skip) g))
         else pure_go (Inr ())) (h\<lparr>g_counter := next_counter (g_counter h)\<rparr>) = (Inr (), k)"
    and 4: "send_chunk (counterOf v) (pure_go (Inr False)) k = (Inr False, g')"
    unfolding out_followingNext_def read_then_Inr_iff
    by (auto simp: read_then_Inr_iff pure_go_def g_nextCounter_def Let_def)
  have "g_x k = g_x h"
    using 3 by (auto simp: read_then_Inr_iff pure_go_def g_stream_def g_count_def split: if_splits prod.splits)
  moreover have "length (x_inbox (g_x h)) < length (x_inbox (g_x g))"
    using 1 by (auto simp: g_link_def split: prod.splits dest: ReadBlockQuery_consumes)
  moreover have "x_inbox (g_x g') = x_inbox (g_x k)"
    using send_chunk_inbox [OF 4] by (auto simp: pure_go_def)
  ultimately show ?thesis by simp
qed

function out_blocks :: "bool \<Rightarrow> (outbound, bdx_error, unit) reader" where
  "out_blocks isDriver g = (case out_step isDriver g of
       (Inl e, g) \<Rightarrow> (Inl e, g)
     | (Inr done, g) \<Rightarrow> if done then (Inr (), g) else out_blocks isDriver (g_emit g))"
  by pat_completeness auto
termination
  by (relation "measure (\<lambda>(isDriver, g). length (x_inbox (g_x g)))")
    (auto simp: g_emit_def dest: out_step_consumes [OF sym])

declare out_blocks.simps [simp del]

definition out_process :: "bool \<Rightarrow> (outbound, bdx_error, unit) reader" where
  "out_process isDriver g =
     read_then (out_blocks isDriver) (\<lambda>_ g.
       case g_link ReadBlockAckEOF (g_emit g) of
         (Inl e, g) \<Rightarrow> if x_disabled (g_x g) then (Inr (), g_finish g) else (Inl e, g)
       | (Inr ack, g) \<Rightarrow>
           read_then (pure_go (validateCounter (co_BlockCounter ack) (g_finalCounter g)))
             (\<lambda>_ g. (Inr (), g_finish g)) g) (g_emit g)"

record send_options =
  so_TransferFileDesignator :: bytes
  so_Data :: "byte_stream option"
  so_Length :: "u64 option"
  so_PreferredDriverModes :: "driver_mode list"
  so_MaxBlockSize :: u16
  so_MaxTransferSize :: u64
  so_StartOffset :: "u64 option"
  so_Progress :: bool

abbreviation DefaultMaxTransferSize :: u64 where "DefaultMaxTransferSize \<equiv> 102400000"

definition transfer_limit :: "send_options \<Rightarrow> u64" where
  "transfer_limit opts = (if so_MaxTransferSize opts = 0 then DefaultMaxTransferSize else so_MaxTransferSize opts)"

definition send_init :: "int \<Rightarrow> driver_mode list \<Rightarrow> send_options \<Rightarrow> init" where
  "send_init maxBlockSize modes opts =
     \<lparr>in_TransferControl = \<lparr>tc_Version = 0, tc_SenderDrive = (SenderDrive \<in> set modes),
        tc_ReceiverDrive = (ReceiverDrive \<in> set modes), tc_AsynchronousTransfer = False\<rparr>,
      in_MaxBlockSize = word_of_int maxBlockSize, in_StartOffset = so_StartOffset opts,
      in_MaxLength = so_Length opts, in_WideRange = False,
      in_FileDesignator = so_TransferFileDesignator opts, in_MetaData = []\<rparr>"

text \<open>The outcome of \<open>startSend\<close> is \<open>isDriver\<close> and \<open>res\<close> of the transfer; the flow is the state.\<close>

definition startSend :: "driver_mode list \<Rightarrow> send_options \<Rightarrow> (outbound, bdx_error, bool \<times> result) reader" where
  "startSend modes opts =
     read_then (pure_go (case so_Length opts of
         None \<Rightarrow> Inr ()
       | Some l \<Rightarrow> if l > transfer_limit opts then Inl (Fail BdxErrTransferSize) else Inr ())) (\<lambda>_.
     read_then (\<lambda>g. (offered_block_size (g_x g) (so_MaxBlockSize opts), g)) (\<lambda>maxBlockSize.
     read_then (g_link (SendSendInit (send_init maxBlockSize modes opts))) (\<lambda>accept g.
       if tc_AsynchronousTransfer (sa_TransferControl accept)
         then (newError StatusTransferMethodNotSupported, g)
       else let
           g = g\<lparr>g_blockSize := capBlockSizeToTransport (g_x g) (uint (sa_MaxBlockSize accept))\<rparr>;
           g = (case so_Length opts of None \<Rightarrow> g | Some l \<Rightarrow> if l \<noteq> 0 then negotiate l g else g)
         in (Inr (tc_SenderDrive (sa_TransferControl accept),
               \<lparr>res_Transferred = 0, res_Length = g_dataLength g,
                res_Mode = mode_of (sa_TransferControl accept), res_BlockSize = word_of_int (g_blockSize g),
                res_StartOffset = (case so_StartOffset opts of None \<Rightarrow> 0 | Some ofs \<Rightarrow> ofs)\<rparr>), g))))"

definition StartSend :: "send_options \<Rightarrow> link \<Rightarrow> (bdx_error, bool \<times> result) go \<times> outbound option" where
  "StartSend opts x = (case so_Data opts of
       None \<Rightarrow> (Inl (Fail BdxErrMissing), None)
     | Some d \<Rightarrow>
         (case startSend (default_modes (so_PreferredDriverModes opts)) opts (new_outbound x d) of
           (Inl e, g) \<Rightarrow> (Inl e, Some (g_fail e g))
         | (Inr t, g) \<Rightarrow> (Inr t, Some (g\<lparr>g_hooks := no_hooks\<lparr>h_progress := so_Progress opts\<rparr>\<rparr>))))"

definition Transfer_Run :: "bool \<Rightarrow> result \<Rightarrow> outbound \<Rightarrow> (bdx_error, result) go \<times> outbound" where
  "Transfer_Run isDriver res g = (case out_process isDriver g of
       (Inl e, g) \<Rightarrow> (Inl e, g_fail e g)
     | (Inr _, g) \<Rightarrow> (Inr (res\<lparr>res_Transferred := g_transferred g\<rparr>), g))"

definition bdx_Send :: "send_options \<Rightarrow> link \<Rightarrow> (bdx_error, result) go \<times> outbound option" where
  "bdx_Send opts x = (case StartSend opts x of
       (Inl e, g) \<Rightarrow> (Inl e, g)
     | (Inr (isDriver, res), Some g) \<Rightarrow> (let (r, g) = Transfer_Run isDriver res g in (r, Some g))
     | (Inr _, None) \<Rightarrow> (Inl Panic, None))"

end
