(* ===== verification/Bdx_Serve.thy ===== *)
theory Bdx_Serve
  imports Bdx_Flow
begin

text \<open>
  Transfers that a peer initiates: \<open>Serve\<close> and its two branches (\<^verbatim>\<open>bdx/serve.go\<close>), and the
  responder that enables peers for storage scopes and serves the exchanges they open
  (\<^verbatim>\<open>responder.go\<close>). A session is identified by a number in place of its address. What a session
  reports to its own observers is the list of calls of its flow.
\<close>

section \<open>Serving one transfer\<close>

text \<open>
  A stored file: the bytes its \<open>ReadAt\<close> yields, what its \<open>Size\<close> says, and whether reading
  past the bytes fails instead of ending.
\<close>

record blob =
  blob_data :: bytes
  blob_Size :: int
  blob_broken :: bool

record 'k serve_options =
  sv_InitType :: byte
  sv_Init :: init
  sv_TransferFileDesignator :: bytes
  sv_Open :: "(bdx_error, blob) go option"
  sv_Sink :: "'k option"
  sv_PreferredDriverModes :: "driver_mode list"
  sv_MaxBlockSize :: u16
  sv_hooks :: flow_hooks

definition checkDesignator :: "'k serve_options \<Rightarrow> (bdx_error, unit) go" where
  "checkDesignator opts =
     (if designator_Text (in_FileDesignator (sv_Init opts)) \<noteq> designator_Text (sv_TransferFileDesignator opts)
      then newError StatusFileDesignatorUnknown else Inr ())"

text \<open>The loop over the preferred modes.\<close>

fun choose_mode :: "transfer_control \<Rightarrow> driver_mode list \<Rightarrow> transfer_control option" where
  "choose_mode offered [] = None"
| "choose_mode offered (m # ms) =
     (if (m = SenderDrive \<and> tc_SenderDrive offered) \<or> (m = ReceiverDrive \<and> tc_ReceiverDrive offered)
      then Some \<lparr>tc_Version = 0, tc_SenderDrive = (m = SenderDrive), tc_ReceiverDrive = (m = ReceiverDrive),
                 tc_AsynchronousTransfer = False\<rparr>
      else choose_mode offered ms)"

definition determineAccept ::
  "link \<Rightarrow> driver_mode list \<Rightarrow> 'k serve_options \<Rightarrow> (bdx_error, transfer_control \<times> u16 \<times> u64 option) go" where
  "determineAccept x modes opts = (case choose_mode (in_TransferControl (sv_Init opts)) modes of
       None \<Rightarrow> newError StatusTransferMethodNotSupported
     | Some tc \<Rightarrow>
         let size = capBlockSizeToTransport x (uint (in_MaxBlockSize (sv_Init opts)));
             size = (if sv_MaxBlockSize opts \<noteq> 0 \<and> size > uint (sv_MaxBlockSize opts)
                     then uint (sv_MaxBlockSize opts) else size)
         in if size < 1 then newError StatusBadMessageContent
            else (case in_MaxLength (sv_Init opts) of
                None \<Rightarrow> Inr (tc, word_of_int size, None)
              | Some l \<Rightarrow>
                  if l > maxSafeInteger then newError StatusLengthTooLarge
                  else Inr (tc, word_of_int size, if l > 0 then Some l else None)))"

text \<open>\<open>io.NewSectionReader\<close>: the part of the blob from \<open>off\<close>, at most \<open>n\<close> bytes.\<close>

definition NewSectionReader :: "blob \<Rightarrow> nat \<Rightarrow> nat \<Rightarrow> byte_stream" where
  "NewSectionReader b off n =
     \<lparr>st_rest = take n (drop off (blob_data b)), st_broken = (blob_broken b \<and> off + n > length (blob_data b))\<rparr>"

definition open_blob :: "'k serve_options \<Rightarrow> (bdx_error, blob) go" where
  "open_blob opts = (case sv_Open opts of
       None \<Rightarrow> newError StatusFileDesignatorUnknown
     | Some (Inr b) \<Rightarrow> Inr b
     | Some (Inl (Fail e)) \<Rightarrow> if e = BdxErrNotExist then newError StatusFileDesignatorUnknown else Inl (Fail e)
     | Some (Inl Panic) \<Rightarrow> Inl Panic)"

definition start_offset :: "init \<Rightarrow> (bdx_error, u64) go" where
  "start_offset i = (case in_StartOffset i of
       None \<Rightarrow> Inr 0
     | Some ofs \<Rightarrow> if ofs > maxSafeInteger then newError StatusStartOffsetNotSupported else Inr ofs)"

definition negotiateSender :: "driver_mode list \<Rightarrow> 'k serve_options \<Rightarrow> (outbound, bdx_error, result) reader" where
  "negotiateSender modes opts =
     read_then (pure_go (checkDesignator opts)) (\<lambda>_.
     read_then (pure_go (open_blob opts)) (\<lambda>blob.
     read_then (pure_go (start_offset (sv_Init opts))) (\<lambda>startOffset.
     read_then (\<lambda>g. (determineAccept (g_x g) modes opts, g)) (\<lambda>(tc, blockSize, length).
     let size = max (blob_Size blob) 0 in
     read_then (pure_go (case length of
         None \<Rightarrow> Inr ()
       | Some l \<Rightarrow> if uint l > size - uint startOffset then newError StatusLengthTooLarge else Inr ())) (\<lambda>_.
     read_then (g_link (SendReceiveAccept \<lparr>ra_TransferControl = tc, ra_MaxBlockSize = blockSize,
         ra_Length = length, ra_WideRange = False, ra_MetaData = []\<rparr>)) (\<lambda>_ g.
       let g = g\<lparr>g_blockSize := capBlockSizeToTransport (g_x g) (uint blockSize)\<rparr>;
           dataLength = (case length of None \<Rightarrow> size | Some l \<Rightarrow> uint l);
           g = (case length of None \<Rightarrow> g\<lparr>g_dataLength := Some (word_of_int size)\<rparr> | Some l \<Rightarrow> negotiate l g);
           g = g\<lparr>g_data := NewSectionReader blob (unat startOffset) (nat dataLength)\<rparr>
       in (Inr \<lparr>res_Transferred = 0, res_Length = g_dataLength g, res_Mode = mode_of tc,
                res_BlockSize = word_of_int (g_blockSize g), res_StartOffset = startOffset\<rparr>, g)))))))"

definition serveSender :: "driver_mode list \<Rightarrow> 'k serve_options \<Rightarrow> link \<Rightarrow> (bdx_error, result) go \<times> outbound" where
  "serveSender modes opts x =
     (case negotiateSender modes opts (new_outbound x \<lparr>st_rest = [], st_broken = False\<rparr>) of
       (Inl e, g) \<Rightarrow> (Inl e, g_fail e g)
     | (Inr res, g) \<Rightarrow>
         (case out_process (res_Mode res = SenderDrive) (g\<lparr>g_hooks := sv_hooks opts\<rparr>) of
           (Inl e, g) \<Rightarrow> (Inl e, g_fail e g)
         | (Inr _, g) \<Rightarrow> (Inr (res\<lparr>res_Transferred := g_transferred g\<rparr>), g)))"

definition negotiateReceiver ::
  "driver_mode list \<Rightarrow> 'k serve_options \<Rightarrow> ('k inbound, bdx_error, result) reader" where
  "negotiateReceiver modes opts =
     read_then (pure_go (checkDesignator opts)) (\<lambda>_.
     read_then (\<lambda>f. (determineAccept (f_x f) modes opts, f)) (\<lambda>(tc, blockSize, _).
     read_then (f_link (SendSendAccept \<lparr>sa_TransferControl = tc, sa_MaxBlockSize = blockSize, sa_MetaData = []\<rparr>)) (\<lambda>_ f.
       (Inr \<lparr>res_Transferred = 0, res_Length = None, res_Mode = mode_of tc,
             res_BlockSize = word_of_int (capBlockSizeToTransport (f_x f) (uint blockSize)),
             res_StartOffset = 0\<rparr>, f))))"

definition serveReceiver ::
  "'k sink_ops \<Rightarrow> driver_mode list \<Rightarrow> 'k serve_options \<Rightarrow> link \<Rightarrow> (bdx_error, result) go \<times> 'k inbound option" where
  "serveReceiver ops modes opts x = (case sv_Sink opts of
       None \<Rightarrow> (Inl (Fail BdxErrMissing), None)
     | Some k \<Rightarrow>
         (case negotiateReceiver modes opts (new_inbound x k no_hooks) of
           (Inl e, f) \<Rightarrow> (Inl e, Some (f_fail ops e f))
         | (Inr res, f) \<Rightarrow>
             (case in_process ops (res_Mode res = ReceiverDrive) (f\<lparr>f_hooks := sv_hooks opts\<rparr>) of
               (Inl e, f) \<Rightarrow> (Inl e, Some (f_fail ops e f))
             | (Inr _, f) \<Rightarrow> (Inr (res\<lparr>res_Transferred := f_transferred f\<rparr>), Some f))))"

text \<open>What a served transfer leaves: a flow, or only the exchange.\<close>

datatype 'k served = ServedOut outbound | ServedIn "'k inbound" | ServedNone link

definition bdx_Serve :: "'k sink_ops \<Rightarrow> 'k serve_options \<Rightarrow> link \<Rightarrow> (bdx_error, result) go \<times> 'k served" where
  "bdx_Serve ops opts x =
     (let modes = default_modes (sv_PreferredDriverModes opts) in
      if sv_InitType opts = MessageReceiveInit then
        (let (r, g) = serveSender modes opts x in (r, ServedOut g))
      else if sv_InitType opts = MessageSendInit then
        (case serveReceiver ops modes opts x of
          (r, Some f) \<Rightarrow> (r, ServedIn f)
        | (r, None) \<Rightarrow> (r, ServedNone x))
      else (newError StatusUnexpectedMessage, ServedNone (snd (SendError StatusUnexpectedMessage x))))"

definition served_link :: "'k served \<Rightarrow> link" where
  "served_link s = (case s of ServedOut g \<Rightarrow> g_x g | ServedIn f \<Rightarrow> f_x f | ServedNone x \<Rightarrow> x)"

section \<open>The responder\<close>

record peer =
  p_FabricIndex :: byte
  p_NodeID :: u64
  p_SessionID :: u16

type_synonym peer_key = "byte \<times> u64"

definition peer_key_of :: "peer \<Rightarrow> peer_key" where
  "peer_key_of p = (p_FabricIndex p, p_NodeID p)"

text \<open>
  A storage, with the identity \<open>sameStorage\<close> compares. Only some storages create files.
\<close>

record 'k storage =
  sg_id :: nat
  sg_Open :: "bytes \<Rightarrow> (bdx_error, blob) go"
  sg_Create :: "(bytes \<Rightarrow> (bdx_error, 'k) go) option"

definition sameStorage :: "'k storage \<Rightarrow> 'k storage \<Rightarrow> bool" where
  "sameStorage a b \<longleftrightarrow> sg_id a = sg_id b"

record scope_config =
  sc_PreferredDriverModes :: "driver_mode list"
  sc_MaxBlockSize :: u16
  sc_MessageTimeout :: int
  sc_AdditionalMrpDelay :: "int option"

record server_session =
  ss_id :: nat
  ss_peer :: peer
  ss_scope :: bytes
  ss_file :: bytes
  ss_initType :: byte
  ss_init :: init
  ss_transferred :: u64
  ss_total :: "u64 option"
  ss_closed :: bool

type_synonym scope_key = "peer_key \<times> bytes"

record 'k responder =
  rp_scopes :: "scope_key \<Rightarrow> ('k storage \<times> scope_config) option"
  rp_sessions :: "server_session list"
  rp_mrpDelay :: "int option"

definition NewResponder :: "'k responder" where
  "NewResponder = \<lparr>rp_scopes = (\<lambda>_. None), rp_sessions = [], rp_mrpDelay = None\<rparr>"

definition SetAdditionalMrpDelay :: "int \<Rightarrow> 'k responder \<Rightarrow> 'k responder" where
  "SetAdditionalMrpDelay d r = (if d < 0 then r\<lparr>rp_mrpDelay := None\<rparr> else r\<lparr>rp_mrpDelay := Some d\<rparr>)"

definition mrpDelayFor :: "scope_config \<Rightarrow> 'k responder \<Rightarrow> int option" where
  "mrpDelayFor cfg r = (if sc_AdditionalMrpDelay cfg \<noteq> None then sc_AdditionalMrpDelay cfg else rp_mrpDelay r)"

text \<open>The source ranges over a map: which of several running sessions it returns is not fixed.\<close>

definition activeForLocked :: "scope_key \<Rightarrow> 'k responder \<Rightarrow> server_session option" where
  "activeForLocked key r =
     find (\<lambda>s. ss_scope s = snd key \<and> peer_key_of (ss_peer s) = fst key) (rp_sessions r)"

definition SessionFor :: "peer \<Rightarrow> bytes \<Rightarrow> 'k responder \<Rightarrow> server_session option" where
  "SessionFor p scope r = activeForLocked (peer_key_of p, scope) r"

definition EnablePeerForScope ::
  "peer \<Rightarrow> bytes \<Rightarrow> 'k storage \<Rightarrow> scope_config \<Rightarrow> 'k responder \<Rightarrow> bool \<times> 'k responder" where
  "EnablePeerForScope p scope storage cfg r =
     (let key = (peer_key_of p, scope);
          enabled = (True, r\<lparr>rp_scopes := (rp_scopes r)(key \<mapsto> (storage, cfg))\<rparr>)
      in case rp_scopes r key of
          None \<Rightarrow> enabled
        | Some (st, c) \<Rightarrow>
            if (\<not> sameStorage st storage \<or> c \<noteq> cfg) \<and> activeForLocked key r \<noteq> None then (False, r)
            else enabled)"

text \<open>
  The outcome of \<open>DisablePeerForScope\<close>: whether it is refused with \<open>ErrActiveSession\<close>, and the
  session it closes.
\<close>

definition DisablePeerForScope ::
  "peer \<Rightarrow> bytes \<Rightarrow> bool \<Rightarrow> 'k responder \<Rightarrow> (bool \<times> server_session option) \<times> 'k responder" where
  "DisablePeerForScope p scope force r =
     (let key = (peer_key_of p, scope); active = activeForLocked key r in
      if active \<noteq> None \<and> \<not> force then ((True, None), r)
      else ((False, active), r\<lparr>rp_scopes := (rp_scopes r)(key := None)\<rparr>))"

definition register :: "server_session \<Rightarrow> 'k responder \<Rightarrow> 'k responder" where
  "register s r = r\<lparr>rp_sessions := s # rp_sessions r\<rparr>"

definition unregister :: "server_session \<Rightarrow> 'k responder \<Rightarrow> 'k responder" where
  "unregister s r = r\<lparr>rp_sessions := filter (\<lambda>t. ss_id t \<noteq> ss_id s) (rp_sessions r)\<rparr>"

definition session_progress :: "u64 \<Rightarrow> u64 option \<Rightarrow> server_session \<Rightarrow> server_session" where
  "session_progress transferred tot s = s\<lparr>ss_transferred := transferred, ss_total := tot\<rparr>"

text \<open>What the calls of a flow leave in its session.\<close>

fun observe :: "hook_call \<Rightarrow> server_session \<Rightarrow> server_session" where
  "observe (Progress n tot) s = session_progress n tot s"
| "observe (Finished n) s = s"
| "observe Cancelled s = s"

definition session_closed :: "server_session \<Rightarrow> server_session" where
  "session_closed s = (if ss_closed s then s else s\<lparr>ss_closed := True\<rparr>)"

text \<open>\<open>strings.Split(s, "/")\<close>.\<close>

fun split_slash :: "bytes \<Rightarrow> bytes list" where
  "split_slash [] = [[]]"
| "split_slash (b # bs) = (if b = 0x2F then [] # split_slash bs
     else (case split_slash bs of p # ps \<Rightarrow> (b # p) # ps | [] \<Rightarrow> [[b]]))"

definition refuse :: "bdx_error fault \<Rightarrow> link \<Rightarrow> link" where
  "refuse err x = (case err of
       Fail e \<Rightarrow> (case AsError e of Some code \<Rightarrow> snd (SendError code x) | None \<Rightarrow> x)
     | Panic \<Rightarrow> x)"

text \<open>
  \<open>HandleExchange\<close> up to the registration of the session: the refused exchange, or the
  session with its options and the exchange it runs on. \<open>sid\<close> is the new session's identity.
\<close>

definition accept_exchange ::
  "nat \<Rightarrow> peer \<Rightarrow> wire_message \<Rightarrow> link \<Rightarrow> 'k responder \<Rightarrow> link + (server_session \<times> 'k serve_options \<times> link)" where
  "accept_exchange sid p msg x r =
     (let t = w_Opcode msg in
      if w_ProtocolID msg \<noteq> BdxProtocolID \<or> (t \<noteq> MessageSendInit \<and> t \<noteq> MessageReceiveInit)
        then Inl (snd (SendError StatusUnexpectedMessage x))
      else case DecodeInit (w_Payload msg) of
          Inl e \<Rightarrow> Inl (refuse e x)
        | Inr i \<Rightarrow>
            let parts = split_slash (designator_Text (in_FileDesignator i)); scope = parts ! 0 in
            case rp_scopes r (peer_key_of p, scope) of
              None \<Rightarrow> Inl (refuse (Fail (BdxError StatusFileDesignatorUnknown)) x)
            | Some (storage, cfg) \<Rightarrow>
                if length parts < 2 then Inl (refuse (Fail (BdxError StatusFileDesignatorUnknown)) x)
                else let
                    file = parts ! 1;
                    x = (case mrpDelayFor cfg r of
                        Some d \<Rightarrow> if x_takesMrpDelay x then x\<lparr>x_mrpDelay := Some d\<rparr> else x
                      | None \<Rightarrow> x);
                    s = \<lparr>ss_id = sid, ss_peer = p, ss_scope = scope, ss_file = file, ss_initType = t,
                         ss_init = i, ss_transferred = 0, ss_total = None, ss_closed = False\<rparr>;
                    opts = \<lparr>sv_InitType = t, sv_Init = i,
                      sv_TransferFileDesignator = scope @ ascii ''/'' @ file,
                      sv_Open = Some (sg_Open storage file), sv_Sink = None,
                      sv_PreferredDriverModes = sc_PreferredDriverModes cfg,
                      sv_MaxBlockSize = sc_MaxBlockSize cfg,
                      sv_hooks = \<lparr>h_progress = True, h_finished = True, h_cancelled = True\<rparr>\<rparr>
                  in if t = MessageSendInit then
                      (case sg_Create storage of
                        None \<Rightarrow> Inl (refuse (Fail (BdxError StatusFileDesignatorUnknown)) x)
                      | Some create \<Rightarrow>
                          (case create file of
                            Inl e \<Rightarrow> Inl (refuse e x)
                          | Inr sink \<Rightarrow> Inr (s, opts\<lparr>sv_Sink := Some sink\<rparr>, x)))
                    else Inr (s, opts, x))"

definition served_calls :: "'k served \<Rightarrow> hook_call list" where
  "served_calls s = (case s of ServedOut g \<Rightarrow> g_calls g | ServedIn f \<Rightarrow> f_calls f | ServedNone x \<Rightarrow> [])"

text \<open>
  The whole handler: the exchange as it is left, the transfer if one ran with its session at
  the end, and the responder.
\<close>

definition HandleExchange ::
  "'k sink_ops \<Rightarrow> nat \<Rightarrow> peer \<Rightarrow> wire_message \<Rightarrow> link \<Rightarrow> 'k responder \<Rightarrow>
    link \<times> (server_session \<times> (bdx_error, result) go \<times> 'k served) option \<times> 'k responder" where
  "HandleExchange ops sid p msg x r = (case accept_exchange sid p msg x r of
       Inl x \<Rightarrow> (x, None, r)
     | Inr (s, opts, x) \<Rightarrow>
         let r = register s r;
             (res, served) = bdx_Serve ops opts x;
             s' = session_closed (fold observe (served_calls served) s)
         in (served_link served, Some (s', res, served), unregister s r))"

end
