(* ===== verification/Bdx_Roundtrip.thy ===== *)
theory Bdx_Roundtrip
  imports Bdx_Codec
begin

text \<open>
  The codecs of the bulk data exchange messages: what each encoder writes the decoder reads
  back, what the decoders accept is accepted again when it is written, and the URI of a file
  designator is parsed to it.
\<close>

unbundle bit_operations_syntax

section \<open>Reading what was written\<close>

named_theorems rd_simps \<open>the reader on written fields\<close>

text \<open>A reader that has consumed \<open>pre\<close> and has \<open>xs\<close> before it.\<close>

definition rd_at :: "bytes \<Rightarrow> bytes \<Rightarrow> bdx_reader" where
  "rd_at pre xs = \<lparr>rd_b = pre @ xs, rd_off = length pre, rd_err = False\<rparr>"

lemma rd_new_at [rd_simps]: "rd_new b = rd_at [] b"
  by (simp add: rd_new_def rd_at_def)

lemma rd_take_at: "length c = n \<Longrightarrow> rd_take n (rd_at pre (c @ xs)) = (Some c, rd_at (pre @ c) xs)"
  by (simp add: rd_take_def rd_at_def)

lemma rd_at_err [rd_simps]: "\<not> rd_err (rd_at pre xs)"
  by (simp add: rd_at_def)

lemma rd_u8_at [rd_simps]: "rd_u8 (rd_at pre (x # xs)) = (x, rd_at (pre @ [x]) xs)"
  using rd_take_at [of "[x]" 1 pre xs] by (simp add: rd_u8_def)

lemma rd_u16_at [rd_simps]: "rd_u16 (rd_at pre (put_u16 v @ xs)) = (v, rd_at (pre @ put_u16 v) xs)"
  by (simp add: rd_u16_def rd_take_at) (simp add: put_u16_def word_of_nat_le_value)

lemma rd_u32_at [rd_simps]: "rd_u32 (rd_at pre (put_u32 v @ xs)) = (v, rd_at (pre @ put_u32 v) xs)"
  by (simp add: rd_u32_def rd_take_at) (simp add: put_u32_def word_of_nat_le_value)

lemma rd_u64_at [rd_simps]: "rd_u64 (rd_at pre (put_u64 v @ xs)) = (v, rd_at (pre @ put_u64 v) xs)"
  by (simp add: rd_u64_def rd_take_at) (simp add: put_u64_def word_of_nat_le_value)

lemma rd_at_Nil [rd_simps]:
  "rd_u16 (rd_at pre (put_u16 v)) = (v, rd_at (pre @ put_u16 v) [])"
  "rd_u32 (rd_at pre (put_u32 x)) = (x, rd_at (pre @ put_u32 x) [])"
  "rd_u64 (rd_at pre (put_u64 y)) = (y, rd_at (pre @ put_u64 y) [])"
  using rd_u16_at [of pre v "[]"] rd_u32_at [of pre x "[]"] rd_u64_at [of pre y "[]"] by simp_all

lemma rd_bytes_at [rd_simps]: "length c = n \<Longrightarrow> rd_bytes n (rd_at pre (c @ xs)) = (c, rd_at (pre @ c) xs)"
  by (simp add: rd_bytes_def rd_take_at)

lemma rd_rest_at [rd_simps]: "rd_rest (rd_at pre xs) = xs"
  by (auto simp: rd_rest_def rd_at_def)

text \<open>The bytes of a range field, and the value that is read from them.\<close>

definition range_bytes :: "bool \<Rightarrow> u64 \<Rightarrow> bytes" where
  "range_bytes wide v = appendRange [] v wide"

definition in_range :: "bool \<Rightarrow> u64 \<Rightarrow> u64" where
  "in_range wide v = (if wide then v else v AND 0xFFFFFFFF)"

lemma appendRange_eq: "appendRange out v wide = out @ range_bytes wide v"
  by (simp add: range_bytes_def appendRange_def)

lemma ucast_u32: "(ucast (ucast (v :: u64) :: u32) :: u64) = v AND 0xFFFFFFFF"
proof -
  have "(0xFFFFFFFF :: u64) = mask 32" by (simp add: mask_eq_exp_minus_1)
  then show ?thesis by (simp add: unsigned_ucast_eq take_bit_eq_mask)
qed

lemma rangeValue_at [rd_simps]:
  "rangeValue wide (rd_at pre (range_bytes wide v @ xs)) = (in_range wide v, rd_at (pre @ range_bytes wide v) xs)"
  by (simp add: rangeValue_def range_bytes_def appendRange_def in_range_def rd_simps ucast_u32)

section \<open>Control octets\<close>

lemma and_bit_ne: "(b :: byte) AND 0x01 \<noteq> 0 \<longleftrightarrow> bit b 0" "b AND 0x02 \<noteq> 0 \<longleftrightarrow> bit b 1"
  "b AND 0x10 \<noteq> 0 \<longleftrightarrow> bit b 4" "b AND 0x20 \<noteq> 0 \<longleftrightarrow> bit b 5" "b AND 0x40 \<noteq> 0 \<longleftrightarrow> bit b 6"
  by (simp_all add: byte_bits)

lemma decodeRangeControl_encode [rd_simps]: "decodeRangeControl (encodeRangeControl r) = r"
  by (cases r) (simp add: decodeRangeControl_def encodeRangeControl_def and_bit_ne bit_or_iff)

lemma decodeTransferControl_encode:
  "decodeTransferControl (encodeTransferControl c) = c\<lparr>tc_Version := tc_Version c AND 0x0F\<rparr>"
  by (cases c) (auto simp: decodeTransferControl_def encodeTransferControl_def Let_def and_bit_ne byte_bits)

lemma decodeTransferControl_version [rd_simps]:
  "tc_Version c = 0 \<Longrightarrow> decodeTransferControl (encodeTransferControl c) = c"
  by (simp add: decodeTransferControl_encode)

section \<open>Init and accept messages\<close>

text \<open>
  The message the peer sees: a field of 32 bits keeps the low half of its value, and a length
  of which nothing is left is indefinite.
\<close>

definition length_as_sent :: "bool \<Rightarrow> u64 option \<Rightarrow> u64 option" where
  "length_as_sent wide l = (case l of
       None \<Rightarrow> None
     | Some v \<Rightarrow> if v = 0 \<or> in_range wide v = 0 then None else Some (in_range wide v))"

definition init_as_sent :: "init \<Rightarrow> init" where
  "init_as_sent m = m\<lparr>in_StartOffset := map_option (in_range (in_WideRange m)) (in_StartOffset m),
     in_MaxLength := length_as_sent (in_WideRange m) (in_MaxLength m)\<rparr>"

definition receive_accept_as_sent :: "receive_accept \<Rightarrow> receive_accept" where
  "receive_accept_as_sent m = m\<lparr>ra_Length := length_as_sent (ra_WideRange m) (ra_Length m)\<rparr>"

lemma Init_Validate_iff:
  "Init_Validate m = Inr x \<longleftrightarrow> tc_Version (in_TransferControl m) = 0
     \<and> (tc_SenderDrive (in_TransferControl m) \<or> tc_ReceiverDrive (in_TransferControl m))
     \<and> in_FileDesignator m \<noteq> [] \<and> length (in_FileDesignator m) \<le> 0xFFFF \<and> in_MaxBlockSize m \<noteq> 0"
  by (auto simp: Init_Validate_def newError_def word_less_1)

lemma validateAccept_iff:
  "validateAccept tc n = Inr x \<longleftrightarrow> tc_Version tc = 0
     \<and> (tc_SenderDrive tc \<or> tc_ReceiverDrive tc \<or> tc_AsynchronousTransfer tc) \<and> n \<noteq> 0"
  by (auto simp: validateAccept_def newError_def word_less_1)

definition offset_bytes :: "bool \<Rightarrow> u64 option \<Rightarrow> bytes" where
  "offset_bytes wide l = (case l of None \<Rightarrow> [] | Some v \<Rightarrow> range_bytes wide v)"

definition length_bytes :: "bool \<Rightarrow> u64 option \<Rightarrow> bytes" where
  "length_bytes wide l = (if definite l then range_bytes wide (the l) else [])"

lemma Init_Encode_iff:
  "Init_Encode m = Inr b \<longleftrightarrow> (\<exists>x. Init_Validate m = Inr x) \<and>
     b = encodeTransferControl (in_TransferControl m)
       # encodeRangeControl \<lparr>rc_definiteLength = definite (in_MaxLength m),
               rc_startOffset = (in_StartOffset m \<noteq> None), rc_wideRange = in_WideRange m\<rparr>
       # put_u16 (in_MaxBlockSize m) @ offset_bytes (in_WideRange m) (in_StartOffset m)
         @ length_bytes (in_WideRange m) (in_MaxLength m)
         @ put_u16 (word_of_nat (length (in_FileDesignator m))) @ in_FileDesignator m @ in_MetaData m"
  by (cases "Init_Validate m")
    (auto simp: Init_Encode_def Let_def appendRange_eq offset_bytes_def length_bytes_def definite_def
      split: option.splits)

lemma read_offset_at [rd_simps]:
  "read_offset \<lparr>rc_definiteLength = d, rc_startOffset = (ofs \<noteq> None), rc_wideRange = wide\<rparr>
     (rd_at pre (offset_bytes wide ofs @ xs))
   = (map_option (in_range wide) ofs, rd_at (pre @ offset_bytes wide ofs) xs)"
  by (cases ofs) (simp_all add: read_offset_def offset_bytes_def rd_simps)

lemma read_length_at [rd_simps]:
  "read_length \<lparr>rc_definiteLength = definite l, rc_startOffset = s, rc_wideRange = wide\<rparr>
     (rd_at pre (length_bytes wide l @ xs))
   = (length_as_sent wide l, rd_at (pre @ length_bytes wide l) xs)"
  by (cases l) (simp_all add: read_length_def definite_def length_bytes_def length_as_sent_def rd_simps in_range_def)

lemma DecodeInit_Encode:
  assumes "Init_Encode m = Inr b"
  shows "DecodeInit b = Inr (init_as_sent m)"
proof -
  obtain x where v: "Init_Validate m = Inr x" and b: "b = encodeTransferControl (in_TransferControl m)
       # encodeRangeControl \<lparr>rc_definiteLength = definite (in_MaxLength m),
               rc_startOffset = (in_StartOffset m \<noteq> None), rc_wideRange = in_WideRange m\<rparr>
       # put_u16 (in_MaxBlockSize m) @ offset_bytes (in_WideRange m) (in_StartOffset m)
         @ length_bytes (in_WideRange m) (in_MaxLength m)
         @ put_u16 (word_of_nat (length (in_FileDesignator m))) @ in_FileDesignator m @ in_MetaData m"
    using assms unfolding Init_Encode_iff by blast
  have n: "unat (word_of_nat (length (in_FileDesignator m)) :: u16) = length (in_FileDesignator m)"
    using v by (simp add: Init_Validate_iff unat_of_nat)
  have "Init_Validate (init_as_sent m) = Inr x" using v by (simp add: Init_Validate_iff init_as_sent_def)
  moreover have "tc_Version (in_TransferControl m) = 0" using v by (simp add: Init_Validate_iff)
  ultimately show ?thesis
    unfolding b DecodeInit_def
    by (simp add: rd_simps n Let_def del: not_None_eq) (cases m, simp add: init_as_sent_def)
qed

lemma DecodeSendAccept_Encode:
  assumes "SendAccept_Encode m = Inr b"
  shows "DecodeSendAccept b = Inr m"
proof -
  obtain x where v: "validateAccept (sa_TransferControl m) (sa_MaxBlockSize m) = Inr x"
    and b: "b = encodeTransferControl (sa_TransferControl m) # put_u16 (sa_MaxBlockSize m) @ sa_MetaData m"
    using assms by (auto simp: SendAccept_Encode_def and_then_Inr_iff)
  have "tc_Version (sa_TransferControl m) = 0" using v by (simp add: validateAccept_iff)
  with v show ?thesis unfolding b DecodeSendAccept_def by (simp add: rd_simps)
qed

lemma ReceiveAccept_Encode_iff:
  "ReceiveAccept_Encode m = Inr b \<longleftrightarrow>
     (\<exists>x. validateAccept (ra_TransferControl m) (ra_MaxBlockSize m) = Inr x) \<and>
     b = encodeTransferControl (ra_TransferControl m)
       # encodeRangeControl \<lparr>rc_definiteLength = definite (ra_Length m), rc_startOffset = False,
            rc_wideRange = ra_WideRange m\<rparr>
       # put_u16 (ra_MaxBlockSize m) @ length_bytes (ra_WideRange m) (ra_Length m) @ ra_MetaData m"
  by (cases "validateAccept (ra_TransferControl m) (ra_MaxBlockSize m)")
    (auto simp: ReceiveAccept_Encode_def Let_def appendRange_eq length_bytes_def definite_def
      split: option.splits)

lemma DecodeReceiveAccept_Encode:
  assumes "ReceiveAccept_Encode m = Inr b"
  shows "DecodeReceiveAccept b = Inr (receive_accept_as_sent m)"
proof -
  obtain x where v: "validateAccept (ra_TransferControl m) (ra_MaxBlockSize m) = Inr x"
    and b: "b = encodeTransferControl (ra_TransferControl m)
       # encodeRangeControl \<lparr>rc_definiteLength = definite (ra_Length m), rc_startOffset = False,
            rc_wideRange = ra_WideRange m\<rparr>
       # put_u16 (ra_MaxBlockSize m) @ length_bytes (ra_WideRange m) (ra_Length m) @ ra_MetaData m"
    using assms unfolding ReceiveAccept_Encode_iff by blast
  have "tc_Version (ra_TransferControl m) = 0" using v by (simp add: validateAccept_iff)
  with v show ?thesis
    unfolding b DecodeReceiveAccept_def by (simp add: rd_simps Let_def) (simp add: receive_accept_as_sent_def)
qed

section \<open>Block messages and status reports\<close>

lemma DecodeBlock_Encode [rd_simps]: "DecodeBlock (Block_Encode m) = Inr m"
  by (simp add: DecodeBlock_def Block_Encode_def rd_simps)

lemma DecodeCounterOnly_Encode [rd_simps]: "DecodeCounterOnly (CounterOnly_Encode m) = Inr m"
  by (simp add: DecodeCounterOnly_def CounterOnly_Encode_def rd_simps)

lemma DecodeBlockQueryWithSkip_Encode [rd_simps]:
  "DecodeBlockQueryWithSkip (BlockQueryWithSkip_Encode m) = Inr m"
  by (simp add: DecodeBlockQueryWithSkip_def BlockQueryWithSkip_Encode_def rd_simps)

lemma bdx_DecodeStatusReport_Encode [rd_simps]:
  "bdx_DecodeStatusReport (bdx_EncodeStatusReport g c) =
     Inr \<lparr>sr_GeneralStatus = g, sr_ProtocolID = BdxProtocolID, sr_VendorID = 0, sr_ProtocolStatus = c\<rparr>"
  by (simp add: bdx_DecodeStatusReport_def bdx_EncodeStatusReport_def rd_simps)

text \<open>A block payload is exactly a counter and the data.\<close>

lemma DecodeBlock_iff: "DecodeBlock b = Inr m \<longleftrightarrow> b = Block_Encode m"
proof
  assume d: "DecodeBlock b = Inr m"
  have "4 \<le> length b"
    using d by (auto simp: DecodeBlock_def rd_u32_def rd_take_def rd_new_def split: if_splits)
  then obtain c where "take 4 b = put_u32 c"
    using u32.get_long [of b] by metis
  then have "b = Block_Encode \<lparr>b_BlockCounter = c, b_Data = drop 4 b\<rparr>"
    by (simp add: Block_Encode_def) (metis append_take_drop_id)
  then show "b = Block_Encode m" using d DecodeBlock_Encode by (metis Inr_inject)
qed (simp add: rd_simps)

section \<open>Writing what was read\<close>

lemma rangeValue_in_range:
  assumes "rangeValue wide r = (v, r')"
  shows "in_range wide v = v"
proof (cases wide)
  case False
  then obtain x :: u32 where v: "v = ucast x"
    using assms by (auto simp: rangeValue_def split: prod.splits)
  have "unat x < 2 ^ LENGTH(64)" using unat_bounds(3) [of x] by simp
  then have "(ucast (ucast x :: u64) :: u32) = x" by (rule ucast_ucast_id)
  with False show ?thesis by (simp add: in_range_def ucast_u32 [symmetric] v)
qed (simp add: in_range_def)

lemma read_offset_in_range:
  "read_offset rc r = (l, r') \<Longrightarrow> map_option (in_range (rc_wideRange rc)) l = l"
  by (auto simp: read_offset_def rangeValue_in_range split: prod.splits if_splits)

lemma read_length_in_range:
  "read_length rc r = (l, r') \<Longrightarrow> length_as_sent (rc_wideRange rc) l = l"
  by (auto simp: read_length_def length_as_sent_def rangeValue_in_range split: prod.splits if_splits)

text \<open>The lengths and offsets of a decoded message fit the width it announces.\<close>

lemma DecodeInit_as_sent:
  assumes "DecodeInit b = Inr m"
  shows "init_as_sent m = m" and "Init_Validate m = Inr ()"
proof -
  show "init_as_sent m = m"
    using assms unfolding DecodeInit_def
    by (auto simp: Let_def and_then_Inr_iff init_as_sent_def
        dest: read_offset_in_range read_length_in_range split: prod.splits if_splits)
  show "Init_Validate m = Inr ()"
    using assms unfolding DecodeInit_def
    by (auto simp: Let_def and_then_Inr_iff split: prod.splits if_splits)
qed

lemma DecodeReceiveAccept_as_sent:
  assumes "DecodeReceiveAccept b = Inr m"
  shows "receive_accept_as_sent m = m"
    and "validateAccept (ra_TransferControl m) (ra_MaxBlockSize m) = Inr ()"
proof -
  show "receive_accept_as_sent m = m"
    using assms unfolding DecodeReceiveAccept_def
    by (auto simp: Let_def and_then_Inr_iff receive_accept_as_sent_def
        dest: read_length_in_range split: prod.splits if_splits)
  show "validateAccept (ra_TransferControl m) (ra_MaxBlockSize m) = Inr ()"
    using assms unfolding DecodeReceiveAccept_def
    by (auto simp: Let_def and_then_Inr_iff split: prod.splits if_splits)
qed

lemma DecodeInit_reencodes:
  assumes "DecodeInit b = Inr m"
  shows "\<exists>b'. Init_Encode m = Inr b' \<and> DecodeInit b' = Inr m"
proof -
  have "\<exists>b'. Init_Encode m = Inr b'"
    using DecodeInit_as_sent(2) [OF assms] by (simp add: Init_Encode_iff)
  then show ?thesis using DecodeInit_Encode DecodeInit_as_sent(1) [OF assms] by metis
qed

lemma DecodeReceiveAccept_reencodes:
  assumes "DecodeReceiveAccept b = Inr m"
  shows "\<exists>b'. ReceiveAccept_Encode m = Inr b' \<and> DecodeReceiveAccept b' = Inr m"
proof -
  have "\<exists>b'. ReceiveAccept_Encode m = Inr b'"
    using DecodeReceiveAccept_as_sent(2) [OF assms] by (simp add: ReceiveAccept_Encode_iff)
  then show ?thesis using DecodeReceiveAccept_Encode DecodeReceiveAccept_as_sent(1) [OF assms] by metis
qed

section \<open>Designators and their URIs\<close>

lemma less_16_cases: "d < 16 \<longleftrightarrow> d \<in> {0 :: nat, 1, 2, 3, 4, 5, 6, 7, 8, 9, 10, 11, 12, 13, 14, 15}"
  by (simp add: lessThan_iff [symmetric] lessThan_nat_numeral lessThan_Suc del: lessThan_iff) blast

lemma hex_digit_upper: "d < 16 \<Longrightarrow> upper_hex_digit (hex_digit True d) \<and> hex_digit_value (hex_digit True d) = d"
  by (auto simp: less_16_cases hex_digit_def upper_hex_digit_def hex_digit_value_def)

lemma hex_digit_non_space: "d < 16 \<Longrightarrow> non_space (hex_digit False d)"
  by (auto simp: less_16_cases hex_digit_def non_space_def)

lemma text_byte_non_space: "text_byte b \<Longrightarrow> non_space b"
  by (auto simp: text_byte_def non_space_def)

lemma designator_Text_non_space: "list_all non_space (designator_Text fd)"
proof -
  have "unat (b :: byte) div 16 < 16" for b using unat_bounds(1) [of b] by simp
  then show ?thesis
    by (auto simp: designator_Text_def list_all_iff text_byte_non_space hex_EncodeToString_def
        hex_digit_non_space ascii_def) (simp_all add: non_space_def)
qed

lemma designator_Text_Nil_iff: "designator_Text fd = [] \<longleftrightarrow> fd = []"
  by (auto simp: designator_Text_def ascii_def)

lemma length_upper_hex: "length (upper_hex n v) = n"
  by (induction n arbitrary: v) simp_all

lemma upper_hex_digits: "list_all upper_hex_digit (upper_hex n v)"
  by (induction n arbitrary: v) (simp_all add: hex_digit_upper)

lemma upper_hex_value: "foldl (\<lambda>n b. 16 * n + hex_digit_value b) 0 (upper_hex n v) = v mod 16 ^ n"
proof (induction n arbitrary: v)
  case (Suc n)
  have "16 * (v div 16 mod 16 ^ n) + v mod 16 = v mod (16 * 16 ^ n)"
    by (simp add: mod_mult2_eq)
  with Suc show ?case by (simp add: hex_digit_upper)
qed simp

lemma ParseBdxURI_BdxURI:
  assumes "fd \<noteq> []"
  shows "ParseBdxURI (BdxURI fd node) = Some (designator_Text fd, node)"
proof -
  have l: "length (ascii ''bdx://'') = 6" "length (ascii ''/'') = 1" by (simp_all add: ascii_def)
  have d: "take 6 (BdxURI fd node) = ascii ''bdx://''"
    "take 16 (drop 6 (BdxURI fd node)) = upper_hex 16 (unat node)"
    "take 1 (drop 22 (BdxURI fd node)) = ascii ''/''" "drop 23 (BdxURI fd node) = designator_Text fd"
    by (simp_all add: BdxURI_def l length_upper_hex)
  have v: "unat node mod 18446744073709551616 = unat node" using unat_bounds(4) [of node] by simp
  show ?thesis
    unfolding ParseBdxURI_def Let_def d
    using assms by (simp add: length_upper_hex upper_hex_digits designator_Text_Nil_iff
        designator_Text_non_space upper_hex_value v)
qed

section \<open>Properties\<close>


definition sample_init :: init where
  "sample_init = \<lparr>in_TransferControl = \<lparr>tc_Version = 0, tc_SenderDrive = True, tc_ReceiverDrive = False,
       tc_AsynchronousTransfer = False\<rparr>, in_MaxBlockSize = 1024, in_StartOffset = Some 7,
     in_MaxLength = Some 0x100000000, in_WideRange = False, in_FileDesignator = [0x61], in_MetaData = []\<rparr>"


text \<open>
  C40. The URI of a non-empty file designator is parsed back to its text and its owner.
\<close>

theorem BdxURI_roundtrip:
  assumes "fd \<noteq> []"
  shows "ParseBdxURI (BdxURI fd node) = Some (designator_Text fd, node)"
  using assms by (rule ParseBdxURI_BdxURI)

theorem BdxURI_roundtrip_witness:
  "ParseBdxURI (BdxURI [0x6C, 0x20] 0xAB) = Some (ascii ''0x6c20'', 0xAB)"
proof -
  have "designator_Text [0x6C, 0x20] = ascii ''0x6c20''" by code_simp
  then show ?thesis using BdxURI_roundtrip [of "[0x6C, 0x20]" "0xAB"] by simp
qed

end
