(* ===== verification/Frame.thy ===== *)
theory Frame
  imports Prelude
begin

text \<open>
  State transformers that only move the state along a preorder: what every part of a sequence
  keeps, the sequence keeps. The locale \<open>frame\<close> states it once for any reflexive and
  transitive relation on states.
\<close>

named_theorems keeps_intros \<open>computations that keep a relation on states\<close>

locale frame =
  fixes R :: "'s \<Rightarrow> 's \<Rightarrow> bool"
  assumes refl: "R s s"
    and trans: "R s t \<Longrightarrow> R t u \<Longrightarrow> R s u"
begin

definition keeps :: "('s, 'e, 'a) reader \<Rightarrow> bool" where
  "keeps m \<longleftrightarrow> (\<forall>s. R s (snd (m s)))"

lemma keepsD: "keeps m \<Longrightarrow> m s = (r, t) \<Longrightarrow> R s t"
  by (metis keeps_def snd_conv)

lemma keepsI: "(\<And>s r t. m s = (r, t) \<Longrightarrow> R s t) \<Longrightarrow> keeps m"
  unfolding keeps_def by (metis prod.collapse)

lemma keeps_result: "keeps (\<lambda>s. (r s, s))"
  by (simp add: keeps_def refl)

lemma keeps_then:
  assumes "keeps m" and "\<And>x. keeps (f x)"
  shows "keeps (read_then m f)"
  unfolding keeps_def
proof
  fix s
  have 1: "R s (snd (m s))" using assms(1) by (simp add: keeps_def)
  show "R s (snd (read_then m f s))"
  proof (cases "m s")
    case (Pair r t)
    show ?thesis
    proof (cases r)
      case (Inl e)
      with Pair 1 show ?thesis by (simp add: read_then_def)
    next
      case (Inr x)
      have "R t (snd (f x t))" using assms(2) by (simp add: keeps_def)
      with Pair Inr 1 show ?thesis by (auto simp: read_then_def intro: trans)
    qed
  qed
qed

lemma keeps_if: "(b \<Longrightarrow> keeps m) \<Longrightarrow> (\<not> b \<Longrightarrow> keeps n) \<Longrightarrow> keeps (if b then m else n)"
  by simp

lemma keeps_split: "(\<And>a b. keeps (f a b)) \<Longrightarrow> keeps (case p of (a, b) \<Rightarrow> f a b)"
  by (cases p) simp

text \<open>A computation that depends on the state it starts from, after an update of it.\<close>

lemma keeps_update: "(\<And>s. R s (g s)) \<Longrightarrow> (\<And>c. keeps (m c)) \<Longrightarrow> keeps (\<lambda>s. m (h s) (g s))"
  unfolding keeps_def by (meson trans)

lemma keeps_after: "(\<And>s. R s (g s)) \<Longrightarrow> keeps m \<Longrightarrow> keeps (\<lambda>s. m (g s))"
  unfolding keeps_def by (meson trans)

end

text \<open>
  Computations that keep an invariant \<open>I\<close> and never end in a fault of the set \<open>bad\<close>.
\<close>

definition fine :: "'e fault set \<Rightarrow> ('s \<Rightarrow> bool) \<Rightarrow> ('s, 'e, 'a) reader \<Rightarrow> bool" where
  "fine bad I m \<longleftrightarrow> (\<forall>s. I s \<longrightarrow> I (snd (m s)) \<and> (\<forall>e. fst (m s) = Inl e \<longrightarrow> e \<notin> bad))"

lemma fineD: "fine bad I m \<Longrightarrow> I s \<Longrightarrow> m s = (r, t) \<Longrightarrow> I t \<and> (\<forall>e. r = Inl e \<longrightarrow> e \<notin> bad)"
  by (metis fine_def fst_conv snd_conv)

lemma fine_then:
  assumes "fine bad I m" and "\<And>x. fine bad I (f x)"
  shows "fine bad I (read_then m f)"
  unfolding fine_def
proof (intro allI impI)
  fix s
  assume "I s"
  obtain r t where m: "m s = (r, t)" by fastforce
  have 1: "I t \<and> (\<forall>e. r = Inl e \<longrightarrow> e \<notin> bad)" by (rule fineD [OF assms(1) \<open>I s\<close> m])
  show "I (snd (read_then m f s)) \<and> (\<forall>e. fst (read_then m f s) = Inl e \<longrightarrow> e \<notin> bad)"
  proof (cases r)
    case (Inl e)
    with m 1 show ?thesis by (simp add: read_then_def)
  next
    case (Inr x)
    with m 1 assms(2) show ?thesis by (simp add: read_then_def fine_def)
  qed
qed

lemma fine_if: "(b \<Longrightarrow> fine bad I m) \<Longrightarrow> (\<not> b \<Longrightarrow> fine bad I n) \<Longrightarrow> fine bad I (if b then m else n)"
  by simp

lemma fine_split: "(\<And>a b. fine bad I (f a b)) \<Longrightarrow> fine bad I (case p of (a, b) \<Rightarrow> f a b)"
  by (cases p) simp

lemma fine_update: "(\<And>s. I s \<Longrightarrow> I (g s)) \<Longrightarrow> (\<And>c. fine bad I (m c)) \<Longrightarrow> fine bad I (\<lambda>s. m (h s) (g s))"
  unfolding fine_def by blast

lemma fine_after: "(\<And>s. I s \<Longrightarrow> I (g s)) \<Longrightarrow> fine bad I m \<Longrightarrow> fine bad I (\<lambda>s. m (g s))"
  unfolding fine_def by blast

lemma fineI: "(\<And>s r t. I s \<Longrightarrow> m s = (r, t) \<Longrightarrow> I t \<and> (\<forall>e. r = Inl e \<longrightarrow> e \<notin> bad)) \<Longrightarrow> fine bad I m"
  unfolding fine_def by (metis prod.collapse)

lemma fine_result: "(\<And>s e. I s \<Longrightarrow> r s = Inl e \<Longrightarrow> e \<notin> bad) \<Longrightarrow> fine bad I (\<lambda>s. (r s, s))"
  by (simp add: fine_def)

end
