(* ===== verification/Bdx_Report.thy ===== *)
theory Bdx_Report
  imports Bdx_Serve Bdx_Roundtrip Frame
begin

text \<open>
  What every transfer does on every path: the messages a flow sends are messages of the bulk
  data protocol, until a failure with a status code is reported, once and last; no type
  assertion fails and nothing panics; and the loops of both flows end within one iteration per
  message of the peer.
\<close>

section \<open>Only the failure is reported\<close>

definition quiet :: "link \<Rightarrow> link \<Rightarrow> bool" where
  "quiet x x' \<longleftrightarrow> (\<exists>ms. x_sent x' = x_sent x @ ms \<and> list_all (\<lambda>m. w_ProtocolID m = BdxProtocolID) ms)"

lemma quiet_same: "x_sent x' = x_sent x \<Longrightarrow> quiet x x'"
  by (auto simp: quiet_def)

interpretation quiet: frame quiet
proof
  show "quiet x x" for x by (simp add: quiet_same)
  show "quiet x y \<Longrightarrow> quiet y z \<Longrightarrow> quiet x z" for x y z
    by (auto simp: quiet_def)
qed

interpretation quiet_in: frame "\<lambda>f f' :: 'k inbound. quiet (f_x f) (f_x f')"
  by unfold_locales (auto intro: quiet.refl quiet.trans)

interpretation quiet_out: frame "\<lambda>g g'. quiet (g_x g) (g_x g')"
  by unfold_locales (auto intro: quiet.refl quiet.trans)

lemmas quiet_then [keeps_intros] = quiet.keeps_then quiet_in.keeps_then quiet_out.keeps_then
  quiet.keeps_if quiet_in.keeps_if quiet_out.keeps_if
  quiet.keeps_split quiet_in.keeps_split quiet_out.keeps_split
  quiet_in.keeps_result quiet_out.keeps_result

lemma quiet_pure [keeps_intros]:
  "quiet.keeps (pure_go r)" "quiet_in.keeps (pure_go r')" "quiet_out.keeps (pure_go r'')"
  by (simp_all add: quiet.keeps_def quiet_in.keeps_def quiet_out.keeps_def pure_go_def quiet.refl)

lemma quiet_link [keeps_intros]:
  "quiet.keeps op \<Longrightarrow> quiet_in.keeps (f_link op)" "quiet.keeps op \<Longrightarrow> quiet_out.keeps (g_link op)"
  by (auto simp: quiet.keeps_def quiet_in.keeps_def quiet_out.keeps_def f_link_def g_link_def split: prod.splits)
    (metis snd_conv)+

lemma quiet_send [keeps_intros]: "quiet.keeps (m_send t p)"
  by (auto simp: quiet.keeps_def m_send_def ex_Send_def quiet_def)

lemma quiet_next [keeps_intros]: "quiet.keeps (bdx_Next ts)"
  by (auto simp: quiet.keeps_def bdx_Next_def quiet_same split: prod.splits)

lemmas messenger_defs = SendSendInit_def SendReceiveInit_def SendSendAccept_def SendReceiveAccept_def
  SendBlock_def SendBlockEOF_def SendBlockQuery_def SendBlockAck_def SendBlockAckEOF_def
  ReadBlock_def ReadBlockQuery_def ReadBlockAck_def ReadBlockAckEOF_def

lemma quiet_messenger [keeps_intros]:
  "quiet.keeps (SendSendInit i)" "quiet.keeps (SendReceiveInit i)" "quiet.keeps (SendSendAccept a)"
  "quiet.keeps (SendReceiveAccept b)" "quiet.keeps (SendBlock m)" "quiet.keeps (SendBlockEOF m)"
  "quiet.keeps (SendBlockQuery c)" "quiet.keeps (SendBlockAck c)" "quiet.keeps (SendBlockAckEOF c)"
  "quiet.keeps ReadBlock" "quiet.keeps ReadBlockQuery" "quiet.keeps ReadBlockAck" "quiet.keeps ReadBlockAckEOF"
  unfolding messenger_defs by (intro keeps_intros)+

lemma quiet_in_same: "(\<And>f. f_x (snd (m f)) = f_x f) \<Longrightarrow> quiet_in.keeps m"
  by (simp add: quiet_in.keeps_def quiet.refl)

lemma quiet_out_same: "(\<And>g. g_x (snd (m g)) = g_x g) \<Longrightarrow> quiet_out.keeps m"
  by (simp add: quiet_out.keeps_def quiet.refl)

lemma quiet_sink [keeps_intros]: "quiet_in.keeps (f_write ops d t)" "quiet_in.keeps (f_close ops b)"
  by (rule quiet_in_same, rule f_write_link) (rule quiet_in_same, simp add: f_close_def split: prod.splits)

lemma quiet_driving: "quiet_in.keeps (drivingNext ops)"
proof -
  have "quiet_in.keeps (\<lambda>f. if b_BlockCounter block \<noteq> c then (newError StatusBadBlockCounter, f)
      else f_write ops (b_Data block) t (f_count (b_Data block) f))" for c t block
    by (rule quiet_in_same) (simp add: f_write_link f_count_def)
  then have "quiet_in.keeps (read_then (f_link (SendBlockQuery c)) (\<lambda>_. read_then (f_link ReadBlock)
      (\<lambda>(t, block) f. if b_BlockCounter block \<noteq> c then (newError StatusBadBlockCounter, f)
        else f_write ops (b_Data block) t (f_count (b_Data block) f))))" for c
    by (intro keeps_intros)
  from quiet_in.keeps_update [where g = "\<lambda>f. f\<lparr>f_counter := next_counter (f_counter f)\<rparr>", OF _ this]
  show ?thesis
    unfolding drivingNext_def [abs_def] f_nextCounter_def Let_def split_conv by (simp add: quiet.refl)
qed

lemma quiet_in_following: "quiet_in.keeps (in_followingNext ops)"
proof -
  have k: "quiet_in.keeps (read_then (f_write ops (b_Data block) t) (\<lambda>done.
       if done then pure_go (Inr True)
       else read_then (f_link (SendBlockAck (b_BlockCounter block))) (\<lambda>_. pure_go (Inr False))))" for t block
    by (intro keeps_intros)
  have "quiet_in.keeps (\<lambda>f. let (want, f) = f_nextCounter f in
     if b_BlockCounter block \<noteq> want then (newError StatusBadBlockCounter, f)
     else read_then (f_write ops (b_Data block) t) (\<lambda>done.
       if done then pure_go (Inr True)
       else read_then (f_link (SendBlockAck (b_BlockCounter block))) (\<lambda>_. pure_go (Inr False)))
       (f_count (b_Data block) f))" for t block
    using k [of block t] unfolding quiet_in.keeps_def
    by (auto simp: f_nextCounter_def Let_def f_count_def quiet.refl
        dest: spec [of _ "(f :: 'k inbound)\<lparr>f_counter := next_counter (f_counter f), f_transferred := f_transferred f + word_of_nat (length (b_Data block))\<rparr>" for f])
  then show ?thesis unfolding in_followingNext_def by (intro keeps_intros)
qed

lemma quiet_in_step: "quiet_in.keeps (in_step ops isDriver)"
  by (simp add: in_step_def quiet_driving quiet_in_following)

lemma quiet_in_blocks [keeps_intros]:
  fixes ops :: "'k sink_ops"
  shows "quiet_in.keeps (in_blocks ops isDriver)"
proof (rule quiet_in.keepsI)
  show "in_blocks ops isDriver f = (r, f') \<Longrightarrow> quiet (f_x f) (f_x f')" for f :: "'k inbound" and r f'
  proof (induction "length (x_inbox (f_x f))" arbitrary: f rule: less_induct)
    case less
    obtain s g where g: "in_step ops isDriver f = (s, g)" by fastforce
    have q: "quiet (f_x f) (f_x g)" by (rule quiet_in.keepsD [OF quiet_in_step g])
    show ?case
    proof (cases "s = Inr False")
      case True
      with g less.prems have "in_blocks ops isDriver (f_emit g) = (r, f')"
        by (simp add: in_blocks.simps [of ops isDriver f])
      moreover have e: "f_x (f_emit g) = f_x g" by (simp add: f_emit_def)
      ultimately have "quiet (f_x g) (f_x f')"
        using less.hyps [of "f_emit g"] in_step_consumes [of ops isDriver f False g] g True by simp
      with q show ?thesis by (rule quiet.trans)
    next
      case False
      with g less.prems q show ?thesis
        by (auto simp: in_blocks.simps [of ops isDriver f] split: sum.splits if_splits)
    qed
  qed
qed

lemma quiet_emit: "quiet (f_x f) (f_x (f_emit f))" "quiet (g_x g) (g_x (g_emit g))"
  by (simp_all add: f_emit_def g_emit_def quiet.refl)

lemma quiet_in_process [keeps_intros]:
  fixes ops :: "'k sink_ops"
  shows "quiet_in.keeps (in_process ops isDriver)"
proof -
  have fin: "quiet_in.keeps (\<lambda>f :: 'k inbound. (Inr (), f_finish f))"
    by (rule quiet_in_same) (simp add: f_finish_def)
  have ack: "quiet_in.keeps (\<lambda>f :: 'k inbound. read_then (f_link (SendBlockAckEOF (word_of_int (f_counter f))))
      (\<lambda>_ f. (Inr (), f_finish f)) f)"
    by (rule quiet_in.keeps_update [where g = "\<lambda>f. f"]) (auto intro!: keeps_intros fin simp: quiet.refl)
  have close: "quiet_in.keeps (\<lambda>f. read_then (f_close ops True) (\<lambda>_ f.
      read_then (f_link (SendBlockAckEOF (word_of_int (f_counter f)))) (\<lambda>_ f. (Inr (), f_finish f)) f) (f_emit f))"
    by (rule quiet_in.keeps_after [OF quiet_emit(1)]) (intro keeps_intros ack)
  show ?thesis
    unfolding in_process_def [abs_def]
    by (rule quiet_in.keeps_after [OF quiet_emit(1)]) (intro keeps_intros close)
qed

lemma quiet_in_run: "quiet_in.keeps (in_run ops modes opts)"
proof -
  have s: "quiet_in.keeps (in_settle a)" for a
    by (rule quiet_in_same) (simp add: in_settle_def setDataLength_def Let_def split: option.splits)
  show ?thesis unfolding in_run_def [abs_def] by (intro keeps_intros s)
qed

lemma quiet_negotiateReceiver: "quiet_in.keeps (negotiateReceiver modes opts)"
  unfolding negotiateReceiver_def by (intro keeps_intros)

lemma quiet_stream [keeps_intros]: "quiet_out.keeps (g_stream op)" "quiet_out.keeps readDataChunk"
  by (rule quiet_out_same, simp add: g_stream_def split: prod.splits) (rule quiet_out_same, rule readDataChunk_link)

lemma quiet_sendBlockEOF [keeps_intros]: "quiet_out.keeps (sendBlockEOF b)"
proof (rule quiet_out.keepsI)
  fix g r g'
  assume "sendBlockEOF b g = (r, g')"
  then have "g' = g \<or> g' = snd (g_link (SendBlockEOF b) g)"
    by (auto simp: sendBlockEOF_def split: if_splits prod.splits sum.splits)
  moreover have "quiet (g_x g) (g_x (snd (g_link (SendBlockEOF b) g)))"
    using quiet_link(2) [OF quiet_messenger(6)] by (simp add: quiet_out.keeps_def)
  ultimately show "quiet (g_x g) (g_x g')" by (auto simp: quiet.refl)
qed

lemma quiet_send_chunk [keeps_intros]: "quiet_out.keeps after \<Longrightarrow> quiet_out.keeps (send_chunk c after)"
proof -
  assume a: "quiet_out.keeps after"
  have "quiet_out.keeps (\<lambda>g. (Inr True, (g_count n g)\<lparr>g_finalCounter := c\<rparr>))" for n
    by (rule quiet_out_same) (simp add: g_count_def)
  moreover have "quiet_out.keeps (\<lambda>g. after (g_count n g))" for n
    by (rule quiet_out.keeps_after [where g = "g_count n"]) (simp_all add: a g_count_def quiet.refl)
  ultimately show ?thesis unfolding send_chunk_def by (intro keeps_intros)
qed

lemma quiet_driven: "quiet_out.keeps drivenNext"
  unfolding drivenNext_def [abs_def] g_nextCounter_def Let_def split_conv
  by (rule quiet_out.keeps_update) (auto intro!: keeps_intros simp: quiet.refl)

lemma quiet_out_following: "quiet_out.keeps out_followingNext"
proof -
  have c: "quiet_out.keeps (\<lambda>g. (Inr (), g_count n g))" for n
    by (rule quiet_out_same) (simp add: g_count_def)
  have "quiet_out.keeps (\<lambda>g. let counter = counterOf v; (want, g) = g_nextCounter g in
     read_then (pure_go (validateCounter counter want)) (\<lambda>_.
     read_then (if skip > 0
         then read_then (g_stream (skip_bytes (unat skip))) (\<lambda>_ g. (Inr (), g_count (unat skip) g))
         else pure_go (Inr ())) (\<lambda>_.
     send_chunk counter (pure_go (Inr False)))) g)" for v and skip :: u64
    unfolding g_nextCounter_def Let_def split_conv
    by (rule quiet_out.keeps_update) (auto intro!: keeps_intros c simp: quiet.refl)
  then show ?thesis unfolding out_followingNext_def by (intro keeps_intros)
qed

lemma quiet_out_blocks [keeps_intros]: "quiet_out.keeps (out_blocks isDriver)"
proof (rule quiet_out.keepsI)
  show "out_blocks isDriver g = (r, g') \<Longrightarrow> quiet (g_x g) (g_x g')" for g r g'
  proof (induction "length (x_inbox (g_x g))" arbitrary: g rule: less_induct)
    case less
    obtain s h where h: "out_step isDriver g = (s, h)" by fastforce
    have q: "quiet (g_x g) (g_x h)"
      using h quiet_out.keepsD [OF quiet_driven] quiet_out.keepsD [OF quiet_out_following]
      by (auto simp: out_step_def split: if_splits)
    show ?case
    proof (cases "s = Inr False")
      case True
      with h less.prems have "out_blocks isDriver (g_emit h) = (r, g')"
        by (simp add: out_blocks.simps [of isDriver g])
      moreover have "g_x (g_emit h) = g_x h" by (simp add: g_emit_def)
      ultimately have "quiet (g_x h) (g_x g')"
        using less.hyps [of "g_emit h"] out_step_consumes [of isDriver g h] h True by simp
      with q show ?thesis by (rule quiet.trans)
    next
      case False
      with h less.prems q show ?thesis
        by (auto simp: out_blocks.simps [of isDriver g] split: sum.splits if_splits)
    qed
  qed
qed

lemma quiet_out_process [keeps_intros]: "quiet_out.keeps (out_process isDriver)"
proof -
  have "quiet_out.keeps (\<lambda>g. case g_link ReadBlockAckEOF (g_emit g) of
       (Inl e, g) \<Rightarrow> if x_disabled (g_x g) then (Inr (), g_finish g) else (Inl e, g)
     | (Inr ack, g) \<Rightarrow>
         read_then (pure_go (validateCounter (co_BlockCounter ack) (g_finalCounter g)))
           (\<lambda>_ g. (Inr (), g_finish g)) g)"
  proof (rule quiet_out.keepsI)
    fix g r g'
    assume a: "(case g_link ReadBlockAckEOF (g_emit g) of
         (Inl e, g) \<Rightarrow> if x_disabled (g_x g) then (Inr (), g_finish g) else (Inl e, g)
       | (Inr ack, g) \<Rightarrow>
           read_then (pure_go (validateCounter (co_BlockCounter ack) (g_finalCounter g)))
             (\<lambda>_ g. (Inr (), g_finish g)) g) = (r, g')"
    obtain s h where h: "g_link ReadBlockAckEOF (g_emit g) = (s, h)" by fastforce
    have "g_x g' = g_x h"
      using a h by (auto simp: read_then_def pure_go_def g_finish_def split: sum.splits if_splits)
    moreover have "quiet (g_x (g_emit g)) (g_x h)"
      by (rule quiet_out.keepsD [OF quiet_link(2) [OF quiet_messenger(13)] h])
    ultimately show "quiet (g_x g) (g_x g')" by (simp add: g_emit_def split: if_splits)
  qed
  note k = this
  show ?thesis
    unfolding out_process_def [abs_def]
    by (rule quiet_out.keeps_after [OF quiet_emit(2)], rule quiet_out.keeps_then, rule quiet_out_blocks, rule k)
qed

lemma quiet_startSend: "quiet_out.keeps (startSend modes opts)"
proof -
  have "quiet_out.keeps (\<lambda>g. if tc_AsynchronousTransfer (sa_TransferControl accept)
       then (newError StatusTransferMethodNotSupported, g)
     else let
         g = g\<lparr>g_blockSize := capBlockSizeToTransport (g_x g) (uint (sa_MaxBlockSize accept))\<rparr>;
         g = (case so_Length opts of None \<Rightarrow> g | Some l \<Rightarrow> if l \<noteq> 0 then negotiate l g else g)
       in (Inr (tc_SenderDrive (sa_TransferControl accept),
             \<lparr>res_Transferred = 0, res_Length = g_dataLength g,
              res_Mode = mode_of (sa_TransferControl accept), res_BlockSize = word_of_int (g_blockSize g),
              res_StartOffset = (case so_StartOffset opts of None \<Rightarrow> 0 | Some ofs \<Rightarrow> ofs)\<rparr>), g))" for accept
    by (rule quiet_out_same) (simp add: Let_def negotiate_def split: option.splits)
  then show ?thesis unfolding startSend_def by (intro keeps_intros)
qed

lemma quiet_negotiateSender: "quiet_out.keeps (negotiateSender modes opts)"
proof -
  have "quiet_out.keeps (\<lambda>g. let g = g\<lparr>g_blockSize := capBlockSizeToTransport (g_x g) (uint blockSize)\<rparr>;
           dataLength = (case length of None \<Rightarrow> size | Some l \<Rightarrow> uint l);
           g = (case length of None \<Rightarrow> g\<lparr>g_dataLength := Some (word_of_int size)\<rparr> | Some l \<Rightarrow> negotiate l g);
           g = g\<lparr>g_data := NewSectionReader blob (unat startOffset) (nat dataLength)\<rparr>
       in (Inr \<lparr>res_Transferred = 0, res_Length = g_dataLength g, res_Mode = mode_of tc,
                res_BlockSize = word_of_int (g_blockSize g), res_StartOffset = startOffset\<rparr>, g))"
    for blockSize :: u16 and length size blob startOffset tc
    by (rule quiet_out_same) (simp add: Let_def negotiate_def split: option.splits)
  then show ?thesis unfolding negotiateSender_def Let_def by (intro keeps_intros) (simp_all add: Let_def)
qed

text \<open>
  What a transfer that returned \<open>r\<close> has sent: messages of its protocol, and after them the
  report of its failure if that has a status code and the exchange still sends.
\<close>

definition report_msg :: "u16 \<Rightarrow> wire_message" where
  "report_msg code = \<lparr>w_ProtocolID = SecureChannelProtocolID, w_Opcode = OpcodeStatusReport,
     w_Payload = bdx_EncodeStatusReport GeneralFailure code\<rparr>"

definition report_of :: "(bdx_error, 'a) go \<Rightarrow> wire_message list" where
  "report_of r = (case r of Inl (Fail (BdxError code)) \<Rightarrow> [report_msg code] | _ \<Rightarrow> [])"

definition reported :: "(bdx_error, 'a) go \<Rightarrow> link \<Rightarrow> link \<Rightarrow> bool" where
  "reported r x x' \<longleftrightarrow> (\<exists>ms. list_all (\<lambda>m. w_ProtocolID m = BdxProtocolID) ms
     \<and> (x_sent x' = x_sent x @ ms @ report_of r \<or> x_sends x' = 0 \<and> x_sent x' = x_sent x @ ms))"

lemma reported_Inr: "quiet x x' \<Longrightarrow> reported (Inr v) x x'"
  by (auto simp: quiet_def reported_def report_of_def)

lemma SendError_reported:
  "quiet x y \<Longrightarrow> reported (Inl (Fail (BdxError c))) x (snd (SendError c y))"
  by (auto simp: quiet_def reported_def report_of_def SendError_def ex_Send_def report_msg_def)

lemma report_of_None: "AsError e = None \<Longrightarrow> report_of (Inl (Fail e)) = []"
  by (cases e) (simp_all add: AsError_def report_of_def)

lemma AsError_Some: "AsError e = Some c \<longleftrightarrow> e = BdxError c"
  by (cases e) (simp_all add: AsError_def)

lemma f_fail_reported:
  assumes "quiet x (f_x f)"
  shows "reported (Inl e) x (f_x (f_fail ops e f))"
proof (cases e)
  case (Fail b)
  show ?thesis
  proof (cases "AsError b")
    case None
    have "f_x (f_fail ops e f) = f_x f" by (simp add: f_fail_def Fail None f_close_def Let_def split: prod.splits)
    with assms report_of_None [OF None] Fail show ?thesis by (auto simp: quiet_def reported_def)
  next
    case (Some c)
    have "f_x (f_fail ops e f) = snd (SendError c (f_x f))"
      by (simp add: f_fail_def Fail Some f_close_def f_link_def Let_def split: prod.splits)
    with SendError_reported [OF assms] Fail Some show ?thesis by (simp add: AsError_Some)
  qed
next
  case Panic
  have "f_x (f_fail ops e f) = f_x f" by (simp add: f_fail_def Panic f_close_def Let_def split: prod.splits)
  with assms Panic show ?thesis by (auto simp: quiet_def reported_def report_of_def)
qed

lemma g_fail_reported:
  assumes "quiet x (g_x g)"
  shows "reported (Inl e) x (g_x (g_fail e g))"
proof (cases e)
  case (Fail b)
  show ?thesis
  proof (cases "AsError b")
    case None
    have "g_x (g_fail e g) = g_x g" by (simp add: g_fail_def Fail None Let_def)
    with assms report_of_None [OF None] Fail show ?thesis by (auto simp: quiet_def reported_def)
  next
    case (Some c)
    have "g_x (g_fail e g) = snd (SendError c (g_x g))"
      by (simp add: g_fail_def Fail Some g_link_def Let_def split: prod.splits)
    with SendError_reported [OF assms] Fail Some show ?thesis by (simp add: AsError_Some)
  qed
next
  case Panic
  have "g_x (g_fail e g) = g_x g" by (simp add: g_fail_def Panic Let_def)
  with assms Panic show ?thesis by (auto simp: quiet_def reported_def report_of_def)
qed

lemma report_of_type: "report_of (Inl e :: (bdx_error, 'a) go) = report_of (Inl e :: (bdx_error, 'b) go)"
  by (simp add: report_of_def)

lemma bdx_Receive_reported:
  assumes "bdx_Receive ops opts x = (r, Some f)"
  shows "reported r x (f_x f)"
proof -
  from assms obtain k where k: "ro_Sink opts = Some k" by (auto simp: bdx_Receive_def split: option.splits)
  obtain s g where g: "in_run ops (default_modes (ro_PreferredDriverModes opts)) opts
      (new_inbound x k (no_hooks\<lparr>h_progress := ro_Progress opts\<rparr>)) = (s, g)" by fastforce
  have q: "quiet x (f_x g)"
    using quiet_in.keepsD [OF quiet_in_run g] by (simp add: new_inbound_def)
  show ?thesis
    using assms g k f_fail_reported [OF q] reported_Inr [OF q]
    by (auto simp: bdx_Receive_def reported_def report_of_type split: sum.splits)
qed

lemma serveReceiver_reported:
  assumes "serveReceiver ops modes opts x = (r, Some f)"
  shows "reported r x (f_x f)"
proof -
  from assms obtain k where k: "sv_Sink opts = Some k" by (auto simp: serveReceiver_def split: option.splits)
  obtain s g where g: "negotiateReceiver modes opts (new_inbound x k no_hooks) = (s, g)" by fastforce
  have q: "quiet x (f_x g)"
    using quiet_in.keepsD [OF quiet_negotiateReceiver g] by (simp add: new_inbound_def)
  show ?thesis
  proof (cases s)
    case (Inl e)
    with assms g k f_fail_reported [OF q] show ?thesis
      by (auto simp: serveReceiver_def reported_def report_of_type)
  next
    case (Inr res)
    obtain t h where h: "in_process ops (res_Mode res = ReceiverDrive) (g\<lparr>f_hooks := sv_hooks opts\<rparr>) = (t, h)" by fastforce
    have q': "quiet x (f_x h)"
      using quiet.trans [OF q] quiet_in.keepsD [OF quiet_in_process h] by simp
    show ?thesis
      using assms g k Inr h f_fail_reported [OF q'] reported_Inr [OF q']
      by (auto simp: serveReceiver_def reported_def report_of_type split: sum.splits)
  qed
qed

lemma serveSender_reported:
  assumes "serveSender modes opts x = (r, g)"
  shows "reported r x (g_x g)"
proof -
  obtain s h where h: "negotiateSender modes opts (new_outbound x \<lparr>st_rest = [], st_broken = False\<rparr>) = (s, h)" by fastforce
  have q: "quiet x (g_x h)"
    using quiet_out.keepsD [OF quiet_negotiateSender h] by (simp add: new_outbound_def)
  show ?thesis
  proof (cases s)
    case (Inl e)
    with assms h g_fail_reported [OF q] show ?thesis
      by (auto simp: serveSender_def reported_def report_of_type)
  next
    case (Inr res)
    obtain t k where k: "out_process (res_Mode res = SenderDrive) (h\<lparr>g_hooks := sv_hooks opts\<rparr>) = (t, k)" by fastforce
    have q': "quiet x (g_x k)"
      using quiet.trans [OF q] quiet_out.keepsD [OF quiet_out_process k] by simp
    show ?thesis
      using assms h Inr k g_fail_reported [OF q'] reported_Inr [OF q']
      by (auto simp: serveSender_def reported_def report_of_type split: sum.splits)
  qed
qed

lemma bdx_Send_reported:
  assumes "bdx_Send opts x = (r, Some g)"
  shows "reported r x (g_x g)"
proof -
  from assms obtain d where d: "so_Data opts = Some d"
    by (auto simp: bdx_Send_def StartSend_def split: option.splits)
  obtain s h where h: "startSend (default_modes (so_PreferredDriverModes opts)) opts (new_outbound x d) = (s, h)" by fastforce
  have q: "quiet x (g_x h)"
    using quiet_out.keepsD [OF quiet_startSend h] by (simp add: new_outbound_def)
  show ?thesis
  proof (cases s)
    case (Inl e)
    with assms h d g_fail_reported [OF q] show ?thesis
      by (auto simp: bdx_Send_def StartSend_def reported_def report_of_type)
  next
    case (Inr v)
    obtain isDriver res where v: "v = (isDriver, res)" by fastforce
    obtain t k where k: "out_process isDriver (h\<lparr>g_hooks := no_hooks\<lparr>h_progress := so_Progress opts\<rparr>\<rparr>) = (t, k)" by fastforce
    have q': "quiet x (g_x k)"
      using quiet.trans [OF q] quiet_out.keepsD [OF quiet_out_process k] by simp
    show ?thesis
      using assms h d Inr v k g_fail_reported [OF q'] reported_Inr [OF q']
      by (auto simp: bdx_Send_def StartSend_def Transfer_Run_def reported_def report_of_type split: sum.splits)
  qed
qed

section \<open>No panic, no failed type assertion\<close>

abbreviation wrong :: "bdx_error fault set" where
  "wrong \<equiv> {Panic, Fail BdxErrWrongType}"

text \<open>A call that never ends in a panic or a failed type assertion.\<close>

definition safe_go :: "(bdx_error, 'a) go \<Rightarrow> bool" where
  "safe_go r \<longleftrightarrow> r \<noteq> Inl Panic \<and> r \<noteq> Inl (Fail BdxErrWrongType)"

lemma safe_go_simps [simp]:
  "safe_go (Inr v)" "safe_go (newError c)" "safe_go (Inl (Fail e)) \<longleftrightarrow> e \<noteq> BdxErrWrongType" "\<not> safe_go (Inl Panic)"
  by (simp_all add: safe_go_def newError_def)

lemma safe_and_then: "safe_go m \<Longrightarrow> (\<And>x. m = Inr x \<Longrightarrow> safe_go (f x)) \<Longrightarrow> safe_go (and_then m f)"
  by (cases m) (simp_all add: safe_go_def)

lemma safe_codec:
  "safe_go (Init_Validate i)" "safe_go (validateAccept tc n)" "safe_go (Init_Encode i)" "safe_go (SendAccept_Encode a)"
  "safe_go (ReceiveAccept_Encode b)" "safe_go (DecodeInit p)" "safe_go (DecodeSendAccept p)" "safe_go (DecodeReceiveAccept p)"
  "safe_go (DecodeBlock p)" "safe_go (DecodeCounterOnly p)" "safe_go (DecodeBlockQueryWithSkip p)" "safe_go (bdx_DecodeStatusReport p)"
proof -
  show v: "safe_go (Init_Validate i)" "safe_go (validateAccept tc n)" for i tc n
    by (simp_all add: Init_Validate_def validateAccept_def)
  show "safe_go (Init_Encode i)" "safe_go (SendAccept_Encode a)" "safe_go (ReceiveAccept_Encode b)"
    "safe_go (DecodeInit p)" "safe_go (DecodeSendAccept p)" "safe_go (DecodeReceiveAccept p)"
    by (auto simp: Init_Encode_def SendAccept_Encode_def ReceiveAccept_Encode_def DecodeInit_def DecodeSendAccept_def
        DecodeReceiveAccept_def Let_def v split: prod.splits intro!: safe_and_then)
  show "safe_go (DecodeBlock p)" "safe_go (DecodeCounterOnly p)" "safe_go (DecodeBlockQueryWithSkip p)"
    "safe_go (bdx_DecodeStatusReport p)"
    by (auto simp: DecodeBlock_def DecodeCounterOnly_def DecodeBlockQueryWithSkip_def bdx_DecodeStatusReport_def Let_def
        split: prod.splits)
qed

lemma safe_Decode: "safe_go (bdx_Decode t p)"
  unfolding bdx_Decode_def by (auto intro!: safe_and_then simp: safe_codec)

lemma safe_statusReportError: "safe_go (statusReportError p)"
  unfolding statusReportError_def by (auto intro!: safe_and_then simp: safe_codec)

lemma safe_next_loop: "safe_go (fst (next_loop ts ms))"
  by (induction ts ms rule: next_loop.induct)
    (auto simp: Let_def safe_Decode safe_statusReportError intro!: safe_and_then)

text \<open>\<open>Next\<close> returns the Go type that its message type stands for.\<close>

lemma next_loop_type:
  "next_loop ts ms = (Inr (t, v), ms') \<Longrightarrow> t \<in> set ts \<and> (\<exists>p. bdx_Decode t p = Inr v)"
  by (induction ts ms rule: next_loop.induct) (auto simp: Let_def and_then_Inr_iff split: if_splits)

lemma bdx_Next_type:
  "bdx_Next ts x = (Inr (t, v), x') \<Longrightarrow> t \<in> set ts \<and> (\<exists>p. bdx_Decode t p = Inr v)"
  by (auto simp: bdx_Next_def split: prod.splits dest: next_loop_type)

lemma safe_Next: "safe_go (fst (bdx_Next ts x))"
  using safe_next_loop [of ts "x_inbox x"] by (auto simp: bdx_Next_def split: prod.splits)

named_theorems fine_intros \<open>computations without a panic or a failed assertion\<close>

abbreviation fine_link :: "(link, bdx_error, 'a) reader \<Rightarrow> bool" where
  "fine_link \<equiv> fine wrong (\<lambda>_. True)"

abbreviation fine_in :: "('k inbound, bdx_error, 'a) reader \<Rightarrow> bool" where
  "fine_in \<equiv> fine wrong (\<lambda>_. True)"

abbreviation fine_out :: "(outbound, bdx_error, 'a) reader \<Rightarrow> bool" where
  "fine_out \<equiv> fine wrong (\<lambda>g. 0 \<le> g_blockSize g)"

lemmas fine_rules [fine_intros] = fine_then fine_if fine_split

lemma fine_safe: "fine wrong (\<lambda>_. True) m \<longleftrightarrow> (\<forall>s. safe_go (fst (m s)))"
  by (auto simp: fine_def safe_go_def)

lemma fine_pure [fine_intros]: "safe_go r \<Longrightarrow> fine wrong I (pure_go r)"
  by (auto simp: fine_def pure_go_def safe_go_def)

lemma fine_send [fine_intros]: "fine_link (m_send t p)"
  by (simp add: fine_safe m_send_def ex_Send_def)

lemma fine_next [fine_intros]: "fine_link (bdx_Next ts)"
  by (simp add: fine_safe safe_Next)

text \<open>What follows \<open>Next\<close> may rely on the type of what it returned.\<close>

lemma fine_next_then:
  assumes "\<And>t v p. t \<in> set ts \<Longrightarrow> bdx_Decode t p = Inr v \<Longrightarrow> fine_link (f (t, v))"
  shows "fine_link (read_then (bdx_Next ts) f)"
  unfolding fine_safe
proof
  fix x
  obtain r y where n: "bdx_Next ts x = (r, y)" by fastforce
  show "safe_go (fst (read_then (bdx_Next ts) f x))"
  proof (cases r)
    case (Inl e)
    with safe_Next [of ts x] n show ?thesis by (simp add: read_then_def safe_go_def)
  next
    case (Inr tv)
    obtain t v where tv: "tv = (t, v)" by fastforce
    from bdx_Next_type [OF n [unfolded Inr tv]] assms have "fine_link (f (t, v))" by blast
    with n Inr tv show ?thesis by (simp add: read_then_def fine_safe)
  qed
qed

lemma fine_read_as:
  "fine_link (read_then (bdx_Next [MessageSendAccept]) (\<lambda>(_, v). pure_go (as_SendAccept v)))"
  "fine_link (read_then (bdx_Next [MessageReceiveAccept]) (\<lambda>(_, v). pure_go (as_ReceiveAccept v)))"
  "fine_link (read_then (bdx_Next [MessageBlockAck]) (\<lambda>(_, v). pure_go (as_CounterOnly v)))"
  "fine_link (read_then (bdx_Next [MessageBlockAckEOF]) (\<lambda>(_, v). pure_go (as_CounterOnly v)))"
  by (rule fine_next_then, auto intro!: fine_pure simp: bdx_Decode_def and_then_Inr_iff
      as_SendAccept_def as_ReceiveAccept_def as_CounterOnly_def)+

lemma fine_ReadBlock: "fine_link ReadBlock"
  unfolding ReadBlock_def
  by (rule fine_next_then) (auto intro!: fine_intros simp: bdx_Decode_def and_then_Inr_iff as_Block_def)

lemma fine_ReadBlockQuery: "fine_link ReadBlockQuery"
proof -
  have "fine_link (read_then (bdx_Next [MessageBlockQuery, MessageBlockQueryWithSkip]) (\<lambda>(t, v).
       pure_go (if counterOf v \<noteq> c then newError StatusBadBlockCounter else Inr (t, v))))" for c
    by (intro fine_intros) simp
  then show ?thesis
    unfolding ReadBlockQuery_def
    by (intro fine_next_then) (auto intro!: fine_if fine_pure fine_then [where m = "pure_go r" for r]
        simp: bdx_Decode_def and_then_Inr_iff as_CounterOnly_def)
qed

lemma fine_messenger [fine_intros]:
  "fine_link (SendSendInit i)" "fine_link (SendReceiveInit i)" "fine_link (SendSendAccept a)"
  "fine_link (SendReceiveAccept b)" "fine_link (SendBlock m)" "fine_link (SendBlockEOF m)"
  "fine_link (SendBlockQuery c)" "fine_link (SendBlockAck c)" "fine_link (SendBlockAckEOF c)"
  "fine_link ReadBlock" "fine_link ReadBlockQuery" "fine_link ReadBlockAck" "fine_link ReadBlockAckEOF"
proof -
  show "fine_link (SendSendAccept a)" "fine_link (SendReceiveAccept b)" "fine_link (SendBlock m)"
    "fine_link (SendBlockEOF m)" "fine_link (SendBlockQuery c)" "fine_link (SendBlockAck c)"
    "fine_link (SendBlockAckEOF c)"
    unfolding messenger_defs by (intro fine_intros safe_codec)+
  show "fine_link (SendSendInit i)" "fine_link (SendReceiveInit i)"
    unfolding messenger_defs
    by (rule fine_then fine_pure safe_codec fine_send fine_read_as)+
  show "fine_link ReadBlock" "fine_link ReadBlockQuery" by (rule fine_ReadBlock fine_ReadBlockQuery)+
  show "fine_link ReadBlockAck" "fine_link ReadBlockAckEOF" unfolding messenger_defs by (rule fine_read_as)+
qed

lemma fine_links [fine_intros]:
  "fine_link op \<Longrightarrow> fine_in (f_link op)" "fine_link op \<Longrightarrow> fine_out (g_link op)"
  by (auto simp: fine_def f_link_def g_link_def split: prod.splits) (metis fst_conv)+

text \<open>A sink that does not panic.\<close>

definition safe_sink :: "'k sink_ops \<Rightarrow> bool" where
  "safe_sink ops \<longleftrightarrow> (\<forall>d k. safe_go (fst (k_Write ops d k))) \<and> (\<forall>b k. safe_go (fst (k_Close ops b k)))"

lemma safe_FileSink: "safe_sink FileSink"
  by (auto simp: safe_sink_def FileSink_def FileSink_Write_def FileSink_Close_def CreateTemp_def pure_go_def
      read_then_def Let_def)

lemma fine_sink:
  assumes "safe_sink ops"
  shows "fine_in (f_write ops d t)" "fine_in (f_close ops b)"
proof -
  have "safe_go (fst (k_Write ops d k))" "safe_go (fst (k_Close ops b k))" for k
    using assms by (simp_all add: safe_sink_def)
  then show "fine_in (f_write ops d t)" "fine_in (f_close ops b)"
    unfolding fine_safe
    by (auto simp: f_write_def f_close_def Let_def safe_go_def newError_def split: prod.splits sum.splits option.splits)
      (metis fst_conv)+
qed

lemma fine_in_step:
  assumes "safe_sink ops"
  shows "fine_in (in_step ops isDriver)"
proof -
  note w = fine_sink [OF assms]
  have c: "fine_in (\<lambda>f. if b then (newError e, f) else f_write ops d t (f_count d f))" for b e d t
    using w(1) [of d t] by (simp add: fine_safe)
  have "fine_in (read_then (f_link (SendBlockQuery c)) (\<lambda>_. read_then (f_link ReadBlock)
      (\<lambda>(t, block) f. if b_BlockCounter block \<noteq> c then (newError StatusBadBlockCounter, f)
        else f_write ops (b_Data block) t (f_count (b_Data block) f))))" for c
    by (intro fine_intros c)
  then have 1: "fine_in (drivingNext ops)"
    by (simp add: fine_safe drivingNext_def f_nextCounter_def Let_def)
  have "fine_in (read_then (f_write ops (b_Data block) t) (\<lambda>done.
       if done then pure_go (Inr True)
       else read_then (f_link (SendBlockAck (b_BlockCounter block))) (\<lambda>_. pure_go (Inr False))))" for t block
    by (intro fine_intros w) simp_all
  then have "fine_in (\<lambda>f. let (want, f) = f_nextCounter f in
     if b_BlockCounter block \<noteq> want then (newError StatusBadBlockCounter, f)
     else read_then (f_write ops (b_Data block) t) (\<lambda>done.
       if done then pure_go (Inr True)
       else read_then (f_link (SendBlockAck (b_BlockCounter block))) (\<lambda>_. pure_go (Inr False)))
       (f_count (b_Data block) f))" for t block
    by (simp add: fine_safe f_nextCounter_def Let_def) blast
  then have 2: "fine_in (in_followingNext ops)" unfolding in_followingNext_def by (intro fine_intros)
  from 1 2 show ?thesis by (simp add: in_step_def)
qed

lemma fine_in_blocks:
  assumes "safe_sink ops"
  shows "fine_in (in_blocks ops isDriver)"
  unfolding fine_safe
proof
  show "safe_go (fst (in_blocks ops isDriver f))" for f
    using assms
  proof (induction ops isDriver f rule: in_blocks.induct)
    case (1 ops isDriver f)
    obtain s g where g: "in_step ops isDriver f = (s, g)" by fastforce
    have "safe_go s" using fine_in_step [OF "1.prems", of isDriver] g by (metis fine_safe fst_conv)
    then show ?case
      using "1.IH" [OF g [symmetric]] "1.prems" g
      by (auto simp: in_blocks.simps [of ops isDriver f] safe_go_def split: sum.splits)
  qed
qed

lemma fine_in_process:
  assumes "safe_sink ops"
  shows "fine_in (in_process ops isDriver)"
proof -
  note w = fine_sink [OF assms]
  have 1: "fine_in (\<lambda>f. read_then (f_link (SendBlockAckEOF (word_of_int (f_counter f)))) (\<lambda>_ f. (Inr (), f_finish f)) f)"
    by (rule fine_update [where g = "\<lambda>f. f"]) (simp, intro fine_intros, simp add: fine_safe)
  have 2: "fine_in (\<lambda>f. read_then (f_close ops True) (\<lambda>_ f.
      read_then (f_link (SendBlockAckEOF (word_of_int (f_counter f)))) (\<lambda>_ f. (Inr (), f_finish f)) f) (f_emit f))"
    by (rule fine_after [where g = f_emit]) (simp, intro fine_intros w 1)
  show ?thesis
    unfolding in_process_def [abs_def]
    by (rule fine_after [where g = f_emit]) (simp, rule fine_then, rule fine_in_blocks [OF assms], rule 2)
qed

lemma safe_bdx_Receive:
  assumes "safe_sink ops"
  shows "safe_go (fst (bdx_Receive ops opts x))"
proof -
  have s: "fine_in (in_settle a)" for a
    by (auto simp: fine_safe in_settle_def Let_def split: option.splits)
  have o: "fine_in (\<lambda>f. (offered_block_size (f_x f) n, f))" for n
    by (simp add: fine_safe offered_block_size_def Let_def)
  have "fine_in (in_run ops modes opts)" for modes
    unfolding in_run_def [abs_def]
    by (intro fine_then fine_links fine_messenger s o fine_in_process [OF assms]) (simp add: fine_safe)
  then show ?thesis
    by (simp add: bdx_Receive_def fine_safe split: option.splits prod.splits sum.splits)
      (metis fst_conv safe_go_def sum.inject(1))
qed

lemma safe_serveReceiver:
  assumes "safe_sink ops"
  shows "safe_go (fst (serveReceiver ops modes opts x))"
proof -
  have "safe_go (determineAccept x modes opts)" for x
    by (auto simp: determineAccept_def Let_def split: option.splits)
  then have "fine_in (negotiateReceiver modes opts :: ('a inbound, bdx_error, result) reader)"
    unfolding negotiateReceiver_def
    by (intro fine_intros) (simp_all add: checkDesignator_def fine_safe)
  then show ?thesis
    using fine_in_process [OF assms]
    by (simp add: serveReceiver_def fine_safe split: option.splits prod.splits sum.splits)
      (metis fst_conv safe_go_def sum.inject(1))
qed

lemma fine_stream [fine_intros]: "fine wrong (\<lambda>_. True) op \<Longrightarrow> fine_out (g_stream op)"
  by (auto simp: fine_def g_stream_def split: prod.splits) (metis fst_conv)+

lemma fine_readDataChunk [fine_intros]: "fine_out readDataChunk"
proof (rule fineI)
  fix g r g'
  assume "0 \<le> g_blockSize g" "readDataChunk g = (r, g')"
  then show "0 \<le> g_blockSize g' \<and> (\<forall>e. r = Inl e \<longrightarrow> e \<notin> wrong)"
    by (auto simp: readDataChunk_def read_then_def g_stream_def ReadFull_def Let_def newError_def
        split: sum.splits prod.splits if_splits)
qed

lemma fine_sendBlockEOF [fine_intros]: "fine_out (sendBlockEOF b)"
proof (rule fineI)
  fix g r g'
  assume g: "0 \<le> g_blockSize g" and s: "sendBlockEOF b g = (r, g')"
  obtain v h where h: "g_link (SendBlockEOF b) g = (v, h)" by fastforce
  have "0 \<le> g_blockSize h \<and> (\<forall>e. v = Inl e \<longrightarrow> e \<notin> wrong)"
    by (rule fineD [OF fine_links(2) [OF fine_messenger(6)] g h])
  with s h g show "0 \<le> g_blockSize g' \<and> (\<forall>e. r = Inl e \<longrightarrow> e \<notin> wrong)"
    by (auto simp: sendBlockEOF_def split: if_splits sum.splits)
qed

lemma fine_send_chunk [fine_intros]: "fine_out after \<Longrightarrow> fine_out (send_chunk c after)"
proof -
  assume a: "fine_out after"
  have "fine_out (\<lambda>g. (Inr True, (g_count n g)\<lparr>g_finalCounter := c\<rparr>))" for n
    by (simp add: fine_def g_count_def)
  moreover have "fine_out (\<lambda>g. after (g_count n g))" for n
    by (rule fine_after [where g = "g_count n"]) (simp_all add: a g_count_def)
  ultimately show ?thesis unfolding send_chunk_def by (intro fine_intros)
qed

lemma fine_out_step: "fine_out (out_step isDriver)"
proof -
  have "safe_go (validateCounter a b)" for a b by (simp add: validateCounter_def)
  note v = fine_pure [OF this]
  have 1: "fine_out drivenNext"
    unfolding drivenNext_def [abs_def] g_nextCounter_def Let_def split_conv
    by (rule fine_update) (auto intro!: fine_intros v)
  have c: "fine_out (\<lambda>g. (Inr (), g_count n g))" for n by (simp add: fine_def g_count_def)
  have k: "fine wrong (\<lambda>_. True) (skip_bytes n)" for n by (simp add: fine_safe skip_bytes_def)
  have "fine_out (\<lambda>g. let counter = counterOf v; (want, g) = g_nextCounter g in
     read_then (pure_go (validateCounter counter want)) (\<lambda>_.
     read_then (if skip > 0
         then read_then (g_stream (skip_bytes (unat skip))) (\<lambda>_ g. (Inr (), g_count (unat skip) g))
         else pure_go (Inr ())) (\<lambda>_.
     send_chunk counter (pure_go (Inr False)))) g)" for v and skip :: u64
    unfolding g_nextCounter_def Let_def split_conv
    by (rule fine_update) (auto intro!: fine_intros v c k)
  then have 2: "fine_out out_followingNext"
    unfolding out_followingNext_def by (intro fine_intros) (auto split: bdx_message.splits)
  from 1 2 show ?thesis by (simp add: out_step_def)
qed

lemma fine_out_blocks: "fine_out (out_blocks isDriver)"
proof (rule fineI)
  show "0 \<le> g_blockSize g \<Longrightarrow> out_blocks isDriver g = (r, g') \<Longrightarrow> 0 \<le> g_blockSize g' \<and> (\<forall>e. r = Inl e \<longrightarrow> e \<notin> wrong)" for g r g'
  proof (induction isDriver g rule: out_blocks.induct)
    case (1 isDriver g)
    obtain s h where h: "out_step isDriver g = (s, h)" by fastforce
    have s: "0 \<le> g_blockSize h \<and> (\<forall>e. s = Inl e \<longrightarrow> e \<notin> wrong)" by (rule fineD [OF fine_out_step "1.prems"(1) h])
    have e: "g_blockSize (g_emit h) = g_blockSize h" by (simp add: g_emit_def)
    show ?case
      using "1.IH" [OF h [symmetric]] "1.prems" h s
      by (auto simp: out_blocks.simps [of isDriver g] e split: sum.splits if_splits)
  qed
qed

lemma fine_out_process: "fine_out (out_process isDriver)"
proof -
  have "fine_out (\<lambda>g. case g_link ReadBlockAckEOF (g_emit g) of
       (Inl e, g) \<Rightarrow> if x_disabled (g_x g) then (Inr (), g_finish g) else (Inl e, g)
     | (Inr ack, g) \<Rightarrow>
         read_then (pure_go (validateCounter (co_BlockCounter ack) (g_finalCounter g)))
           (\<lambda>_ g. (Inr (), g_finish g)) g)"
  proof (rule fineI)
    fix g r g'
    assume g: "0 \<le> g_blockSize g" and a: "(case g_link ReadBlockAckEOF (g_emit g) of
         (Inl e, g) \<Rightarrow> if x_disabled (g_x g) then (Inr (), g_finish g) else (Inl e, g)
       | (Inr ack, g) \<Rightarrow>
           read_then (pure_go (validateCounter (co_BlockCounter ack) (g_finalCounter g)))
             (\<lambda>_ g. (Inr (), g_finish g)) g) = (r, g')"
    obtain s h where h: "g_link ReadBlockAckEOF (g_emit g) = (s, h)" by fastforce
    have "0 \<le> g_blockSize h \<and> (\<forall>e. s = Inl e \<longrightarrow> e \<notin> wrong)"
      using fineD [OF fine_links(2) [OF fine_messenger(13)] _ h] g by (simp add: g_emit_def)
    with a h show "0 \<le> g_blockSize g' \<and> (\<forall>e. r = Inl e \<longrightarrow> e \<notin> wrong)"
      by (auto simp: read_then_def pure_go_def g_finish_def validateCounter_def newError_def split: sum.splits if_splits)
  qed
  note k = this
  show ?thesis
    unfolding out_process_def [abs_def]
    by (rule fine_after [where g = g_emit]) (simp add: g_emit_def, rule fine_then, rule fine_out_blocks, rule k)
qed

lemma bdx_Next_limit: "bdx_Next ts x = (r, x') \<Longrightarrow> x_maxPayload x' = x_maxPayload x"
  by (auto simp: bdx_Next_def split: prod.splits)

lemma m_send_limit: "m_send t p x = (r, x') \<Longrightarrow> x_maxPayload x' = x_maxPayload x"
  by (auto simp: m_send_def ex_Send_def split: if_splits)

lemma SendSendInit_limit: "SendSendInit i x = (r, x') \<Longrightarrow> x_maxPayload x' = x_maxPayload x"
  by (auto simp: SendSendInit_def read_then_def pure_go_def split: prod.splits sum.splits
      dest!: bdx_Next_limit m_send_limit)

lemma SendReceiveAccept_limit: "SendReceiveAccept a x = (r, x') \<Longrightarrow> x_maxPayload x' = x_maxPayload x"
  by (auto simp: SendReceiveAccept_def read_then_def pure_go_def split: prod.splits sum.splits dest!: m_send_limit)

lemma cap_nonneg: "4 \<le> x_maxPayload x \<Longrightarrow> 0 \<le> n \<Longrightarrow> 0 \<le> capBlockSizeToTransport x n"
  by (simp add: capBlockSizeToTransport_def Let_def)

lemma offered_block_size_Inr:
  "offered_block_size x c = Inr n \<Longrightarrow> 1 \<le> n \<and> n \<le> 0xFFFF \<and> n \<le> x_maxPayload x - 4"
  by (auto simp: offered_block_size_def Let_def split: if_splits)

lemma startSend_Inr:
  assumes "startSend modes opts g = (Inr v, g')"
  shows "0 \<le> g_blockSize g'"
proof -
  from assms obtain n accept h where n: "offered_block_size (g_x g) (so_MaxBlockSize opts) = Inr n"
    and h: "g_link (SendSendInit (send_init n modes opts)) g = (Inr accept, h)"
    and b: "g_blockSize g' = capBlockSizeToTransport (g_x h) (uint (sa_MaxBlockSize accept))"
    unfolding startSend_def
    by (auto simp: read_then_Inr_iff pure_go_def Let_def newError_def negotiate_def split: if_splits option.splits)
  have "x_maxPayload (g_x h) = x_maxPayload (g_x g)"
    using h by (auto simp: g_link_def split: prod.splits dest: SendSendInit_limit)
  then show ?thesis unfolding b using offered_block_size_Inr [OF n] by (simp add: cap_nonneg)
qed

lemma safe_bdx_Send: "safe_go (fst (bdx_Send opts x))"
proof -
  have l: "safe_go (case so_Length opts of None \<Rightarrow> Inr ()
       | Some l \<Rightarrow> if l > transfer_limit opts then Inl (Fail BdxErrTransferSize) else Inr ())"
    by (auto split: option.splits)
  have o: "fine wrong (\<lambda>_. True) (\<lambda>g. (offered_block_size (g_x g) n, g))" for n
    by (simp add: fine_safe offered_block_size_def Let_def)
  have g: "fine wrong (\<lambda>_. True) (g_link (SendSendInit i))" for i
    using fine_messenger(1) [of i] by (auto simp: fine_def g_link_def split: prod.splits) (metis fst_conv)+
  have st: "fine wrong (\<lambda>_. True) (startSend modes opts)" for modes
    unfolding startSend_def
    by (intro fine_then fine_pure l o g) (simp add: fine_safe Let_def)
  show ?thesis
  proof (cases "so_Data opts")
    case None
    then show ?thesis by (simp add: bdx_Send_def StartSend_def)
  next
    case (Some d)
    obtain s h where h: "startSend (default_modes (so_PreferredDriverModes opts)) opts (new_outbound x d) = (s, h)" by fastforce
    have s: "safe_go s" using st h by (metis fine_safe fst_conv)
    show ?thesis
    proof (cases s)
      case (Inl e)
      with h s Some show ?thesis by (simp add: bdx_Send_def StartSend_def safe_go_def)
    next
      case (Inr v)
      obtain isDriver res where v: "v = (isDriver, res)" by fastforce
      obtain t k where k: "out_process isDriver (h\<lparr>g_hooks := no_hooks\<lparr>h_progress := so_Progress opts\<rparr>\<rparr>) = (t, k)" by fastforce
      have "\<forall>e. t = Inl e \<longrightarrow> e \<notin> wrong"
        using fineD [OF fine_out_process _ k] startSend_Inr [OF h [unfolded Inr]] by simp
      with h Some Inr v k show ?thesis
        by (cases t) (simp_all add: bdx_Send_def StartSend_def Transfer_Run_def safe_go_def)
    qed
  qed
qed

lemma determineAccept_Inr:
  assumes "determineAccept x modes opts = Inr (tc, n, l)"
  shows "n \<noteq> 0" "uint n \<le> x_maxPayload x - 4" "n \<le> in_MaxBlockSize (sv_Init opts)"
    "sv_MaxBlockSize opts \<noteq> 0 \<Longrightarrow> n \<le> sv_MaxBlockSize opts"
proof -
  define size where "size = (let c = capBlockSizeToTransport x (uint (in_MaxBlockSize (sv_Init opts))) in
    if sv_MaxBlockSize opts \<noteq> 0 \<and> c > uint (sv_MaxBlockSize opts) then uint (sv_MaxBlockSize opts) else c)"
  have s: "1 \<le> size" "n = word_of_int size"
    using assms by (auto simp: determineAccept_def size_def Let_def newError_def split: option.splits if_splits)
  have b: "size \<le> x_maxPayload x - 4" "size \<le> uint (in_MaxBlockSize (sv_Init opts))"
    "sv_MaxBlockSize opts \<noteq> 0 \<Longrightarrow> size \<le> uint (sv_MaxBlockSize opts)"
    by (auto simp: size_def capBlockSizeToTransport_def Let_def)
  have "uint (in_MaxBlockSize (sv_Init opts)) < 2 ^ 16" using uint_lt2p [of "in_MaxBlockSize (sv_Init opts)"] by simp
  then have u: "uint n = size" using s b by (simp add: uint_word_of_int)
  then show "n \<noteq> 0" "uint n \<le> x_maxPayload x - 4" "n \<le> in_MaxBlockSize (sv_Init opts)"
    "sv_MaxBlockSize opts \<noteq> 0 \<Longrightarrow> n \<le> sv_MaxBlockSize opts"
    using s b by (auto simp: word_le_def)
qed

lemma negotiateSender_Inr:
  assumes "negotiateSender modes opts g = (Inr res, g')"
  shows "0 \<le> g_blockSize g'"
proof -
  from assms obtain tc n l h where n: "determineAccept (g_x g) modes opts = Inr (tc, n, l)"
    and h: "g_link (SendReceiveAccept \<lparr>ra_TransferControl = tc, ra_MaxBlockSize = n,
         ra_Length = l, ra_WideRange = False, ra_MetaData = []\<rparr>) g = (Inr (), h)"
    and b: "g_blockSize g' = capBlockSizeToTransport (g_x h) (uint n)"
    unfolding negotiateSender_def
    by (auto simp: read_then_Inr_iff pure_go_def Let_def negotiate_def split: option.splits)
  have "x_maxPayload (g_x h) = x_maxPayload (g_x g)"
    using h by (auto simp: g_link_def split: prod.splits dest: SendReceiveAccept_limit)
  then show ?thesis
    unfolding b using determineAccept_Inr(2) [OF n] uint_nonnegative [of n] by (intro cap_nonneg) linarith+
qed

lemma safe_serveSender:
  assumes "\<And>b. sv_Open opts = Some b \<Longrightarrow> safe_go b"
  shows "safe_go (fst (serveSender modes opts x))"
proof -
  have d: "safe_go (determineAccept y modes opts)" for y
    by (auto simp: determineAccept_def Let_def split: option.splits)
  have o: "safe_go (open_blob opts)"
    using assms by (auto simp: open_blob_def safe_go_def newError_def split: option.splits sum.splits fault.splits)
  have "fine wrong (\<lambda>_. True) (g_link (SendReceiveAccept a))" for a
    using fine_messenger(4) [of a] by (auto simp: fine_def g_link_def split: prod.splits) (metis fst_conv)+
  then have n: "fine wrong (\<lambda>_. True) (negotiateSender modes opts)"
    unfolding negotiateSender_def Let_def
    by (intro fine_then fine_pure fine_split o)
      (auto simp: fine_safe d checkDesignator_def start_offset_def split: option.splits)
  obtain s h where h: "negotiateSender modes opts (new_outbound x \<lparr>st_rest = [], st_broken = False\<rparr>) = (s, h)" by fastforce
  have s: "safe_go s" using n h by (metis fine_safe fst_conv)
  show ?thesis
  proof (cases s)
    case (Inl e)
    with h s show ?thesis by (simp add: serveSender_def safe_go_def)
  next
    case (Inr res)
    have "0 \<le> g_blockSize h" by (rule negotiateSender_Inr [OF h [unfolded Inr]])
    obtain t k where k: "out_process (res_Mode res = SenderDrive) (h\<lparr>g_hooks := sv_hooks opts\<rparr>) = (t, k)" by fastforce
    have "\<forall>e. t = Inl e \<longrightarrow> e \<notin> wrong"
      using fineD [OF fine_out_process _ k] \<open>0 \<le> g_blockSize h\<close> by simp
    with h Inr k show ?thesis by (cases t) (simp_all add: serveSender_def safe_go_def)
  qed
qed

section \<open>The loops end\<close>

text \<open>The loop of \<open>process\<close> cut off after \<open>n\<close> iterations.\<close>

fun bounded :: "nat \<Rightarrow> ('s, 'e, bool) reader \<Rightarrow> ('s \<Rightarrow> 's) \<Rightarrow> 's \<Rightarrow> (('e, unit) go \<times> 's) option" where
  "bounded 0 step emit s = None"
| "bounded (Suc n) step emit s = (case step s of
       (Inl e, t) \<Rightarrow> Some (Inl e, t)
     | (Inr done, t) \<Rightarrow> if done then Some (Inr (), t) else bounded n step emit (emit t))"

lemma in_blocks_bounded:
  "length (x_inbox (f_x f)) < n \<Longrightarrow> bounded n (in_step ops isDriver) f_emit f = Some (in_blocks ops isDriver f)"
proof (induction n arbitrary: f)
  case (Suc n)
  obtain s g where g: "in_step ops isDriver f = (s, g)" by fastforce
  have "length (x_inbox (f_x (f_emit g))) < n" if "s = Inr False"
    using in_step_consumes [OF g [unfolded that]] Suc.prems by (simp add: f_emit_def)
  with Suc.IH g show ?case
    by (auto simp: in_blocks.simps [of ops isDriver f] split: sum.splits)
qed simp

lemma out_blocks_bounded:
  "length (x_inbox (g_x g)) < n \<Longrightarrow> bounded n (out_step isDriver) g_emit g = Some (out_blocks isDriver g)"
proof (induction n arbitrary: g)
  case (Suc n)
  obtain s h where h: "out_step isDriver g = (s, h)" by fastforce
  have "length (x_inbox (g_x (g_emit h))) < n" if "s = Inr False"
    using out_step_consumes [OF h [unfolded that]] Suc.prems by (simp add: g_emit_def)
  with Suc.IH h show ?case
    by (auto simp: out_blocks.simps [of isDriver g] split: sum.splits)
qed simp

section \<open>Samples\<close>

definition sample_link :: "wire_message list \<Rightarrow> link" where
  "sample_link inbox = \<lparr>x_inbox = inbox, x_sent = [], x_sends = 9, x_maxPayload = 1024,
     x_cancelled = False, x_disabled = False, x_takesMrpDelay = False, x_mrpDelay = None\<rparr>"

definition sample_sink :: file_sink where
  "sample_sink = \<lparr>fs_tmp = None, fs_written = 0, fs_closed = False, fs_file = None, fs_create_ok = True,
     fs_space = 100, fs_sync_ok = True, fs_close_ok = True, fs_rename_ok = True\<rparr>"

definition sample_receive :: "file_sink receive_options" where
  "sample_receive = \<lparr>ro_TransferFileDesignator = ascii ''s/f'', ro_Sink = Some sample_sink,
     ro_PreferredDriverModes = [], ro_MaxBlockSize = 0, ro_Progress = True\<rparr>"

definition sample_send :: send_options where
  "sample_send = \<lparr>so_TransferFileDesignator = ascii ''s/f'', so_Data = Some \<lparr>st_rest = [1, 2, 3], st_broken = False\<rparr>,
     so_Length = Some 3, so_PreferredDriverModes = [], so_MaxBlockSize = 2, so_MaxTransferSize = 0,
     so_StartOffset = None, so_Progress = True\<rparr>"

definition sample_serve :: "file_sink serve_options" where
  "sample_serve = \<lparr>sv_InitType = MessageReceiveInit,
     sv_Init = receive_init 1020 [SenderDrive, ReceiverDrive] (ascii ''s/f''),
     sv_TransferFileDesignator = ascii ''s/f'', sv_Open = Some (Inl (Fail BdxErrNotExist)), sv_Sink = Some sample_sink,
     sv_PreferredDriverModes = [], sv_MaxBlockSize = 0, sv_hooks = no_hooks\<rparr>"

section \<open>Properties\<close>

text \<open>
  C24. Every transfer, started by either side and in either direction, sends messages of its
  protocol only, and after them, once and last, a failure report with the status code of the
  error it returns, if the error has one and the exchange still sends; a transfer that
  succeeds or fails otherwise reports nothing.
\<close>

theorem bdx_failures_reported:
  "(bdx_Receive ops ropts x = (r, Some f) \<longrightarrow> reported r x (f_x f))
    \<and> (serveReceiver ops modes vopts x = (r, Some f) \<longrightarrow> reported r x (f_x f))
    \<and> (bdx_Send sopts x = (r, Some g) \<longrightarrow> reported r x (g_x g))
    \<and> (serveSender modes vopts x = (r, g) \<longrightarrow> reported r x (g_x g))"
  by (intro conjI impI bdx_Receive_reported serveReceiver_reported bdx_Send_reported serveSender_reported)

theorem bdx_failures_reported_witness:
  "\<exists>g. serveSender [SenderDrive] sample_serve (sample_link []) = (newError StatusFileDesignatorUnknown, g)
    \<and> x_sent (g_x g) = [report_msg StatusFileDesignatorUnknown]"
proof -
  let ?x = "sample_link []"
  obtain g where g: "serveSender [SenderDrive] sample_serve ?x = (newError StatusFileDesignatorUnknown, g)"
    by (simp add: serveSender_def negotiateSender_def read_then_def pure_go_def checkDesignator_def open_blob_def
        sample_serve_def receive_init_def newError_def)
  have l: "x_sends (g_x g) \<noteq> 0 \<and> length (x_sent (g_x g)) = 1"
    using g by (auto simp: serveSender_def negotiateSender_def read_then_def pure_go_def checkDesignator_def open_blob_def
        sample_serve_def receive_init_def newError_def g_fail_def AsError_def new_outbound_def no_hooks_def g_link_def
        SendError_def ex_Send_def sample_link_def)
  have "reported (newError StatusFileDesignatorUnknown :: (bdx_error, result) go) ?x (g_x g)"
    using bdx_failures_reported [of FileSink sample_receive ?x] g by blast
  then have "x_sent (g_x g) = [report_msg StatusFileDesignatorUnknown]"
    using l by (auto simp: reported_def report_of_def newError_def sample_link_def)
  with g show ?thesis by blast
qed



text \<open>
  C30. The loops of both flows end whatever the peer sends: one iteration per message that is
  still to come, and one more, are enough, and give the result of the unbounded loop.
\<close>

theorem bdx_loops_end:
  "bounded (Suc (length (x_inbox (f_x f)))) (in_step ops isDriver) f_emit f = Some (in_blocks ops isDriver f)
    \<and> bounded (Suc (length (x_inbox (g_x g)))) (out_step isDriver) g_emit g = Some (out_blocks isDriver g)"
  by (simp only: in_blocks_bounded out_blocks_bounded lessI simp_thms)

end
