(* ===== verification/Bdx_Inbound.thy ===== *)
theory Bdx_Inbound
  imports Bdx_Report
begin

text \<open>
  Inbound transfers against any peer. The interface of a sink is the locale \<open>sink\<close>: what is
  written is appended, closing with success makes exactly that the destination's content, and
  nothing else touches the destination. Inside it, a transfer that ends with success has
  received a run of blocks numbered from 0 and committed their concatenation; one that fails
  has left the destination alone, unless all that failed was the last acknowledgement. The
  locale is interpreted for the file sink.
\<close>

section \<open>Reading messages\<close>

text \<open>A message that \<open>Next\<close> drops.\<close>

definition dropped :: "wire_message \<Rightarrow> bool" where
  "dropped m \<longleftrightarrow> w_ProtocolID m \<noteq> BdxProtocolID
     \<and> \<not> (w_ProtocolID m = SecureChannelProtocolID \<and> w_Opcode m = OpcodeStatusReport)"

lemma next_loop_Inr_iff:
  "next_loop ts ms = (Inr (t, v), ms') \<longleftrightarrow>
    (\<exists>pre m. ms = pre @ m # ms' \<and> list_all dropped pre \<and> w_ProtocolID m = BdxProtocolID
       \<and> w_Opcode m = t \<and> t \<in> set ts \<and> bdx_Decode t (w_Payload m) = Inr v)"
proof (induction ts ms rule: next_loop.induct)
  case (2 ts m ms)
  show ?case
  proof (cases "dropped m")
    case True
    then have c: "\<not> (w_ProtocolID m = SecureChannelProtocolID \<and> w_Opcode m = OpcodeStatusReport)"
      "w_ProtocolID m \<noteq> BdxProtocolID" by (simp_all add: dropped_def)
    then have "next_loop ts (m # ms) = next_loop ts ms" by auto
    moreover have "(\<exists>pre k. m # ms = pre @ k # ms' \<and> list_all dropped pre \<and> w_ProtocolID k = BdxProtocolID
         \<and> w_Opcode k = t \<and> t \<in> set ts \<and> bdx_Decode t (w_Payload k) = Inr v)
       \<longleftrightarrow> (\<exists>pre k. ms = pre @ k # ms' \<and> list_all dropped pre \<and> w_ProtocolID k = BdxProtocolID
         \<and> w_Opcode k = t \<and> t \<in> set ts \<and> bdx_Decode t (w_Payload k) = Inr v)"
      using True by (auto simp: Cons_eq_append_conv dropped_def)
    ultimately show ?thesis using "2.IH" [OF c] by argo
  next
    case False
    then show ?thesis
      by (auto simp: dropped_def Cons_eq_append_conv Let_def and_then_Inr_iff)
  qed
qed simp

lemma bdx_Next_Inr_iff:
  "bdx_Next ts x = (Inr (t, v), x') \<longleftrightarrow>
    (\<exists>pre m rest. x_inbox x = pre @ m # rest \<and> list_all dropped pre \<and> w_ProtocolID m = BdxProtocolID
       \<and> w_Opcode m = t \<and> t \<in> set ts \<and> bdx_Decode t (w_Payload m) = Inr v \<and> x' = x\<lparr>x_inbox := rest\<rparr>)"
proof -
  have "bdx_Next ts x = (Inr (t, v), x') \<longleftrightarrow>
      (\<exists>rest. next_loop ts (x_inbox x) = (Inr (t, v), rest) \<and> x' = x\<lparr>x_inbox := rest\<rparr>)"
    by (auto simp: bdx_Next_def split: prod.splits)
  then show ?thesis unfolding next_loop_Inr_iff by blast
qed

definition bdx_msg :: "byte \<Rightarrow> bytes \<Rightarrow> wire_message" where
  "bdx_msg t payload = \<lparr>w_ProtocolID = BdxProtocolID, w_Opcode = t, w_Payload = payload\<rparr>"

definition block_msg :: "byte \<Rightarrow> nat \<Rightarrow> bytes \<Rightarrow> wire_message" where
  "block_msg t c data = bdx_msg t (Block_Encode \<lparr>b_BlockCounter = word_of_nat c, b_Data = data\<rparr>)"

definition counter_msg :: "byte \<Rightarrow> nat \<Rightarrow> wire_message" where
  "counter_msg t c = bdx_msg t (CounterOnly_Encode \<lparr>co_BlockCounter = word_of_nat c\<rparr>)"

lemma bdx_Next_msg:
  assumes "x_inbox x = pre @ bdx_msg t p # rest" "list_all dropped pre" "t \<in> set ts" "bdx_Decode t p = Inr v"
  shows "bdx_Next ts x = (Inr (t, v), x\<lparr>x_inbox := rest\<rparr>)"
  unfolding bdx_Next_Inr_iff using assms
  by (intro exI [of _ pre] exI [of _ "bdx_msg t p"] exI [of _ rest]) (simp add: bdx_msg_def)

lemma bdx_Decode_block:
  "t = MessageBlock \<or> t = MessageBlockEOF \<Longrightarrow> bdx_Decode t p = Inr v \<longleftrightarrow> (\<exists>b. v = MBlock b \<and> p = Block_Encode b)"
  by (auto simp: bdx_Decode_def and_then_Inr_iff DecodeBlock_iff)

lemma ReadBlock_Inr_iff:
  "ReadBlock x = (Inr (t, b), x') \<longleftrightarrow>
    (\<exists>pre rest. x_inbox x = pre @ bdx_msg t (Block_Encode b) # rest \<and> list_all dropped pre
       \<and> (t = MessageBlockEOF \<or> t = MessageBlock \<and> b_Data b \<noteq> []) \<and> x' = x\<lparr>x_inbox := rest\<rparr>)"
  (is "?L \<longleftrightarrow> ?R")
proof
  assume ?L
  then obtain v where 1: "bdx_Next [MessageBlock, MessageBlockEOF] x = (Inr (t, v), x')"
    and 2: "as_Block v = Inr b" and 3: "\<not> (t = MessageBlock \<and> b_Data b = [])"
    by (auto simp: ReadBlock_def read_then_Inr_iff pure_go_def newError_def split: if_splits)
  from 1 obtain pre m rest where m: "x_inbox x = pre @ m # rest" "list_all dropped pre"
    "w_ProtocolID m = BdxProtocolID" "w_Opcode m = t" "t = MessageBlock \<or> t = MessageBlockEOF"
    "bdx_Decode t (w_Payload m) = Inr v" "x' = x\<lparr>x_inbox := rest\<rparr>"
    unfolding bdx_Next_Inr_iff by auto
  from m(6) 2 have "w_Payload m = Block_Encode b"
    unfolding bdx_Decode_block [OF m(5)] by (auto simp: as_Block_def)
  then have "m = bdx_msg t (Block_Encode b)"
    unfolding bdx_msg_def using m(3,4) by simp
  with m 3 show ?R by (intro exI [of _ pre] exI [of _ rest]) auto
next
  assume ?R
  then have t: "t = MessageBlock \<or> t = MessageBlockEOF" by blast
  have "bdx_Decode t (Block_Encode b) = Inr (MBlock b)" using bdx_Decode_block [OF t] by blast
  then have "bdx_Next [MessageBlock, MessageBlockEOF] x = (Inr (t, MBlock b), x')"
    using \<open>?R\<close> t by (auto intro: bdx_Next_msg)
  then show ?L
    using \<open>?R\<close> by (auto simp: ReadBlock_def read_then_Inr_iff pure_go_def as_Block_def)
qed

section \<open>Counters\<close>

text \<open>The flow is about to use block number \<open>c\<close>.\<close>

definition due :: "nat \<Rightarrow> int \<Rightarrow> bool" where
  "due c k \<longleftrightarrow> next_counter k = int c mod 0x100000000"

lemma due_0: "due 0 (-1)"
  by (simp add: due_def next_counter_def)

lemma due_Suc: "due c k \<Longrightarrow> due (Suc c) (next_counter k)"
proof -
  assume "due c k"
  then have "next_counter (next_counter k) = (int c mod 0x100000000 + 1) mod 0x100000000"
    by (simp add: due_def) (simp add: next_counter_def)
  also have "\<dots> = int (Suc c) mod 0x100000000" by (simp add: add.commute mod_add_right_eq)
  finally show ?thesis by (simp add: due_def)
qed

lemma word_of_int_mod_u32: "(word_of_int (k mod 0x100000000) :: u32) = word_of_int k"
  by (simp add: word_uint_eq_iff uint_word_of_int)

lemma due_word: "due c k \<Longrightarrow> (word_of_int (next_counter k) :: u32) = word_of_nat c"
  by (simp add: due_def word_of_int_mod_u32)

section \<open>Runs of blocks\<close>

text \<open>
  The messages that carry the chunks \<open>ps\<close> as blocks numbered from \<open>c\<close>, the last as \<open>BlockEof\<close>.
\<close>

fun chunk_msgs :: "nat \<Rightarrow> bytes list \<Rightarrow> wire_message list" where
  "chunk_msgs c [] = []"
| "chunk_msgs c [p] = [block_msg MessageBlockEOF c p]"
| "chunk_msgs c (p # q # ps) = block_msg MessageBlock c p # chunk_msgs (Suc c) (q # ps)"

text \<open>Chunks a receiver takes: only the last may be empty.\<close>

fun proper_chunks :: "bytes list \<Rightarrow> bool" where
  "proper_chunks [] = False"
| "proper_chunks [p] = True"
| "proper_chunks (p # q # ps) = (p \<noteq> [] \<and> proper_chunks (q # ps))"

text \<open>What the receiver sends while it takes \<open>n\<close> blocks from number \<open>c\<close>.\<close>

definition in_replies :: "bool \<Rightarrow> nat \<Rightarrow> nat \<Rightarrow> wire_message list" where
  "in_replies isDriver c n =
     (if isDriver then map (counter_msg MessageBlockQuery) [c..<c + n]
      else map (counter_msg MessageBlockAck) [c..<c + n - 1])"

text \<open>The messages of the transfer among all messages: the dropped ones left out.\<close>

definition kept :: "wire_message list \<Rightarrow> wire_message list" where
  "kept ms = filter (\<lambda>m. \<not> dropped m) ms"

lemma kept_dropped: "list_all dropped ms \<Longrightarrow> kept ms = []"
  by (simp add: kept_def list_all_iff filter_empty_conv)

lemma kept_append [simp]: "kept (a @ b) = kept a @ kept b"
  by (simp add: kept_def)

lemma kept_bdx_msg [simp]: "kept (bdx_msg t p # ms) = bdx_msg t p # kept ms"
  by (simp add: kept_def dropped_def bdx_msg_def)

lemma kept_block_msg [simp]: "kept (block_msg t c d # ms) = block_msg t c d # kept ms"
  by (simp add: block_msg_def)

lemma m_send_Inr: "m_send t p x = (Inr u, x') \<Longrightarrow> x_inbox x' = x_inbox x \<and> x_sent x' = x_sent x @ [bdx_msg t p]"
  by (auto simp: m_send_def ex_Send_def bdx_msg_def split: if_splits)

lemma f_link_Inr: "f_link op f = (Inr v, f') \<longleftrightarrow> (\<exists>x. op (f_x f) = (Inr v, x) \<and> f' = f\<lparr>f_x := x\<rparr>)"
  by (auto simp: f_link_def split: prod.splits)

lemma block_msg_eq:
  "b_BlockCounter b = word_of_nat c \<Longrightarrow> bdx_msg t (Block_Encode b) = block_msg t c (b_Data b)"
  by (simp add: block_msg_def Block_Encode_def)

lemma f_emit_fields [simp]:
  "f_x (f_emit f) = f_x f" "f_sink (f_emit f) = f_sink f" "f_counter (f_emit f) = f_counter f"
  "f_transferred (f_emit f) = f_transferred f" "f_dataLength (f_emit f) = f_dataLength f"
  "f_bytesLeft (f_emit f) = f_bytesLeft f"
  by (simp_all add: f_emit_def)

lemma f_fail_inbox: "x_inbox (f_x (f_fail ops e f)) = x_inbox (f_x f)"
  by (cases e) (auto simp: f_fail_def f_close_def f_link_def SendError_def ex_Send_def Let_def
      split: option.splits prod.splits if_splits)

section \<open>Sinks\<close>

locale sink =
  fixes ops :: "'k sink_ops"
    and content :: "'k \<Rightarrow> bytes"
    and dest :: "'k \<Rightarrow> bytes option"
    and is_open :: "'k \<Rightarrow> bool"
    and clean :: "'k \<Rightarrow> bool"
  assumes write_ok: "is_open k \<Longrightarrow> k_Write ops p k = (Inr n, k') \<Longrightarrow> content k' = content k @ p"
    and write_open: "is_open k \<Longrightarrow> k_Write ops p k = (r, k') \<Longrightarrow> is_open k' \<and> dest k' = dest k"
    and commit: "is_open k \<Longrightarrow> k_Close ops True k = (Inr u, k') \<Longrightarrow> dest k' = Some (content k)"
    and commit_failed: "is_open k \<Longrightarrow> k_Close ops True k = (Inl e, k') \<Longrightarrow> dest k' = dest k"
    and close_closes: "k_Close ops b k = (c, k') \<Longrightarrow> \<not> is_open k'"
    and clean_write: "clean k \<Longrightarrow> k_Write ops p k = (r, k') \<Longrightarrow> clean k'"
    and clean_close: "clean k \<Longrightarrow> k_Close ops b k = (c, k') \<Longrightarrow> clean k'"
    and discard: "k_Close ops False k = (c, k') \<Longrightarrow> dest k' = dest k"
begin

text \<open>One block: what it does to the flow when it is taken, and when it is not.\<close>

lemma f_write_Inr:
  assumes "f_write ops data t f = (Inr done, f')" and "is_open (f_sink f)"
  shows "content (f_sink f') = content (f_sink f) @ data \<and> is_open (f_sink f') \<and> dest (f_sink f') = dest (f_sink f)
    \<and> (done \<longleftrightarrow> t = MessageBlockEOF) \<and> f_bytesLeft f' = map_option (\<lambda>l. l - int (length data)) (f_bytesLeft f)
    \<and> (done \<longrightarrow> f_bytesLeft f = None \<or> f_bytesLeft f = Some (int (length data))) \<and> f_x f' = f_x f \<and> f_counter f' = f_counter f
    \<and> f_transferred f' = f_transferred f \<and> f_dataLength f' = f_dataLength f"
  using assms
  by (auto simp: f_write_def Let_def newError_def split: prod.splits sum.splits option.splits if_splits
      dest: write_ok write_open)

text \<open>
  The flow \<open>f'\<close> is \<open>f\<close> after block number \<open>c\<close> with \<open>data\<close> was taken from the messages \<open>ms\<close>, as
  the last one or not.
\<close>

definition took :: "bool \<Rightarrow> nat \<Rightarrow> bytes \<Rightarrow> bool \<Rightarrow> wire_message list \<Rightarrow> 'k inbound \<Rightarrow> 'k inbound \<Rightarrow> bool" where
  "took isDriver c data fin ms f f' \<longleftrightarrow>
     x_inbox (f_x f) = ms @ x_inbox (f_x f')
     \<and> kept ms = [block_msg (if fin then MessageBlockEOF else MessageBlock) c data] \<and> (fin \<or> data \<noteq> [])
     \<and> content (f_sink f') = content (f_sink f) @ data \<and> is_open (f_sink f') \<and> dest (f_sink f') = dest (f_sink f)
     \<and> f_bytesLeft f' = map_option (\<lambda>l. l - int (length data)) (f_bytesLeft f)
     \<and> (fin \<longrightarrow> f_bytesLeft f = None \<or> f_bytesLeft f = Some (int (length data))) \<and> f_counter f' = next_counter (f_counter f)
     \<and> f_transferred f' = f_transferred f + word_of_nat (length data) \<and> f_dataLength f' = f_dataLength f
     \<and> x_sent (f_x f') = x_sent (f_x f) @ (if isDriver then [counter_msg MessageBlockQuery c]
           else if fin then [] else [counter_msg MessageBlockAck c])"

lemma took_block:
  assumes "f_write ops (b_Data b) t (f_count (b_Data b) h) = (Inr fin, g)"
    and "ReadBlock x = (Inr (t, b), f_x h)" and "b_BlockCounter b = word_of_nat c"
    and "is_open (f_sink h)"
  shows "\<exists>ms. x_inbox x = ms @ x_inbox (f_x g)
     \<and> kept ms = [block_msg (if fin then MessageBlockEOF else MessageBlock) c (b_Data b)] \<and> (fin \<or> b_Data b \<noteq> [])
     \<and> content (f_sink g) = content (f_sink h) @ b_Data b \<and> is_open (f_sink g) \<and> dest (f_sink g) = dest (f_sink h)
     \<and> f_bytesLeft g = map_option (\<lambda>l. l - int (length (b_Data b))) (f_bytesLeft h)
     \<and> (fin \<longrightarrow> f_bytesLeft h = None \<or> f_bytesLeft h = Some (int (length (b_Data b)))) \<and> f_counter g = f_counter h
     \<and> f_transferred g = f_transferred h + word_of_nat (length (b_Data b)) \<and> f_dataLength g = f_dataLength h
     \<and> f_x g = f_x h \<and> x_sent (f_x h) = x_sent x"
proof -
  from assms(2) obtain pre rest where r: "x_inbox x = pre @ bdx_msg t (Block_Encode b) # rest"
    "list_all dropped pre" "t = MessageBlockEOF \<or> t = MessageBlock \<and> b_Data b \<noteq> []" "f_x h = x\<lparr>x_inbox := rest\<rparr>"
    unfolding ReadBlock_Inr_iff by blast
  have w: "content (f_sink g) = content (f_sink h) @ b_Data b \<and> is_open (f_sink g) \<and> dest (f_sink g) = dest (f_sink h)
    \<and> (fin \<longleftrightarrow> t = MessageBlockEOF) \<and> f_bytesLeft g = map_option (\<lambda>l. l - int (length (b_Data b))) (f_bytesLeft h)
    \<and> (fin \<longrightarrow> f_bytesLeft h = None \<or> f_bytesLeft h = Some (int (length (b_Data b)))) \<and> f_x g = f_x h \<and> f_counter g = f_counter h
    \<and> f_transferred g = f_transferred h + word_of_nat (length (b_Data b)) \<and> f_dataLength g = f_dataLength h"
    using f_write_Inr [OF assms(1)] assms(4) by (simp add: f_count_def)
  show ?thesis
    using w r(1,3,4) kept_dropped [OF r(2)] block_msg_eq [OF assms(3)]
    by (intro exI [of _ "pre @ [bdx_msg t (Block_Encode b)]"]) (auto simp: kept_def [of "[]"])
qed

lemma in_step_Inr:
  assumes "in_step ops isDriver f = (Inr fin, f')" and "is_open (f_sink f)" and "due c (f_counter f)"
  shows "\<exists>ms data. took isDriver c data fin ms f f'"
proof (cases isDriver)
  case True
  let ?n = "next_counter (f_counter f)"
  from assms(1) True obtain x t b y where
    1: "SendBlockQuery (word_of_int ?n) (f_x f) = (Inr (), x)" and 2: "ReadBlock x = (Inr (t, b), y)"
    and 3: "b_BlockCounter b = word_of_int ?n"
    and 4: "f_write ops (b_Data b) t (f_count (b_Data b) (f\<lparr>f_counter := ?n, f_x := y\<rparr>)) = (Inr fin, f')"
    by (auto simp: in_step_def drivingNext_def f_nextCounter_def Let_def read_then_Inr_iff f_link_Inr newError_def
        split: if_splits)
  have q: "x_inbox x = x_inbox (f_x f)" "x_sent x = x_sent (f_x f) @ [counter_msg MessageBlockQuery c]"
    using m_send_Inr [OF 1 [unfolded SendBlockQuery_def]] due_word [OF assms(3)] by (simp_all add: counter_msg_def)
  show ?thesis
    using took_block [OF 4, of x c] 2 3 q assms(2) due_word [OF assms(3)] True unfolding took_def by auto
next
  case False
  let ?n = "next_counter (f_counter f)"
  from assms(1) False obtain t b y g where
    2: "ReadBlock (f_x f) = (Inr (t, b), y)"
    and 3: "b_BlockCounter b = word_of_int ?n"
    and 4: "f_write ops (b_Data b) t (f_count (b_Data b) (f\<lparr>f_x := y, f_counter := ?n\<rparr>)) = (Inr fin, g)"
    and 5: "if fin then f' = g else \<exists>z. SendBlockAck (b_BlockCounter b) (f_x g) = (Inr (), z) \<and> f' = g\<lparr>f_x := z\<rparr>"
    by (auto simp: in_step_def in_followingNext_def f_nextCounter_def Let_def read_then_Inr_iff f_link_Inr newError_def
        pure_go_def split: if_splits)
  have s: "x_inbox (f_x f') = x_inbox (f_x g) \<and> x_sent (f_x f') = x_sent (f_x g) @ (if fin then [] else [counter_msg MessageBlockAck c])
      \<and> f'\<lparr>f_x := f_x g\<rparr> = g"
    using 5 m_send_Inr [of MessageBlockAck "CounterOnly_Encode \<lparr>co_BlockCounter = b_BlockCounter b\<rparr>" "f_x g"]
    by (auto simp: SendBlockAck_def counter_msg_def 3 due_word [OF assms(3)] split: if_splits)
  have k: "f_sink f' = f_sink g" "f_bytesLeft f' = f_bytesLeft g" "f_counter f' = f_counter g"
    "f_transferred f' = f_transferred g" "f_dataLength f' = f_dataLength g"
    using 5 by (auto split: if_splits)
  show ?thesis
    using took_block [OF 4, of "f_x f" c] 2 3 assms(2) due_word [OF assms(3)] False s unfolding took_def k by auto
qed

text \<open>The flow after the run of blocks \<open>ps\<close> from number \<open>c\<close>.\<close>

definition took_all :: "bool \<Rightarrow> nat \<Rightarrow> bytes list \<Rightarrow> wire_message list \<Rightarrow> 'k inbound \<Rightarrow> 'k inbound \<Rightarrow> bool" where
  "took_all isDriver c ps ms f f' \<longleftrightarrow>
     x_inbox (f_x f) = ms @ x_inbox (f_x f') \<and> kept ms = chunk_msgs c ps \<and> proper_chunks ps
     \<and> content (f_sink f') = content (f_sink f) @ concat ps \<and> is_open (f_sink f') \<and> dest (f_sink f') = dest (f_sink f)
     \<and> (\<forall>l. f_bytesLeft f = Some l \<longrightarrow> int (length (concat ps)) = l)
     \<and> f_transferred f' = f_transferred f + word_of_nat (length (concat ps)) \<and> f_dataLength f' = f_dataLength f
     \<and> (word_of_int (f_counter f') :: u32) = word_of_nat (c + length ps - 1)
     \<and> x_sent (f_x f') = x_sent (f_x f) @ in_replies isDriver c (length ps)"

lemma took_all_fin: "took isDriver c data True ms f f' \<Longrightarrow> due c (f_counter f) \<Longrightarrow> took_all isDriver c [data] ms f f'"
  by (auto simp: took_def took_all_def in_replies_def due_word)

lemma took_all_Cons:
  assumes "took isDriver c data False ms f g" and "took_all isDriver (Suc c) ps ns (f_emit g) f'"
  shows "took_all isDriver c (data # ps) (ms @ ns) f f'"
proof -
  obtain q qs where ps: "ps = q # qs" using assms(2) by (cases ps) (auto simp: took_all_def)
  have "in_replies isDriver c (length (data # ps)) =
      (if isDriver then counter_msg MessageBlockQuery c else counter_msg MessageBlockAck c)
       # in_replies isDriver (Suc c) (length ps)"
    by (simp add: in_replies_def ps upt_conv_Cons del: upt_Suc)
  then show ?thesis using assms unfolding took_def took_all_def by (auto simp: ps)
qed

lemma in_blocks_Inr:
  assumes "in_blocks ops isDriver f = (Inr u, f')" and "is_open (f_sink f)" and "due c (f_counter f)"
  shows "\<exists>ms ps. took_all isDriver c ps ms f f'"
  using assms
proof (induction "length (x_inbox (f_x f))" arbitrary: f c rule: less_induct)
  case less
  show ?case
  proof (cases "in_step ops isDriver f")
    case (Pair r g)
    then obtain fin where r: "r = Inr fin" using less.prems(1)
      by (cases r) (simp_all add: in_blocks.simps [of ops isDriver f])
    from in_step_Inr [OF Pair [unfolded r] less.prems(2,3)] obtain ms data where
      t: "took isDriver c data fin ms f g" by blast
    show ?thesis
    proof (cases fin)
      case True
      then have "g = f'" using less.prems(1) Pair r by (simp add: in_blocks.simps [of ops isDriver f])
      with t True have "took isDriver c data True ms f f'" by simp
      from took_all_fin [OF this less.prems(3)] show ?thesis by blast
    next
      case False
      then have "in_blocks ops isDriver (f_emit g) = (Inr u, f')"
        using less.prems(1) Pair r by (simp add: in_blocks.simps [of ops isDriver f])
      moreover have "is_open (f_sink (f_emit g))" "due (Suc c) (f_counter (f_emit g))"
        using t due_Suc [OF less.prems(3)] by (simp_all add: took_def)
      moreover have "length (x_inbox (f_x (f_emit g))) < length (x_inbox (f_x f))"
        using in_step_consumes [OF Pair [unfolded r]] by simp
      ultimately obtain ns ps where "took_all isDriver (Suc c) ps ns (f_emit g) f'"
        using less.hyps by blast
      with t False have "took_all isDriver c (data # ps) (ms @ ns) f f'" by (intro took_all_Cons [of _ _ _ _ _ g]) simp_all
      then show ?thesis by blast
    qed
  qed
qed

text \<open>Whatever a step returns, the destination is as it was.\<close>

definition untouched :: "'k inbound \<Rightarrow> 'k inbound \<Rightarrow> bool" where
  "untouched f f' \<longleftrightarrow> is_open (f_sink f') \<and> dest (f_sink f') = dest (f_sink f) \<and> (clean (f_sink f) \<longrightarrow> clean (f_sink f'))"

lemma untouched_trans: "untouched f g \<Longrightarrow> untouched g h \<Longrightarrow> untouched f h"
  by (simp add: untouched_def)

lemma untouched_sink: "is_open (f_sink f) \<Longrightarrow> f_sink g = f_sink f \<Longrightarrow> untouched f g"
  by (simp add: untouched_def)

lemma f_write_untouched:
  assumes "f_write ops data t f = (r, f')" and "is_open (f_sink f)"
  shows "untouched f f'"
  using assms unfolding f_write_def untouched_def
  by (auto simp: Let_def split: prod.splits sum.splits option.splits if_splits dest: write_open clean_write)

lemma f_link_sink: "f_link op f = (r, f') \<Longrightarrow> f_sink f' = f_sink f"
  by (auto simp: f_link_def split: prod.splits)

lemma in_step_untouched:
  assumes "in_step ops isDriver f = (r, f')" and "is_open (f_sink f)"
  shows "untouched f f'"
proof -
  have w: "untouched f f2" if "f_write ops d t f1 = (r, f2)" "f_sink f1 = f_sink f" for d t f1 f2 r
    using f_write_untouched [OF that(1)] that(2) assms(2) by (simp add: untouched_def)
  show ?thesis
    using assms
    by (auto simp: in_step_def drivingNext_def in_followingNext_def read_then_def f_nextCounter_def f_count_def
        pure_go_def Let_def untouched_sink
        split: if_splits prod.splits sum.splits dest!: f_link_sink w)
      (simp_all add: untouched_def)
qed

lemma in_blocks_untouched:
  assumes "in_blocks ops isDriver f = (r, f')" and "is_open (f_sink f)"
  shows "untouched f f'"
  using assms
proof (induction "length (x_inbox (f_x f))" arbitrary: f rule: less_induct)
  case less
  show ?case
  proof (cases "in_step ops isDriver f")
    case (Pair s g)
    have u: "untouched f g" by (rule in_step_untouched [OF Pair less.prems(2)])
    show ?thesis
    proof (cases "s = Inr False")
      case True
      then have l: "length (x_inbox (f_x (f_emit g))) < length (x_inbox (f_x f))"
        using in_step_consumes [of ops isDriver f False g] Pair by simp
      have "in_blocks ops isDriver (f_emit g) = (r, f')"
        using less.prems(1) Pair True by (simp add: in_blocks.simps [of ops isDriver f])
      from less.hyps [OF l this] u show ?thesis by (simp add: untouched_def)
    next
      case False
      then have "f' = g"
        using less.prems(1) Pair by (auto simp: in_blocks.simps [of ops isDriver f] split: sum.splits if_splits)
      with u show ?thesis by simp
    qed
  qed
qed

text \<open>The whole of \<open>process\<close>, for a flow that has taken nothing yet.\<close>

definition fresh :: "'k inbound \<Rightarrow> bool" where
  "fresh f \<longleftrightarrow> is_open (f_sink f) \<and> content (f_sink f) = [] \<and> clean (f_sink f) \<and> f_counter f = -1 \<and> f_transferred f = 0
     \<and> f_bytesLeft f = map_option uint (f_dataLength f)"

text \<open>The chunks \<open>ps\<close> came in \<open>ms\<close> and are now the content of the destination.\<close>

definition delivered :: "bytes list \<Rightarrow> wire_message list \<Rightarrow> 'k inbound \<Rightarrow> 'k inbound \<Rightarrow> bool" where
  "delivered ps ms f f' \<longleftrightarrow> x_inbox (f_x f) = ms @ x_inbox (f_x f') \<and> kept ms = chunk_msgs 0 ps \<and> proper_chunks ps
     \<and> dest (f_sink f') = Some (concat ps) \<and> f_transferred f' = word_of_nat (length (concat ps))
     \<and> f_dataLength f' = f_dataLength f \<and> (\<forall>l. f_dataLength f = Some l \<longrightarrow> int (length (concat ps)) = uint l)"

lemma f_close_fields:
  "f_close ops b f = (r, f') \<Longrightarrow> f_x f' = f_x f \<and> f_counter f' = f_counter f \<and> f_transferred f' = f_transferred f
    \<and> f_dataLength f' = f_dataLength f \<and> k_Close ops b (f_sink f) = (r, f_sink f')"
  by (auto simp: f_close_def split: prod.splits)

lemma in_blocks_fresh:
  assumes "in_blocks ops isDriver (f_emit f) = (Inr u, g)" and "fresh f"
  obtains ms ps where "took_all isDriver 0 ps ms f g"
proof -
  have "is_open (f_sink (f_emit f))" "due 0 (f_counter (f_emit f))"
    using assms(2) by (simp_all add: fresh_def due_0)
  from in_blocks_Inr [OF assms(1) this] show thesis
    using that by (auto simp: took_all_def)
qed

text \<open>After the last block: the destination is committed, then the peer is told.\<close>

lemma acknowledge_cases:
  assumes a: "read_then (f_link (SendBlockAckEOF (word_of_int (f_counter h)))) (\<lambda>_ f. (Inr (), f_finish f)) h = (r, f')"
    and del: "delivered ps ms f h" and c: "(word_of_int (f_counter h) :: u32) = word_of_nat (length ps - 1)"
  shows "delivered ps ms f f' \<and> f_sink f' = f_sink h
    \<and> (r = Inl (Fail BdxErrExchange)
       \<or> r = Inr () \<and> x_sent (f_x f') = x_sent (f_x h) @ [counter_msg MessageBlockAckEOF (length ps - 1)])"
proof -
  obtain v y where y: "SendBlockAckEOF (word_of_nat (length ps - 1)) (f_x h) = (v, y)" by fastforce
  have r: "r = v" "f' = (if v = Inr () then f_finish (h\<lparr>f_x := y\<rparr>) else h\<lparr>f_x := y\<rparr>)"
    using a y by (auto simp: read_then_def f_link_def c split: sum.splits)
  have s: "f_sink f' = f_sink h" "f_transferred f' = f_transferred h" "f_dataLength f' = f_dataLength h" "f_x f' = y"
    unfolding r(2) by (simp_all add: f_finish_def)
  have i: "x_inbox y = x_inbox (f_x h)" and e: "v = Inl (Fail BdxErrExchange) \<or> v = Inr ()"
    using y by (auto simp: SendBlockAckEOF_def m_send_def ex_Send_def split: if_splits)
  have "x_sent y = x_sent (f_x h) @ [counter_msg MessageBlockAckEOF (length ps - 1)]" if "v = Inr ()"
    using m_send_Inr [OF y [unfolded that SendBlockAckEOF_def]] by (simp add: counter_msg_def)
  then show ?thesis using del i e r(1) unfolding delivered_def s by auto
qed

lemma in_process_cases:
  assumes p: "in_process ops isDriver f = (r, f')" and f: "fresh f"
  obtains (complete) ms ps where "delivered ps ms f f'" and "\<not> is_open (f_sink f')" and "clean (f_sink f')"
      and "r = Inl (Fail BdxErrExchange) \<or> r = Inr () \<and> x_sent (f_x f') = x_sent (f_x f)
            @ in_replies isDriver 0 (length ps) @ [counter_msg MessageBlockAckEOF (length ps - 1)]"
  | (failed) e where "r = Inl e" and "dest (f_sink f') = dest (f_sink f)" and "clean (f_sink f')"
proof -
  have o: "is_open (f_sink (f_emit f))" using f by (simp add: fresh_def)
  obtain s g where g: "in_blocks ops isDriver (f_emit f) = (s, g)" by fastforce
  have u: "untouched f g" using in_blocks_untouched [OF g o] by (simp add: untouched_def)
  show thesis
  proof (cases s)
    case (Inl e)
    then have "r = Inl e" "f' = g" using p g by (simp_all add: in_process_def read_then_def)
    then show thesis using failed u f by (simp add: untouched_def fresh_def)
  next
    case s: (Inr v)
    from in_blocks_fresh [OF g [unfolded s] f] obtain ms ps where t: "took_all isDriver 0 ps ms f g" .
    obtain c h where h: "f_close ops True (f_emit g) = (c, h)" by fastforce
    have k: "k_Close ops True (f_sink g) = (c, f_sink h)" using f_close_fields [OF h] by simp
    have cl: "clean (f_sink h)" "\<not> is_open (f_sink h)"
      using clean_close [OF _ k] close_closes [OF k] u f by (simp_all add: untouched_def fresh_def)
    show thesis
    proof (cases c)
      case (Inl e)
      then have "r = Inl e" "f' = h" using p g s h by (simp_all add: in_process_def read_then_def)
      then show thesis using failed commit_failed [OF _ k [unfolded Inl]] u cl by (simp add: untouched_def)
    next
      case c: (Inr w)
      have d: "dest (f_sink h) = Some (concat ps)"
        using commit [OF _ k [unfolded c]] u t f by (simp add: untouched_def took_all_def fresh_def)
      have del: "delivered ps ms f h" and w: "(word_of_int (f_counter h) :: u32) = word_of_nat (length ps - 1)"
        using t d f f_close_fields [OF h] unfolding took_all_def delivered_def fresh_def by auto
      have "read_then (f_link (SendBlockAckEOF (word_of_int (f_counter h)))) (\<lambda>_ f. (Inr (), f_finish f)) h = (r, f')"
        using p g s h c by (simp add: in_process_def read_then_def)
      from acknowledge_cases [OF this del w] complete cl t f_close_fields [OF h] show thesis
        by (auto simp: took_all_def)
    qed
  qed
qed

lemma f_fail_sink:
  "dest (f_sink (f_fail ops e f)) = dest (f_sink f) \<and> \<not> is_open (f_sink (f_fail ops e f))
    \<and> (clean (f_sink f) \<longrightarrow> clean (f_sink (f_fail ops e f)))"
proof -
  obtain r k where k: "k_Close ops False (f_sink f) = (r, k)" by fastforce
  have "f_sink (f_fail ops e f) = k"
    using k by (cases e) (auto simp: f_fail_def f_close_def f_link_def Let_def split: option.splits prod.splits)
  with discard [OF k] close_closes [OF k] clean_close [OF _ k] show ?thesis by simp
qed

text \<open>
  A whole inbound transfer: \<open>first\<close> is the messages before the blocks, an accept or none.
\<close>

definition outcome :: "wire_message list \<Rightarrow> (bdx_error, result) go \<Rightarrow> 'k inbound \<Rightarrow> 'k inbound \<Rightarrow> bool" where
  "outcome first r f f' \<longleftrightarrow>
     (\<exists>ms ps. x_inbox (f_x f) = ms @ x_inbox (f_x f') \<and> kept ms = first @ chunk_msgs 0 ps \<and> proper_chunks ps
        \<and> dest (f_sink f') = Some (concat ps)
        \<and> (r = Inl (Fail BdxErrExchange)
           \<or> (\<exists>res. r = Inr res \<and> res_Transferred res = word_of_nat (length (concat ps))
                \<and> (\<forall>l. res_Length res = Some l \<longrightarrow> int (length (concat ps)) = uint l))))
     \<or> (\<exists>e. r = Inl e \<and> dest (f_sink f') = dest (f_sink f))"

lemma in_process_outcome:
  assumes p: "in_process ops isDriver g = (r, f')" and g: "fresh g"
    and x: "x_inbox (f_x f) = pre @ x_inbox (f_x g)" "kept pre = first" and d: "dest (f_sink g) = dest (f_sink f)"
  shows "outcome first (and_then r (\<lambda>_. Inr (res\<lparr>res_Length := f_dataLength g, res_Transferred := f_transferred f'\<rparr>))) f f'
    \<and> clean (f_sink f') \<and> (r = Inr () \<longrightarrow> \<not> is_open (f_sink f'))"
  using p g
proof (cases rule: in_process_cases)
  case (complete ms ps)
  then show ?thesis
    using x unfolding outcome_def delivered_def
    by - (rule conjI, rule disjI1, rule exI [of _ "pre @ ms"], rule exI [of _ ps], auto)
next
  case (failed e)
  then show ?thesis using d by (simp add: outcome_def)
qed

lemma SendReceiveInit_Inr:
  assumes "SendReceiveInit i x = (Inr accept, y)"
  shows "\<exists>ms m. x_inbox x = ms @ x_inbox y \<and> kept ms = [m] \<and> w_ProtocolID m = BdxProtocolID \<and> w_Opcode m = MessageReceiveAccept
    \<and> DecodeReceiveAccept (w_Payload m) = Inr accept"
proof -
  from assms obtain p z t v where z: "m_send MessageReceiveInit p x = (Inr (), z)"
    and n: "bdx_Next [MessageReceiveAccept] z = (Inr (t, v), y)" and a: "as_ReceiveAccept v = Inr accept"
    by (auto simp: SendReceiveInit_def read_then_Inr_iff pure_go_def)
  from n obtain pre m rest where m: "x_inbox z = pre @ m # rest" "list_all dropped pre" "w_ProtocolID m = BdxProtocolID"
    "w_Opcode m = MessageReceiveAccept" "bdx_Decode MessageReceiveAccept (w_Payload m) = Inr v" "y = z\<lparr>x_inbox := rest\<rparr>"
    unfolding bdx_Next_Inr_iff by auto
  have "DecodeReceiveAccept (w_Payload m) = Inr accept"
    using m(5) a by (auto simp: bdx_Decode_def and_then_Inr_iff as_ReceiveAccept_def)
  moreover have "kept (pre @ [m]) = [m]" using m(3) kept_dropped [OF m(2)] by (simp add: kept_def dropped_def)
  ultimately show ?thesis
    using m m_send_Inr [OF z] by (intro exI [of _ "pre @ [m]"] exI [of _ m]) simp
qed

lemma in_settle_Inr:
  assumes "in_settle accept f = (Inr res, g)" and "fresh f" and "f_dataLength f = None"
  shows "fresh g \<and> f_x g = f_x f \<and> f_sink g = f_sink f \<and> res_Length res = f_dataLength g"
  using assms by (auto simp: in_settle_def Let_def newError_def setDataLength_def fresh_def split: if_splits option.splits)

lemma in_run_outcome:
  assumes r: "in_run ops modes opts f = (r, f')" and f: "fresh f" "f_dataLength f = None"
  shows "(\<exists>m. w_Opcode m = MessageReceiveAccept \<and> outcome [m] r f f') \<and> clean (f_sink f')
    \<and> (\<forall>v. r = Inr v \<longrightarrow> \<not> is_open (f_sink f'))"
proof -
  have stop: ?thesis if "r = Inl e" "f_sink f' = f_sink f" for e
    using that f(1) by (auto simp: outcome_def fresh_def intro!: exI [of _ "bdx_msg MessageReceiveAccept []"])
      (simp add: bdx_msg_def)
  let ?init = "\<lambda>n. receive_init n modes (ro_TransferFileDesignator opts)"
  show ?thesis
  proof (cases "offered_block_size (f_x f) (ro_MaxBlockSize opts)")
    case (Inl e)
    with r show ?thesis by (intro stop [of e]) (simp_all add: in_run_def read_then_def)
  next
    case n: (Inr n)
    obtain s g where g: "f_link (SendReceiveInit (?init n)) f = (s, g)" by fastforce
    have gs: "f_sink g = f_sink f" by (rule f_link_sink [OF g])
    show ?thesis
    proof (cases s)
      case (Inl e)
      with r n g gs show ?thesis by (intro stop [of e]) (simp_all add: in_run_def read_then_def)
    next
      case s: (Inr accept)
      from g s obtain y where y: "SendReceiveInit (?init n) (f_x f) = (Inr accept, y)" "g = f\<lparr>f_x := y\<rparr>"
        by (auto simp: f_link_Inr)
      obtain ms m where ms: "x_inbox (f_x f) = ms @ x_inbox y" "kept ms = [m]" and m: "w_Opcode m = MessageReceiveAccept"
        using SendReceiveInit_Inr [OF y(1)] by blast
      have gf: "fresh g" "f_dataLength g = None" using f y(2) by (simp_all add: fresh_def)
      obtain t h where h: "in_settle accept g = (t, h)" by fastforce
      show ?thesis
      proof (cases t)
        case (Inl e)
        then have "f_sink h = f_sink g"
          using h by (auto simp: in_settle_def Let_def split: if_splits option.splits)
        with Inl r n g s h gs show ?thesis by (intro stop [of e]) (simp_all add: in_run_def read_then_def)
      next
        case t: (Inr res)
        note hs = in_settle_Inr [OF h [unfolded t] gf]
        obtain u k where k: "in_process ops (\<not> tc_SenderDrive (ra_TransferControl accept)) h = (u, k)" by fastforce
        have "r = and_then u (\<lambda>_. Inr (res\<lparr>res_Transferred := f_transferred k\<rparr>))" "f' = k"
          using r n g s h t k by (auto simp: in_run_def read_then_def and_then_def split: sum.splits)
        moreover have "res\<lparr>res_Length := f_dataLength h\<rparr> = res" using hs by (cases res) simp
        moreover have "outcome [m] (and_then u (\<lambda>_. Inr (res\<lparr>res_Length := f_dataLength h, res_Transferred := f_transferred k\<rparr>))) f k
            \<and> clean (f_sink k) \<and> (u = Inr () \<longrightarrow> \<not> is_open (f_sink k))"
          using hs gs ms y(2) by (intro in_process_outcome [OF k, of f ms]) simp_all
        ultimately show ?thesis using m by (auto simp: and_then_Inr_iff)
      qed
    qed
  qed
qed

end

interpretation file_sink: sink FileSink "\<lambda>s. case fs_tmp s of None \<Rightarrow> [] | Some c \<Rightarrow> c" fs_file "\<lambda>s. \<not> fs_closed s"
    "\<lambda>s. fs_closed s \<longrightarrow> fs_tmp s = None"
proof unfold_locales
  show "\<not> fs_closed k \<Longrightarrow> k_Write FileSink p k = (Inr n, k') \<Longrightarrow>
      (case fs_tmp k' of None \<Rightarrow> [] | Some c \<Rightarrow> c) = (case fs_tmp k of None \<Rightarrow> [] | Some c \<Rightarrow> c) @ p" for k p n k'
    by (auto simp: FileSink_def FileSink_Write_def CreateTemp_def pure_go_def read_then_def Let_def
        split: if_splits option.splits)
  show "\<not> fs_closed k \<Longrightarrow> k_Write FileSink p k = (r, k') \<Longrightarrow> \<not> fs_closed k' \<and> fs_file k' = fs_file k" for k p r k'
    by (auto simp: FileSink_def FileSink_Write_def CreateTemp_def pure_go_def read_then_def Let_def
        split: if_splits option.splits)
  show "\<not> fs_closed k \<Longrightarrow> k_Close FileSink True k = (Inr u, k') \<Longrightarrow>
      fs_file k' = Some (case fs_tmp k of None \<Rightarrow> [] | Some c \<Rightarrow> c)" for k u k'
    by (auto simp: FileSink_def FileSink_Close_def CreateTemp_def pure_go_def read_then_def Let_def
        split: if_splits option.splits)
  show "\<not> fs_closed k \<Longrightarrow> k_Close FileSink True k = (Inl e, k') \<Longrightarrow> fs_file k' = fs_file k" for k e k'
    by (auto simp: FileSink_def FileSink_Close_def CreateTemp_def pure_go_def read_then_def Let_def
        split: if_splits option.splits)
  show "k_Close FileSink b k = (r, k') \<Longrightarrow> \<not> \<not> fs_closed k'" for b k r k'
    by (auto simp: FileSink_def FileSink_Close_def CreateTemp_def pure_go_def read_then_def Let_def
        split: if_splits option.splits)
  show "fs_closed k \<longrightarrow> fs_tmp k = None \<Longrightarrow> k_Write FileSink p k = (r, k') \<Longrightarrow> fs_closed k' \<longrightarrow> fs_tmp k' = None" for k p r k'
    by (auto simp: FileSink_def FileSink_Write_def CreateTemp_def pure_go_def read_then_def Let_def
        split: if_splits option.splits)
  show "fs_closed k \<longrightarrow> fs_tmp k = None \<Longrightarrow> k_Close FileSink b k = (r, k') \<Longrightarrow> fs_closed k' \<longrightarrow> fs_tmp k' = None" for k b r k'
    by (auto simp: FileSink_def FileSink_Close_def CreateTemp_def pure_go_def read_then_def Let_def
        split: if_splits option.splits)
  show "k_Close FileSink False k = (r, k') \<Longrightarrow> fs_file k' = fs_file k" for k r k'
    by (auto simp: FileSink_def FileSink_Close_def CreateTemp_def pure_go_def read_then_def Let_def
        split: if_splits option.splits)
qed

section \<open>Properties\<close>

text \<open>
  C4. A file is received exactly or not at all. When \<open>Receive\<close> into a file ends, whatever the
  peer has sent, the temporary file is gone, and either an accept and then blocks numbered from
  0 up to a \<open>BlockEof\<close> have arrived, the file is the concatenation of their data, of the
  announced length if there was one, and \<open>Receive\<close> has returned that many bytes, or an error
  because the last acknowledgement could not be sent; or an error is returned and the file is
  what it was.
\<close>

theorem bdx_Receive_exact:
  assumes "bdx_Receive FileSink opts x = (r, Some f)" and "ro_Sink opts = Some k"
    and "\<not> fs_closed k" and "fs_tmp k = None"
  shows "fs_closed (f_sink f) \<and> fs_tmp (f_sink f) = None
    \<and> ((\<exists>m ms ps. x_inbox x = ms @ x_inbox (f_x f) \<and> kept ms = m # chunk_msgs 0 ps
          \<and> w_Opcode m = MessageReceiveAccept \<and> proper_chunks ps
          \<and> fs_file (f_sink f) = Some (concat ps)
          \<and> (r = Inl (Fail BdxErrExchange)
             \<or> (\<exists>res. r = Inr res \<and> res_Transferred res = word_of_nat (length (concat ps))
                  \<and> (\<forall>l. res_Length res = Some l \<longrightarrow> int (length (concat ps)) = uint l))))
       \<or> (\<exists>e. r = Inl e \<and> fs_file (f_sink f) = fs_file k))"
proof -
  let ?f0 = "new_inbound x k (no_hooks\<lparr>h_progress := ro_Progress opts\<rparr>)"
  obtain s g where g: "in_run FileSink (default_modes (ro_PreferredDriverModes opts)) opts ?f0 = (s, g)" by fastforce
  have "file_sink.fresh ?f0" "f_dataLength ?f0 = None"
    using assms(3,4) by (simp_all add: file_sink.fresh_def new_inbound_def)
  note o = file_sink.in_run_outcome [OF g this]
  have f: "r = s \<and> (case s of Inl e \<Rightarrow> f = f_fail FileSink e g | Inr res \<Rightarrow> f = g)"
    using assms(1,2) g by (auto simp: bdx_Receive_def split: sum.splits)
  have e: "x_inbox (f_x f) = x_inbox (f_x g)" "fs_file (f_sink f) = fs_file (f_sink g)"
    "fs_closed (f_sink f) \<and> fs_tmp (f_sink f) = None"
    using f o file_sink.f_fail_sink f_fail_inbox by (auto split: sum.splits)
  from o obtain m where m: "w_Opcode m = MessageReceiveAccept" "file_sink.outcome [m] r ?f0 g" using f by blast
  have x: "f_x ?f0 = x" "f_sink ?f0 = k" by (simp_all add: new_inbound_def)
  show ?thesis
    using m(2) m(1) e unfolding file_sink.outcome_def x by (elim disjE exE conjE) auto
qed

theorem bdx_Receive_exact_witness:
  "\<exists>r f. bdx_Receive FileSink sample_receive (sample_link []) = (r, Some f)
    \<and> fs_closed (f_sink f) \<and> fs_tmp (f_sink f) = None \<and> fs_file (f_sink f) = None"
proof -
  obtain r f where f: "bdx_Receive FileSink sample_receive (sample_link []) = (r, Some f)"
    by (cases "bdx_Receive FileSink sample_receive (sample_link [])")
      (auto simp: bdx_Receive_def sample_receive_def Let_def split: prod.splits sum.splits)
  then show ?thesis
    using bdx_Receive_exact [of sample_receive "sample_link []" r f sample_sink]
    by (auto simp: sample_receive_def sample_sink_def sample_link_def kept_def)
qed

end
