(* ===== verification/Bdx_Runs.thy ===== *)
theory Bdx_Runs
  imports Bdx_Inbound
begin

text \<open>
  Runs of the two flows against a peer that follows the protocol: what each side has sent after
  a given part of the other side's messages, and how it ends when it has them all. A run that
  waits for a message that is still to come is a run that ends in a failed \<open>Receive\<close>; what it
  has sent by then is what the peer can see.
\<close>

section \<open>Single calls\<close>

definition put_msg :: "wire_message \<Rightarrow> link \<Rightarrow> link" where
  "put_msg m x = x\<lparr>x_sends := x_sends x - 1, x_sent := x_sent x @ [m]\<rparr>"

lemma put_msg_fields [simp]:
  "x_inbox (put_msg m x) = x_inbox x" "x_sent (put_msg m x) = x_sent x @ [m]" "x_sends (put_msg m x) = x_sends x - 1"
  "x_maxPayload (put_msg m x) = x_maxPayload x" "x_cancelled (put_msg m x) = x_cancelled x"
  "x_disabled (put_msg m x) = x_disabled x"
  by (simp_all add: put_msg_def)

named_theorems run_simps \<open>calls with a known outcome\<close>

lemma m_send_put [run_simps]: "0 < x_sends x \<Longrightarrow> m_send t p x = (Inr (), put_msg (bdx_msg t p) x)"
  by (simp add: m_send_def ex_Send_def put_msg_def bdx_msg_def)

lemma bdx_Next_empty [run_simps]: "x_inbox x = [] \<Longrightarrow> bdx_Next ts x = (Inl (Fail BdxErrExchange), x)"
  by (simp add: bdx_Next_def)

lemma bdx_Next_first:
  "x_inbox x = bdx_msg t p # rest \<Longrightarrow> t \<in> set ts \<Longrightarrow> bdx_Decode t p = Inr v \<Longrightarrow>
    bdx_Next ts x = (Inr (t, v), x\<lparr>x_inbox := rest\<rparr>)"
  by (rule bdx_Next_msg [where pre = "[]"]) simp_all

lemma Decode_msgs [simp]:
  "bdx_Decode MessageBlock (Block_Encode b) = Inr (MBlock b)"
  "bdx_Decode MessageBlockEOF (Block_Encode b) = Inr (MBlock b)"
  "bdx_Decode MessageBlockQuery (CounterOnly_Encode c) = Inr (MCounterOnly c)"
  "bdx_Decode MessageBlockAck (CounterOnly_Encode c) = Inr (MCounterOnly c)"
  "bdx_Decode MessageBlockAckEOF (CounterOnly_Encode c) = Inr (MCounterOnly c)"
  by (simp_all add: bdx_Decode_def rd_simps)

lemma ReadBlock_first [run_simps]:
  "x_inbox x = block_msg MessageBlock c d # rest \<Longrightarrow> d \<noteq> [] \<Longrightarrow>
    ReadBlock x = (Inr (MessageBlock, \<lparr>b_BlockCounter = word_of_nat c, b_Data = d\<rparr>), x\<lparr>x_inbox := rest\<rparr>)"
  "x_inbox x = block_msg MessageBlockEOF c d # rest \<Longrightarrow>
    ReadBlock x = (Inr (MessageBlockEOF, \<lparr>b_BlockCounter = word_of_nat c, b_Data = d\<rparr>), x\<lparr>x_inbox := rest\<rparr>)"
  by (rule ReadBlock_Inr_iff [THEN iffD2], rule exI [of _ "[]"], rule exI [of _ rest], simp add: block_msg_def)+

lemma ReadBlockAck_first [run_simps]:
  "x_inbox x = counter_msg MessageBlockAck c # rest \<Longrightarrow>
    ReadBlockAck x = (Inr \<lparr>co_BlockCounter = word_of_nat c\<rparr>, x\<lparr>x_inbox := rest\<rparr>)"
  by (simp add: ReadBlockAck_def read_then_def counter_msg_def bdx_Next_first pure_go_def as_CounterOnly_def)

lemma ReadBlockAckEOF_first [run_simps]:
  "x_inbox x = counter_msg MessageBlockAckEOF c # rest \<Longrightarrow>
    ReadBlockAckEOF x = (Inr \<lparr>co_BlockCounter = word_of_nat c\<rparr>, x\<lparr>x_inbox := rest\<rparr>)"
  by (simp add: ReadBlockAckEOF_def read_then_def counter_msg_def bdx_Next_first pure_go_def as_CounterOnly_def)

lemma ReadBlockQuery_first [run_simps]:
  "x_inbox x = counter_msg MessageBlockQuery c # rest \<Longrightarrow>
    ReadBlockQuery x = (Inr (MessageBlockQuery, MCounterOnly \<lparr>co_BlockCounter = word_of_nat c\<rparr>), x\<lparr>x_inbox := rest\<rparr>)"
  by (simp add: ReadBlockQuery_def read_then_def counter_msg_def bdx_Next_first pure_go_def)

lemma Read_empty [run_simps]:
  "x_inbox x = [] \<Longrightarrow> ReadBlock x = (Inl (Fail BdxErrExchange), x)"
  "x_inbox x = [] \<Longrightarrow> ReadBlockAck x = (Inl (Fail BdxErrExchange), x)"
  "x_inbox x = [] \<Longrightarrow> ReadBlockAckEOF x = (Inl (Fail BdxErrExchange), x)"
  "x_inbox x = [] \<Longrightarrow> ReadBlockQuery x = (Inl (Fail BdxErrExchange), x)"
  by (simp_all add: ReadBlock_def ReadBlockAck_def ReadBlockAckEOF_def ReadBlockQuery_def read_then_def run_simps)

lemma Send_put [run_simps]:
  "0 < x_sends x \<Longrightarrow> SendBlock \<lparr>b_BlockCounter = word_of_nat c, b_Data = d\<rparr> x = (Inr (), put_msg (block_msg MessageBlock c d) x)"
  "0 < x_sends x \<Longrightarrow> SendBlockEOF \<lparr>b_BlockCounter = word_of_nat c, b_Data = d\<rparr> x = (Inr (), put_msg (block_msg MessageBlockEOF c d) x)"
  "0 < x_sends x \<Longrightarrow> SendBlockQuery (word_of_nat c) x = (Inr (), put_msg (counter_msg MessageBlockQuery c) x)"
  "0 < x_sends x \<Longrightarrow> SendBlockAck (word_of_nat c) x = (Inr (), put_msg (counter_msg MessageBlockAck c) x)"
  "0 < x_sends x \<Longrightarrow> SendBlockAckEOF (word_of_nat c) x = (Inr (), put_msg (counter_msg MessageBlockAckEOF c) x)"
  by (simp_all add: SendBlock_def SendBlockEOF_def SendBlockQuery_def SendBlockAck_def SendBlockAckEOF_def run_simps
      block_msg_def counter_msg_def)

section \<open>What a stream yields\<close>

text \<open>The blocks that successive calls of \<open>readDataChunk\<close> return, the last one marked as such.\<close>

fun yields :: "outbound \<Rightarrow> bytes list \<Rightarrow> bool" where
  "yields g [] = False"
| "yields g (p # ps) = (case readDataChunk g of
       (Inl e, _) \<Rightarrow> False
     | (Inr (d, fin), h) \<Rightarrow> d = p \<and> (if ps = [] then fin else \<not> fin \<and> yields h ps))"

text \<open>The part of the flow that \<open>readDataChunk\<close> reads and writes.\<close>

definition source :: "outbound \<Rightarrow> byte_stream \<times> int \<times> int option \<times> u64 option" where
  "source g = (g_data g, g_blockSize g, g_bytesLeft g, g_negotiatedLength g)"

definition chunk :: "byte_stream \<times> int \<times> int option \<times> u64 option \<Rightarrow>
    (bdx_error, bytes \<times> bool) go \<times> byte_stream \<times> int option" where
  "chunk s = (case s of (d, n, left, neg) \<Rightarrow>
     if n < 0 then (Inl Panic, d, left)
     else (case ReadFull (nat n) d of
         (Inl e, d) \<Rightarrow> (Inl e, d, left)
       | (Inr (data, fin), d) \<Rightarrow>
           if left = None \<or> neg = None then (Inr (data, fin), d, left)
           else let l = the left - int (length data) in
             (if l < 0 then newError StatusLengthTooLarge
              else if fin \<and> l > 0 then newError StatusLengthTooShort
              else Inr (data, fin \<or> l = 0), d, Some l)))"

lemma readDataChunk_chunk:
  "readDataChunk g = (case chunk (source g) of (r, d, l) \<Rightarrow> (r, g\<lparr>g_data := d, g_bytesLeft := l\<rparr>))"
proof -
  obtain r d where d: "ReadFull (nat (g_blockSize g)) (g_data g) = (r, d)" by fastforce
  show ?thesis
  proof (cases r)
    case (Inl e)
    with d show ?thesis by (simp add: readDataChunk_def chunk_def source_def read_then_def g_stream_def)
  next
    case (Inr v)
    obtain data fin where "v = (data, fin)" by fastforce
    with Inr d show ?thesis
      by (simp add: readDataChunk_def chunk_def source_def read_then_def g_stream_def Let_def)
  qed
qed

lemma readDataChunk_frame:
  "readDataChunk g = (r, h) \<Longrightarrow> h = g\<lparr>g_data := g_data h, g_bytesLeft := g_bytesLeft h\<rparr>"
  by (auto simp: readDataChunk_chunk split: prod.splits)

lemma readDataChunk_source:
  assumes "source g = source h" and "readDataChunk g = (r, g')"
  shows "\<exists>h'. readDataChunk h = (r, h') \<and> source h' = source g'"
proof -
  obtain d l where c: "chunk (source g) = (r, d, l)" "g' = g\<lparr>g_data := d, g_bytesLeft := l\<rparr>"
    using assms(2) by (auto simp: readDataChunk_chunk split: prod.splits)
  then show ?thesis using assms(1) by (simp add: readDataChunk_chunk) (simp add: source_def)
qed

lemma yields_source: "source g = source h \<Longrightarrow> yields g ps \<longleftrightarrow> yields h ps"
proof (induction ps arbitrary: g h)
  case (Cons p ps)
  obtain r g' where g: "readDataChunk g = (r, g')" by fastforce
  obtain h' where h: "readDataChunk h = (r, h')" "source h' = source g'"
    using readDataChunk_source [OF Cons.prems g] by blast
  show ?case using g h(1) Cons.IH [OF h(2)] by (cases r) auto
qed simp

lemma yields_Cons:
  assumes "yields g (p # ps)"
  obtains h where "readDataChunk g = (Inr (p, ps = []), h)" and "ps \<noteq> [] \<Longrightarrow> yields h ps"
    and "h = g\<lparr>g_data := g_data h, g_bytesLeft := g_bytesLeft h\<rparr>"
  using assms readDataChunk_frame by (auto split: prod.splits sum.splits if_splits)

text \<open>
  A stream that neither breaks nor disagrees with a negotiated length yields its bytes in
  blocks of which only the last may be empty or short.
\<close>

definition agrees :: "byte_stream \<times> int \<times> int option \<times> u64 option \<Rightarrow> bool" where
  "agrees s = (case s of (d, n, left, neg) \<Rightarrow> 0 < n \<and> \<not> st_broken d
     \<and> (left = None \<or> neg = None \<or> left = Some (int (length (st_rest d))) \<and> st_rest d \<noteq> []))"

lemma chunk_agrees:
  assumes "agrees (d, n, left, neg)"
  shows "chunk (d, n, left, neg) = (Inr (st_rest d, True), d\<lparr>st_rest := []\<rparr>, if left = None \<or> neg = None then left else Some 0)
    \<or> (chunk (d, n, left, neg) = (Inr (take (nat n) (st_rest d), False), d\<lparr>st_rest := drop (nat n) (st_rest d)\<rparr>,
           if left = None \<or> neg = None then left else Some (the left - n))
       \<and> nat n \<le> length (st_rest d)
       \<and> agrees (d\<lparr>st_rest := drop (nat n) (st_rest d)\<rparr>, n, if left = None \<or> neg = None then left else Some (the left - n), neg))"
proof (cases "left = None \<or> neg = None")
  case True
  then show ?thesis using assms by (auto simp: chunk_def agrees_def ReadFull_def)
next
  case False
  then have l: "left = Some (int (length (st_rest d)))" "neg \<noteq> None" "st_rest d \<noteq> []" "0 < n" "\<not> st_broken d"
    using assms by (auto simp: agrees_def)
  consider "nat n < length (st_rest d)" | "nat n = length (st_rest d)" | "length (st_rest d) < nat n" by linarith
  then show ?thesis
    using l by cases (auto simp: chunk_def agrees_def ReadFull_def Let_def newError_def)
qed

lemma yields_all:
  assumes "agrees (source g)"
  shows "\<exists>ps. yields g ps \<and> proper_chunks ps \<and> concat ps = st_rest (g_data g) \<and> length ps \<le> Suc (length (st_rest (g_data g)))"
  using assms
proof (induction "length (st_rest (g_data g))" arbitrary: g rule: less_induct)
  case less
  let ?d = "g_data g" and ?n = "g_blockSize g" and ?l = "g_bytesLeft g" and ?m = "g_negotiatedLength g"
  have s: "source g = (?d, ?n, ?l, ?m)" by (simp add: source_def)
  have n: "0 < ?n" using less.prems by (simp add: agrees_def s)
  from chunk_agrees [OF less.prems [unfolded s]] show ?case
  proof (elim disjE conjE)
    assume "chunk (?d, ?n, ?l, ?m) = (Inr (st_rest ?d, True), ?d\<lparr>st_rest := []\<rparr>, if ?l = None \<or> ?m = None then ?l else Some 0)"
    then have "yields g [st_rest ?d]" by (simp add: readDataChunk_chunk s)
    then show ?thesis by (intro exI [of _ "[st_rest ?d]"]) simp
  next
    let ?l' = "if ?l = None \<or> ?m = None then ?l else Some (the ?l - ?n)"
    assume c: "chunk (?d, ?n, ?l, ?m) = (Inr (take (nat ?n) (st_rest ?d), False), ?d\<lparr>st_rest := drop (nat ?n) (st_rest ?d)\<rparr>, ?l')"
      and le: "nat ?n \<le> length (st_rest ?d)" and a: "agrees (?d\<lparr>st_rest := drop (nat ?n) (st_rest ?d)\<rparr>, ?n, ?l', ?m)"
    define h where "h = g\<lparr>g_data := ?d\<lparr>st_rest := drop (nat ?n) (st_rest ?d)\<rparr>, g_bytesLeft := ?l'\<rparr>"
    have r: "readDataChunk g = (Inr (take (nat ?n) (st_rest ?d), False), h)" using c by (simp add: readDataChunk_chunk s h_def)
    have d: "st_rest (g_data h) = drop (nat ?n) (st_rest ?d)" by (simp add: h_def)
    have "agrees (source h)" using a by (simp add: source_def h_def)
    moreover have "length (st_rest (g_data h)) < length (st_rest ?d)" using le n by (simp add: d)
    ultimately obtain ps where ps: "yields h ps" "proper_chunks ps" "concat ps = st_rest (g_data h)"
      "length ps \<le> Suc (length (st_rest (g_data h)))" using less.hyps by blast
    have e: "ps \<noteq> []" using ps(2) by auto
    then obtain q qs where q: "ps = q # qs" by (cases ps) auto
    have t: "take (nat ?n) (st_rest ?d) \<noteq> []" using le n by auto
    have "yields g (take (nat ?n) (st_rest ?d) # ps)" using r ps(1) e by simp
    moreover have "proper_chunks (take (nat ?n) (st_rest ?d) # ps)" using t ps(2) q by simp
    moreover have "length ps \<le> length (st_rest ?d)" using ps(4) le n by (simp add: d)
    ultimately show ?thesis
      using ps(3) d by (intro exI [of _ "take (nat ?n) (st_rest ?d) # ps"]) simp
  qed
qed

section \<open>Runs of the outbound flow\<close>

text \<open>The flow after block \<open>c\<close> with data \<open>p\<close>, \<open>ps\<close> being what it still has to send.\<close>

definition sent_one :: "nat \<Rightarrow> bytes \<Rightarrow> bytes list \<Rightarrow> outbound \<Rightarrow> outbound \<Rightarrow> bool" where
  "sent_one c p ps g h \<longleftrightarrow> g_x h = put_msg (block_msg (if ps = [] then MessageBlockEOF else MessageBlock) c p) (g_x g)
     \<and> g_counter h = g_counter g \<and> g_transferred h = g_transferred g + word_of_nat (length p)
     \<and> (if ps = [] then g_finalCounter h = word_of_nat c else yields h ps)"

lemma send_chunk_run:
  assumes "yields g (p # ps)" and "0 < x_sends (g_x g)" and "\<not> x_cancelled (g_x g)"
  obtains h where "sent_one c p ps g h"
    and "send_chunk (word_of_nat c) after g = (if ps = [] then (Inr True, h) else after h)"
proof -
  from yields_Cons [OF assms(1)] obtain k where k: "readDataChunk g = (Inr (p, ps = []), k)" "ps \<noteq> [] \<Longrightarrow> yields k ps"
    "k = g\<lparr>g_data := g_data k, g_bytesLeft := g_bytesLeft k\<rparr>" by metis
  have kx: "g_x k = g_x g" "g_counter k = g_counter g" "g_transferred k = g_transferred g"
    by (subst k(3), simp)+
  define h where "h = (let h = g_count (length p) (k\<lparr>g_x := put_msg (block_msg (if ps = [] then MessageBlockEOF else MessageBlock) c p) (g_x g)\<rparr>)
    in if ps = [] then h\<lparr>g_finalCounter := word_of_nat c\<rparr> else h)"
  have y: "yields h ps" if "ps \<noteq> []"
    using k(2) [OF that] yields_source [of h k ps] by (simp add: h_def Let_def source_def g_count_def that)
  have "sent_one c p ps g h"
    using y kx by (simp add: sent_one_def h_def Let_def g_count_def)
  moreover have "send_chunk (word_of_nat c) after g = (if ps = [] then (Inr True, h) else after h)"
    using assms(2,3) kx k(1)
    by (simp add: send_chunk_def read_then_def sendBlockEOF_def g_link_def run_simps h_def Let_def)
  ultimately show thesis by (rule that)
qed

text \<open>
  One step of a flow that sends its own initiative: it ends with the last block, goes on with the
  acknowledgement of its block, and waits when there is none.
\<close>

lemma drivenNext_run:
  assumes y: "yields g (p # ps)" and s: "0 < x_sends (g_x g)" "\<not> x_cancelled (g_x g)" and d: "due c (g_counter g)"
  obtains h where "sent_one c p ps (g\<lparr>g_counter := next_counter (g_counter g)\<rparr>) h"
    and "ps = [] \<Longrightarrow> out_step True g = (Inr True, h)"
    and "ps \<noteq> [] \<Longrightarrow> x_inbox (g_x g) = [] \<Longrightarrow> out_step True g = (Inl (Fail BdxErrExchange), h)"
    and "\<And>rest. ps \<noteq> [] \<Longrightarrow> x_inbox (g_x g) = counter_msg MessageBlockAck c # rest \<Longrightarrow>
        out_step True g = (Inr False, h\<lparr>g_x := (g_x h)\<lparr>x_inbox := rest\<rparr>\<rparr>)"
proof -
  let ?g = "g\<lparr>g_counter := next_counter (g_counter g)\<rparr>"
  let ?after = "read_then (g_link ReadBlockAck) (\<lambda>ack.
       read_then (pure_go (validateCounter (co_BlockCounter ack) (word_of_nat c))) (\<lambda>_. pure_go (Inr False)))"
  have "yields ?g (p # ps)" using y by (subst yields_source [of ?g g]) (simp_all add: source_def del: yields.simps)
  moreover have "0 < x_sends (g_x ?g)" "\<not> x_cancelled (g_x ?g)" using s by simp_all
  ultimately obtain h where h: "sent_one c p ps ?g h"
      "send_chunk (word_of_nat c) ?after ?g = (if ps = [] then (Inr True, h) else ?after h)"
    by (rule send_chunk_run)
  have st: "out_step True g = (if ps = [] then (Inr True, h) else ?after h)"
    using h(2) due_word [OF d] by (simp add: out_step_def drivenNext_def g_nextCounter_def)
  have i: "x_inbox (g_x h) = x_inbox (g_x g)" using h(1) by (simp add: sent_one_def)
  show thesis
  proof (rule that [OF h(1)])
    show "ps = [] \<Longrightarrow> out_step True g = (Inr True, h)" by (simp add: st)
    show "ps \<noteq> [] \<Longrightarrow> x_inbox (g_x g) = [] \<Longrightarrow> out_step True g = (Inl (Fail BdxErrExchange), h)"
      by (simp add: st read_then_def g_link_def run_simps i)
    show "ps \<noteq> [] \<Longrightarrow> x_inbox (g_x g) = counter_msg MessageBlockAck c # rest \<Longrightarrow>
        out_step True g = (Inr False, h\<lparr>g_x := (g_x h)\<lparr>x_inbox := rest\<rparr>\<rparr>)" for rest
      by (simp add: st read_then_def g_link_def run_simps i pure_go_def validateCounter_def)
  qed
qed

lemma followingNext_run:
  assumes y: "yields g (p # ps)" and s: "0 < x_sends (g_x g)" "\<not> x_cancelled (g_x g)" and d: "due c (g_counter g)"
    and q: "x_inbox (g_x g) = counter_msg MessageBlockQuery c # rest"
  obtains h where "sent_one c p ps (g\<lparr>g_x := (g_x g)\<lparr>x_inbox := rest\<rparr>, g_counter := next_counter (g_counter g)\<rparr>) h"
    and "out_step False g = (Inr (ps = []), h)"
proof -
  let ?g = "g\<lparr>g_x := (g_x g)\<lparr>x_inbox := rest\<rparr>, g_counter := next_counter (g_counter g)\<rparr>"
  have "yields ?g (p # ps)" using y by (subst yields_source [of ?g g]) (simp_all add: source_def del: yields.simps)
  moreover have "0 < x_sends (g_x ?g)" "\<not> x_cancelled (g_x ?g)" using s by simp_all
  ultimately obtain h where h: "sent_one c p ps ?g h"
      "send_chunk (word_of_nat c) (pure_go (Inr False)) ?g = (if ps = [] then (Inr True, h) else pure_go (Inr False) h)"
    by (rule send_chunk_run)
  have "out_step False g = send_chunk (word_of_nat c) (pure_go (Inr False)) ?g"
    using due_word [OF d]
    by (simp add: out_step_def out_followingNext_def read_then_def g_link_def run_simps q pure_go_def counterOf_def
        g_nextCounter_def validateCounter_def Let_def)
  then have "out_step False g = (Inr (ps = []), h)" using h(2) by (simp add: pure_go_def)
  with h(1) show thesis by (rule that)
qed

lemma followingNext_wait:
  "x_inbox (g_x g) = [] \<Longrightarrow> out_step False g = (Inl (Fail BdxErrExchange), g)"
  by (simp add: out_step_def out_followingNext_def read_then_def g_link_def run_simps)

lemma g_emit_fields [simp]:
  "g_x (g_emit g) = g_x g" "g_counter (g_emit g) = g_counter g" "g_transferred (g_emit g) = g_transferred g"
  "g_finalCounter (g_emit g) = g_finalCounter g" "source (g_emit g) = source g"
  by (simp_all add: g_emit_def source_def)

definition out_done :: "nat \<Rightarrow> bytes list \<Rightarrow> wire_message list \<Rightarrow> outbound \<Rightarrow> outbound \<Rightarrow> bool" where
  "out_done c ps rest g h \<longleftrightarrow> x_sent (g_x h) = x_sent (g_x g) @ chunk_msgs c ps \<and> x_inbox (g_x h) = rest
     \<and> g_finalCounter h = word_of_nat (c + length ps - 1) \<and> g_transferred h = g_transferred g + word_of_nat (length (concat ps))
     \<and> x_disabled (g_x h) = x_disabled (g_x g)"

text \<open>A flow can send \<open>ps\<close> from block number \<open>c\<close>.\<close>

definition can_send :: "nat \<Rightarrow> bytes list \<Rightarrow> outbound \<Rightarrow> bool" where
  "can_send c ps g \<longleftrightarrow> yields g ps \<and> due c (g_counter g) \<and> length ps \<le> x_sends (g_x g) \<and> \<not> x_cancelled (g_x g)"

lemma can_send_Cons:
  assumes "can_send c (p # ps) g"
  shows "yields g (p # ps)" "0 < x_sends (g_x g)" "\<not> x_cancelled (g_x g)" "due c (g_counter g)"
  using assms unfolding can_send_def by (simp_all del: yields.simps)

text \<open>After the step of \<open>drivenNext_run\<close> or \<open>followingNext_run\<close>.\<close>

lemma can_send_next:
  assumes "can_send c (p # ps) g" and "ps \<noteq> []" and "sent_one c p ps g' h"
    and "g_counter g' = next_counter (g_counter g)" and "g_x g' = (g_x g)\<lparr>x_inbox := i\<rparr>"
  shows "can_send (Suc c) ps (g_emit (h\<lparr>g_x := (g_x h)\<lparr>x_inbox := r\<rparr>\<rparr>))"
proof -
  have "yields (g_emit (h\<lparr>g_x := (g_x h)\<lparr>x_inbox := r\<rparr>\<rparr>)) ps"
    using assms(2,3) by (subst yields_source [of _ h]) (simp_all add: sent_one_def source_def g_emit_def)
  then show ?thesis
    using assms due_Suc [of c "g_counter g"] by (auto simp: can_send_def sent_one_def simp del: yields.simps)
qed

lemma out_done_fin:
  "sent_one c p [] g' h \<Longrightarrow> g_x g' = (g_x g)\<lparr>x_inbox := rest\<rparr> \<Longrightarrow> g_transferred g' = g_transferred g \<Longrightarrow> out_done c [p] rest g h"
  by (simp add: sent_one_def out_done_def)

lemma out_done_Cons:
  assumes "sent_one c p ps g' h" and "ps \<noteq> []" and "g_x g' = (g_x g)\<lparr>x_inbox := i\<rparr>" and "g_transferred g' = g_transferred g"
    and "out_done (Suc c) ps rest (g_emit (h\<lparr>g_x := (g_x h)\<lparr>x_inbox := r\<rparr>\<rparr>)) k"
  shows "out_done c (p # ps) rest g k"
proof -
  obtain q qs where "ps = q # qs" using assms(2) by (cases ps) auto
  then show ?thesis using assms by (simp add: sent_one_def out_done_def)
qed

lemma out_driven_full:
  assumes "can_send c ps g" and "x_inbox (g_x g) = map (counter_msg MessageBlockAck) [c..<c + length ps - 1] @ rest"
  shows "\<exists>h. out_blocks True g = (Inr (), h) \<and> out_done c ps rest g h"
  using assms
proof (induction ps arbitrary: g c)
  case Nil
  then show ?case by (simp add: can_send_def)
next
  case (Cons p ps)
  obtain h where h: "sent_one c p ps (g\<lparr>g_counter := next_counter (g_counter g)\<rparr>) h"
    and 1: "ps = [] \<Longrightarrow> out_step True g = (Inr True, h)"
    and 2: "\<And>rest. ps \<noteq> [] \<Longrightarrow> x_inbox (g_x g) = counter_msg MessageBlockAck c # rest \<Longrightarrow>
        out_step True g = (Inr False, h\<lparr>g_x := (g_x h)\<lparr>x_inbox := rest\<rparr>\<rparr>)"
    using drivenNext_run [OF can_send_Cons [OF Cons.prems(1)]] by metis
  show ?case
  proof (cases "ps = []")
    case True
    with 1 h Cons.prems(2) out_done_fin [of c p "g\<lparr>g_counter := next_counter (g_counter g)\<rparr>" h rest g] show ?thesis
      by (auto simp: out_blocks.simps [of True g])
  next
    case False
    let ?r = "map (counter_msg MessageBlockAck) [Suc c..<Suc c + length ps - 1] @ rest"
    let ?k = "g_emit (h\<lparr>g_x := (g_x h)\<lparr>x_inbox := ?r\<rparr>\<rparr>)"
    have "x_inbox (g_x g) = counter_msg MessageBlockAck c # ?r"
      using Cons.prems(2) False by (simp add: upt_conv_Cons del: upt_Suc)
    from 2 [OF False this] have st: "out_blocks True g = out_blocks True ?k"
      by (simp add: out_blocks.simps [of True g])
    have "can_send (Suc c) ps ?k"
      by (rule can_send_next [OF Cons.prems(1) False h, of "x_inbox (g_x g)"]) simp_all
    moreover have "x_inbox (g_x ?k) = ?r" by simp
    ultimately obtain k where k: "out_blocks True ?k = (Inr (), k)" "out_done (Suc c) ps rest ?k k"
      using Cons.IH by blast
    have "out_done c (p # ps) rest g k" by (rule out_done_Cons [OF h False _ _ k(2), of "x_inbox (g_x g)"]) simp_all
    with st k(1) show ?thesis by simp
  qed
qed

lemma out_driven_partial:
  assumes "can_send c ps g" and "x_inbox (g_x g) = map (counter_msg MessageBlockAck) [c..<c + k]" and "Suc k < length ps"
  shows "\<exists>h. out_blocks True g = (Inl (Fail BdxErrExchange), h) \<and> x_sent (g_x h) = x_sent (g_x g) @ take (Suc k) (chunk_msgs c ps)"
  using assms
proof (induction ps arbitrary: g c k)
  case Nil
  then show ?case by simp
next
  case (Cons p ps)
  then obtain q qs where q: "ps = q # qs" by (cases ps) auto
  obtain h where h: "sent_one c p ps (g\<lparr>g_counter := next_counter (g_counter g)\<rparr>) h"
    and 1: "ps \<noteq> [] \<Longrightarrow> x_inbox (g_x g) = [] \<Longrightarrow> out_step True g = (Inl (Fail BdxErrExchange), h)"
    and 2: "\<And>rest. ps \<noteq> [] \<Longrightarrow> x_inbox (g_x g) = counter_msg MessageBlockAck c # rest \<Longrightarrow>
        out_step True g = (Inr False, h\<lparr>g_x := (g_x h)\<lparr>x_inbox := rest\<rparr>\<rparr>)"
    using drivenNext_run [OF can_send_Cons [OF Cons.prems(1)]] by metis
  show ?case
  proof (cases k)
    case 0
    with 1 Cons.prems(2) h show ?thesis
      by (auto simp: out_blocks.simps [of True g] q sent_one_def)
  next
    case (Suc j)
    let ?r = "map (counter_msg MessageBlockAck) [Suc c..<Suc c + j]"
    let ?k = "g_emit (h\<lparr>g_x := (g_x h)\<lparr>x_inbox := ?r\<rparr>\<rparr>)"
    have "x_inbox (g_x g) = counter_msg MessageBlockAck c # ?r"
      using Cons.prems(2) Suc by (simp add: upt_conv_Cons del: upt_Suc)
    from 2 [OF _ this] have st: "out_blocks True g = out_blocks True ?k"
      by (simp add: out_blocks.simps [of True g] q)
    have "can_send (Suc c) ps ?k"
      by (rule can_send_next [OF Cons.prems(1) _ h, of "x_inbox (g_x g)"]) (simp_all add: q)
    moreover have "x_inbox (g_x ?k) = ?r" by simp
    moreover have "Suc j < length ps" using Cons.prems(3) Suc by simp
    ultimately obtain k' where "out_blocks True ?k = (Inl (Fail BdxErrExchange), k')"
      "x_sent (g_x k') = x_sent (g_x ?k) @ take (Suc j) (chunk_msgs (Suc c) ps)"
      using Cons.IH by blast
    with st h Suc show ?thesis by (simp add: q sent_one_def)
  qed
qed

lemma same_inbox: "x_inbox (g_x h) = r \<Longrightarrow> h\<lparr>g_x := (g_x h)\<lparr>x_inbox := r\<rparr>\<rparr> = h"
  by auto

lemma out_following_full:
  assumes "can_send c ps g" and "x_inbox (g_x g) = map (counter_msg MessageBlockQuery) [c..<c + length ps] @ rest"
  shows "\<exists>h. out_blocks False g = (Inr (), h) \<and> out_done c ps rest g h"
  using assms
proof (induction ps arbitrary: g c)
  case Nil
  then show ?case by (simp add: can_send_def)
next
  case (Cons p ps)
  let ?r = "map (counter_msg MessageBlockQuery) [Suc c..<Suc c + length ps] @ rest"
  let ?g = "g\<lparr>g_x := (g_x g)\<lparr>x_inbox := ?r\<rparr>, g_counter := next_counter (g_counter g)\<rparr>"
  have "x_inbox (g_x g) = counter_msg MessageBlockQuery c # ?r"
    using Cons.prems(2) by (simp add: upt_conv_Cons del: upt_Suc)
  from followingNext_run [OF can_send_Cons [OF Cons.prems(1)] this]
  obtain h where h: "sent_one c p ps ?g h" and st: "out_step False g = (Inr (ps = []), h)" by metis
  have i: "x_inbox (g_x h) = ?r" using h by (simp add: sent_one_def)
  show ?case
  proof (cases "ps = []")
    case True
    with st h out_done_fin [of c p ?g h rest g] show ?thesis
      by (auto simp: out_blocks.simps [of False g])
  next
    case False
    let ?k = "g_emit (h\<lparr>g_x := (g_x h)\<lparr>x_inbox := ?r\<rparr>\<rparr>)"
    have e: "g_emit h = ?k" by (simp only: same_inbox [OF i])
    from st False have st: "out_blocks False g = out_blocks False ?k"
      unfolding e [symmetric] by (simp add: out_blocks.simps [of False g])
    have "can_send (Suc c) ps ?k"
      by (rule can_send_next [OF Cons.prems(1) False h, of ?r]) simp_all
    moreover have "x_inbox (g_x ?k) = ?r" by simp
    ultimately obtain k where k: "out_blocks False ?k = (Inr (), k)" "out_done (Suc c) ps rest ?k k"
      using Cons.IH by blast
    have "out_done c (p # ps) rest g k" by (rule out_done_Cons [OF h False _ _ k(2), of ?r]) simp_all
    with st k(1) show ?thesis by simp
  qed
qed

lemma out_following_partial:
  assumes "can_send c ps g" and "x_inbox (g_x g) = map (counter_msg MessageBlockQuery) [c..<c + k]" and "k < length ps"
  shows "\<exists>h. out_blocks False g = (Inl (Fail BdxErrExchange), h) \<and> x_sent (g_x h) = x_sent (g_x g) @ take k (chunk_msgs c ps)"
  using assms
proof (induction ps arbitrary: g c k)
  case Nil
  then show ?case by simp
next
  case (Cons p ps)
  show ?case
  proof (cases k)
    case 0
    with Cons.prems(2) show ?thesis by (simp add: out_blocks.simps [of False g] followingNext_wait)
  next
    case (Suc j)
    with Cons.prems(3) obtain q qs where q: "ps = q # qs" by (cases ps) auto
    let ?r = "map (counter_msg MessageBlockQuery) [Suc c..<Suc c + j]"
    let ?g = "g\<lparr>g_x := (g_x g)\<lparr>x_inbox := ?r\<rparr>, g_counter := next_counter (g_counter g)\<rparr>"
    have "x_inbox (g_x g) = counter_msg MessageBlockQuery c # ?r"
      using Cons.prems(2) Suc by (simp add: upt_conv_Cons del: upt_Suc)
    from followingNext_run [OF can_send_Cons [OF Cons.prems(1)] this]
    obtain h where h: "sent_one c p ps ?g h" and st: "out_step False g = (Inr (ps = []), h)" by metis
    let ?k = "g_emit (h\<lparr>g_x := (g_x h)\<lparr>x_inbox := ?r\<rparr>\<rparr>)"
    have "x_inbox (g_x h) = ?r" using h by (simp add: sent_one_def del: upt_Suc)
    then have e: "g_emit h = ?k" by (simp only: same_inbox)
    from st have st: "out_blocks False g = out_blocks False ?k"
      unfolding e [symmetric] by (simp add: out_blocks.simps [of False g] q)
    have "can_send (Suc c) ps ?k"
      by (rule can_send_next [OF Cons.prems(1) _ h, of ?r]) (simp_all add: q)
    moreover have "x_inbox (g_x ?k) = ?r" by simp
    moreover have "j < length ps" using Cons.prems(3) Suc by simp
    ultimately obtain k' where "out_blocks False ?k = (Inl (Fail BdxErrExchange), k')"
      "x_sent (g_x k') = x_sent (g_x ?k) @ take j (chunk_msgs (Suc c) ps)"
      using Cons.IH by blast
    with st h Suc show ?thesis by (simp add: q sent_one_def)
  qed
qed

end
