(* ===== verification/Bdx_In_Runs.thy ===== *)
theory Bdx_In_Runs
  imports Bdx_Runs
begin

text \<open>
  Runs of the inbound flow against a sender that follows the protocol, over any sink with room
  for the data.
\<close>

section \<open>Sinks with room\<close>

text \<open>What a receiver sends around block \<open>c\<close>, and around \<open>n\<close> blocks of which the last ends the transfer.\<close>

definition answer :: "bool \<Rightarrow> nat \<Rightarrow> bool \<Rightarrow> wire_message list" where
  "answer drv c fin = (if drv then [counter_msg MessageBlockQuery c] else if fin then [] else [counter_msg MessageBlockAck c])"

fun answers :: "bool \<Rightarrow> nat \<Rightarrow> nat \<Rightarrow> wire_message list" where
  "answers drv c 0 = []"
| "answers drv c (Suc n) = answer drv c (n = 0) @ answers drv (Suc c) n"

lemma answers_driving: "answers True c n = map (counter_msg MessageBlockQuery) [c..<c + n]"
  by (induction n arbitrary: c) (simp_all add: answer_def upt_conv_Cons del: upt_Suc)

lemma answers_following: "answers False c n = map (counter_msg MessageBlockAck) [c..<c + n - 1]"
proof (induction n arbitrary: c)
  case (Suc n)
  then show ?case by (cases n) (simp_all add: answer_def upt_conv_Cons del: upt_Suc)
qed simp

text \<open>What it has sent when it waits after \<open>n\<close> of them.\<close>

definition waiting :: "bool \<Rightarrow> nat \<Rightarrow> nat \<Rightarrow> wire_message list" where
  "waiting drv c n = (if drv then map (counter_msg MessageBlockQuery) [c..<Suc (c + n)] else map (counter_msg MessageBlockAck) [c..<c + n])"

lemma waiting_Suc: "waiting drv c (Suc n) = answer drv c False @ waiting drv (Suc c) n"
  by (simp add: waiting_def answer_def upt_conv_Cons del: upt_Suc)

text \<open>All that a receiver sends for the blocks \<open>ps\<close>.\<close>

definition reply_log :: "bool \<Rightarrow> bytes list \<Rightarrow> wire_message list" where
  "reply_log drv ps = answers drv 0 (length ps) @ [counter_msg MessageBlockAckEOF (length ps - 1)]"

lemma waiting_reply_log: "k < length ps \<Longrightarrow> waiting drv 0 k = take (if drv then Suc k else k) (reply_log drv ps)"
  by (simp add: waiting_def reply_log_def answers_driving answers_following take_map del: upt_Suc)

lemma length_reply_log: "ps \<noteq> [] \<Longrightarrow> length (reply_log drv ps) = (if drv then Suc (length ps) else length ps)"
  by (cases drv) (simp_all add: reply_log_def answers_driving answers_following)

lemma length_chunk_msgs [simp]: "length (chunk_msgs c ps) = length ps"
  by (induction c ps rule: chunk_msgs.induct) simp_all

locale storing_sink = sink ops content dest is_open clean
  for ops :: "'k sink_ops" and content :: "'k \<Rightarrow> bytes" and dest :: "'k \<Rightarrow> bytes option"
    and is_open :: "'k \<Rightarrow> bool" and clean :: "'k \<Rightarrow> bool" +
  fixes room :: "'k \<Rightarrow> nat \<Rightarrow> bool"
  assumes room_open: "room k n \<Longrightarrow> is_open k"
    and room_write: "room k (length p + n) \<Longrightarrow> \<exists>i k'. k_Write ops p k = (Inr i, k') \<and> room k' n"
    and room_commit: "room k 0 \<Longrightarrow> \<exists>k'. k_Close ops True k = (Inr (), k')"
begin

definition can_take :: "nat \<Rightarrow> bytes list \<Rightarrow> 'k inbound \<Rightarrow> bool" where
  "can_take c ps f \<longleftrightarrow> room (f_sink f) (length (concat ps)) \<and> due c (f_counter f) \<and> proper_chunks ps
     \<and> (f_bytesLeft f = None \<or> f_bytesLeft f = Some (int (length (concat ps)))) \<and> length ps \<le> x_sends (f_x f)"

text \<open>The flow after a step.\<close>

definition took_one :: "bool \<Rightarrow> nat \<Rightarrow> bytes \<Rightarrow> bytes list \<Rightarrow> wire_message list \<Rightarrow> 'k inbound \<Rightarrow> 'k inbound \<Rightarrow> bool" where
  "took_one drv c p ps rest f h \<longleftrightarrow> x_inbox (f_x h) = rest \<and> x_sent (f_x h) = x_sent (f_x f) @ answer drv c (ps = [])
     \<and> x_sends (f_x f) \<le> Suc (x_sends (f_x h)) \<and> f_counter h = next_counter (f_counter f)
     \<and> f_transferred h = f_transferred f + word_of_nat (length p)
     \<and> f_bytesLeft h = map_option (\<lambda>l. l - int (length p)) (f_bytesLeft f)
     \<and> room (f_sink h) (length (concat ps)) \<and> content (f_sink h) = content (f_sink f) @ p"

lemma write_run:
  assumes "room (f_sink f) (length p + n)" and "t = MessageBlockEOF \<Longrightarrow> f_bytesLeft f = None \<or> f_bytesLeft f = Some (int (length p))"
  shows "\<exists>k. f_write ops p t f = (Inr (t = MessageBlockEOF),
        f\<lparr>f_sink := k, f_bytesLeft := map_option (\<lambda>l. l - int (length p)) (f_bytesLeft f)\<rparr>)
      \<and> room k n \<and> content k = content (f_sink f) @ p"
proof -
  obtain i k where k: "k_Write ops p (f_sink f) = (Inr i, k)" "room k n" using room_write [OF assms(1)] by blast
  then have "content k = content (f_sink f) @ p" using write_ok [OF room_open [OF assms(1)]] by blast
  then show ?thesis using k assms(2) by (intro exI [of _ k]) (auto simp: f_write_def Let_def)
qed

lemma step_run:
  assumes "can_take c (p # ps) f"
    and "x_inbox (f_x f) = block_msg (if ps = [] then MessageBlockEOF else MessageBlock) c p # rest"
  shows "\<exists>h. in_step ops drv f = (Inr (ps = []), h) \<and> took_one drv c p ps rest f h"
proof -
  let ?t = "if ps = [] then MessageBlockEOF else MessageBlock"
  let ?b = "\<lparr>b_BlockCounter = word_of_nat c, b_Data = p\<rparr> :: block"
  have a: "room (f_sink f) (length p + length (concat ps))" "due c (f_counter f)" "0 < x_sends (f_x f)"
      "ps = [] \<Longrightarrow> f_bytesLeft f = None \<or> f_bytesLeft f = Some (int (length p))" "ps \<noteq> [] \<Longrightarrow> p \<noteq> []"
    using assms(1) by (cases ps; auto simp: can_take_def)+
  have w: "word_of_int (next_counter (f_counter f)) = (word_of_nat c :: u32)" using due_word [OF a(2)] .
  have e: "ps = [] \<longleftrightarrow> ?t = MessageBlockEOF" by simp
  have rd: "x_inbox x = block_msg ?t c p # rest \<Longrightarrow> ReadBlock x = (Inr (?t, ?b), x\<lparr>x_inbox := rest\<rparr>)" for x
    using a(5) by (auto simp: run_simps)
  show ?thesis
  proof (cases drv)
    case True
    let ?f = "f_count p (f\<lparr>f_counter := next_counter (f_counter f), f_x := (put_msg (counter_msg MessageBlockQuery c) (f_x f))\<lparr>x_inbox := rest\<rparr>\<rparr>)"
    have st: "in_step ops drv f = f_write ops p ?t ?f"
      using rd [of "put_msg (counter_msg MessageBlockQuery c) (f_x f)"] assms(2) a(3) True
      by (simp add: in_step_def drivingNext_def f_nextCounter_def Let_def w read_then_def f_link_def run_simps del: if_split)
    have "room (f_sink ?f) (length p + length (concat ps))"
      "?t = MessageBlockEOF \<Longrightarrow> f_bytesLeft ?f = None \<or> f_bytesLeft ?f = Some (int (length p))"
      using a(1,4) by (auto simp: f_count_def split: if_splits)
    from write_run [OF this] obtain k where "f_write ops p ?t ?f = (Inr (?t = MessageBlockEOF),
        ?f\<lparr>f_sink := k, f_bytesLeft := map_option (\<lambda>l. l - int (length p)) (f_bytesLeft ?f)\<rparr>)"
      "room k (length (concat ps))" "content k = content (f_sink ?f) @ p" by blast
    then show ?thesis using st True unfolding e [symmetric]
      by (simp add: took_one_def answer_def f_count_def)
  next
    case False
    let ?f = "f_count p (f\<lparr>f_x := (f_x f)\<lparr>x_inbox := rest\<rparr>, f_counter := next_counter (f_counter f)\<rparr>)"
    have st: "in_step ops drv f = read_then (f_write ops p ?t) (\<lambda>fin. if fin then pure_go (Inr True)
        else read_then (f_link (SendBlockAck (word_of_nat c))) (\<lambda>_. pure_go (Inr False))) ?f"
      using rd [of "f_x f"] assms(2) False
      by (simp add: in_step_def in_followingNext_def read_then_def [of "f_link ReadBlock"] f_link_def [of ReadBlock]
          f_nextCounter_def Let_def w del: if_split cong del: if_weak_cong)
    have "room (f_sink ?f) (length p + length (concat ps))"
      "?t = MessageBlockEOF \<Longrightarrow> f_bytesLeft ?f = None \<or> f_bytesLeft ?f = Some (int (length p))"
      using a(1,4) by (auto simp: f_count_def split: if_splits)
    from write_run [OF this] obtain k where "f_write ops p ?t ?f = (Inr (?t = MessageBlockEOF),
        ?f\<lparr>f_sink := k, f_bytesLeft := map_option (\<lambda>l. l - int (length p)) (f_bytesLeft ?f)\<rparr>)"
      "room k (length (concat ps))" "content k = content (f_sink ?f) @ p" by blast
    then show ?thesis using st False a(3) unfolding e [symmetric]
      by (cases "ps = []") (simp_all add: read_then_def f_link_def pure_go_def run_simps took_one_def answer_def f_count_def)
  qed
qed

lemma can_take_next:
  assumes "can_take c (p # ps) f" and "ps \<noteq> []" and "took_one drv c p ps rest f h"
  shows "can_take (Suc c) ps (f_emit h)"
proof -
  obtain q qs where "ps = q # qs" using assms(2) by (cases ps) auto
  then show ?thesis using assms due_Suc [of c "f_counter f"]
    by (auto simp: can_take_def took_one_def f_emit_def)
qed

definition in_done :: "bool \<Rightarrow> nat \<Rightarrow> bytes list \<Rightarrow> wire_message list \<Rightarrow> 'k inbound \<Rightarrow> 'k inbound \<Rightarrow> bool" where
  "in_done drv c ps rest f h \<longleftrightarrow> x_inbox (f_x h) = rest \<and> x_sent (f_x h) = x_sent (f_x f) @ answers drv c (length ps)
     \<and> x_sends (f_x f) \<le> length ps + x_sends (f_x h) \<and> word_of_int (f_counter h) = (word_of_nat (c + length ps - 1) :: u32)
     \<and> f_transferred h = f_transferred f + word_of_nat (length (concat ps))
     \<and> room (f_sink h) 0 \<and> content (f_sink h) = content (f_sink f) @ concat ps"

lemma blocks_full:
  assumes "can_take c ps f" and "x_inbox (f_x f) = chunk_msgs c ps @ rest"
  shows "\<exists>h. in_blocks ops drv f = (Inr (), h) \<and> in_done drv c ps rest f h"
  using assms
proof (induction ps arbitrary: f c)
  case Nil
  then show ?case by (simp add: can_take_def)
next
  case (Cons p ps)
  have "x_inbox (f_x f) = block_msg (if ps = [] then MessageBlockEOF else MessageBlock) c p # (if ps = [] then rest else chunk_msgs (Suc c) ps @ rest)"
    using Cons.prems(2) by (cases ps) simp_all
  from step_run [OF Cons.prems(1) this, of drv] obtain h where st: "in_step ops drv f = (Inr (ps = []), h)"
    and h: "took_one drv c p ps (if ps = [] then rest else chunk_msgs (Suc c) ps @ rest) f h" by blast
  show ?case
  proof (cases "ps = []")
    case True
    have "due c (f_counter f)" using Cons.prems(1) by (simp add: can_take_def)
    then show ?thesis using st h True due_word
      by (auto simp: in_blocks.simps [of ops drv f] took_one_def in_done_def)
  next
    case False
    then obtain q qs where q: "ps = q # qs" by (cases ps) auto
    have "can_take (Suc c) ps (f_emit h)" using can_take_next [OF Cons.prems(1) False h] .
    moreover have "x_inbox (f_x (f_emit h)) = chunk_msgs (Suc c) ps @ rest" using h False by (simp add: took_one_def f_emit_def)
    ultimately obtain k where k: "in_blocks ops drv (f_emit h) = (Inr (), k)" "in_done drv (Suc c) ps rest (f_emit h) k"
      using Cons.IH by blast
    have "in_done drv c (p # ps) rest f k" using k(2) h by (auto simp: in_done_def took_one_def f_emit_fields q)
    with st k(1) False show ?thesis by (simp add: in_blocks.simps [of ops drv f])
  qed
qed

lemma step_wait:
  assumes "can_take c (p # ps) f" and "x_inbox (f_x f) = []"
  shows "\<exists>h. in_step ops drv f = (Inl (Fail BdxErrExchange), h) \<and> x_sent (f_x h) = x_sent (f_x f) @ waiting drv c 0"
proof -
  have "0 < x_sends (f_x f)" "due c (f_counter f)" using assms(1) by (auto simp: can_take_def)
  then show ?thesis using assms(2) due_word [of c "f_counter f"]
    by (simp add: in_step_def drivingNext_def in_followingNext_def f_nextCounter_def Let_def read_then_def f_link_def
        run_simps waiting_def)
qed

lemma blocks_partial:
  assumes "can_take c ps f" and "x_inbox (f_x f) = take k (chunk_msgs c ps)" and "k < length ps"
  shows "\<exists>h. in_blocks ops drv f = (Inl (Fail BdxErrExchange), h) \<and> x_sent (f_x h) = x_sent (f_x f) @ waiting drv c k"
  using assms
proof (induction ps arbitrary: f c k)
  case Nil
  then show ?case by simp
next
  case (Cons p ps)
  show ?case
  proof (cases k)
    case 0
    with Cons.prems(2) step_wait [OF Cons.prems(1), of drv] show ?thesis by (auto simp: in_blocks.simps [of ops drv f])
  next
    case (Suc j)
    with Cons.prems(3) have ps: "ps \<noteq> []" and j: "j < length ps" by auto
    then obtain q qs where q: "ps = q # qs" by (cases ps) auto
    have "x_inbox (f_x f) = block_msg (if ps = [] then MessageBlockEOF else MessageBlock) c p # take j (chunk_msgs (Suc c) ps)"
      using Cons.prems(2) Suc by (simp add: q)
    from step_run [OF Cons.prems(1) this, of drv] obtain h where st: "in_step ops drv f = (Inr (ps = []), h)"
      and h: "took_one drv c p ps (take j (chunk_msgs (Suc c) ps)) f h" by blast
    have "can_take (Suc c) ps (f_emit h)" using can_take_next [OF Cons.prems(1) ps h] .
    moreover have "x_inbox (f_x (f_emit h)) = take j (chunk_msgs (Suc c) ps)" using h by (simp add: took_one_def f_emit_def)
    ultimately obtain i where "in_blocks ops drv (f_emit h) = (Inl (Fail BdxErrExchange), i)"
      "x_sent (f_x i) = x_sent (f_x (f_emit h)) @ waiting drv (Suc c) j"
      using Cons.IH j by blast
    with st h ps show ?thesis
      by (simp add: in_blocks.simps [of ops drv f] took_one_def f_emit_def Suc waiting_Suc)
  qed
qed

text \<open>
  The whole flow. When it has received the first \<open>k\<close> blocks it has sent \<open>k\<close> messages, one
  more when it drives; with all of them it ends, and the data is stored.
\<close>

lemma process_run:
  assumes "can_take 0 ps f" and "length ps < x_sends (f_x f)" and "x_inbox (f_x f) = take k (chunk_msgs 0 ps)"
  shows "\<exists>r h. in_process ops drv f = (r, h)
    \<and> x_sent (f_x h) = x_sent (f_x f) @ take (if drv then Suc k else k) (reply_log drv ps)
    \<and> (k < length ps \<longrightarrow> r = Inl (Fail BdxErrExchange))
    \<and> (length ps \<le> k \<longrightarrow> r = Inr () \<and> f_transferred h = f_transferred f + word_of_nat (length (concat ps))
         \<and> dest (f_sink h) = Some (content (f_sink f) @ concat ps))"
proof (cases "k < length ps")
  case True
  have "can_take 0 ps (f_emit f)" "x_inbox (f_x (f_emit f)) = take k (chunk_msgs 0 ps)"
    using assms(1,3) by (simp_all add: can_take_def)
  from blocks_partial [OF this True, of drv] obtain h where "in_blocks ops drv (f_emit f) = (Inl (Fail BdxErrExchange), h)"
    "x_sent (f_x h) = x_sent (f_x f) @ waiting drv 0 k" by auto
  then have "in_process ops drv f = (Inl (Fail BdxErrExchange), h)"
    "x_sent (f_x h) = x_sent (f_x f) @ take (if drv then Suc k else k) (reply_log drv ps)"
    using waiting_reply_log [OF True] by (simp_all add: in_process_def read_then_def)
  then show ?thesis using True by (metis not_le)
next
  case False
  have "can_take 0 ps (f_emit f)" "x_inbox (f_x (f_emit f)) = chunk_msgs 0 ps @ []"
    using assms(1,3) False by (simp_all add: can_take_def)
  from blocks_full [OF this, of drv] obtain h where h: "in_blocks ops drv (f_emit f) = (Inr (), h)"
    "in_done drv 0 ps [] (f_emit f) h" by blast
  obtain k' where k: "k_Close ops True (f_sink h) = (Inr (), k')"
    using h(2) room_commit [of "f_sink h"] by (auto simp: in_done_def)
  have d: "dest k' = Some (content (f_sink h))"
    using h(2) k room_open [of "f_sink h" 0] commit [of "f_sink h" "()" k'] by (auto simp: in_done_def)
  have s: "0 < x_sends (f_x h)" using h(2) assms(2) by (simp add: in_done_def)
  have fin: "f_x (f_finish i) = f_x i" "f_sink (f_finish i) = f_sink i" "f_transferred (f_finish i) = f_transferred i" for i :: "'k inbound"
    by (simp_all add: f_finish_def)
  have w: "word_of_int (f_counter h) = (word_of_nat (length ps - 1) :: u32)" using h(2) by (simp add: in_done_def)
  have "ps \<noteq> []" using assms(1) by (auto simp: can_take_def)
  then have l: "take (if drv then Suc k else k) (reply_log drv ps) = reply_log drv ps"
    using False by (intro take_all) (simp add: length_reply_log)
  let ?h = "f_finish ((f_emit h)\<lparr>f_sink := k', f_x := put_msg (counter_msg MessageBlockAckEOF (length ps - 1)) (f_x h)\<rparr>)"
  have "in_process ops drv f = (Inr (), ?h)"
    using h(1) k s by (simp add: in_process_def read_then_def f_close_def f_link_def w run_simps)
  moreover have "x_sent (f_x ?h) = x_sent (f_x f) @ reply_log drv ps" "f_transferred ?h = f_transferred f + word_of_nat (length (concat ps))"
      "dest (f_sink ?h) = Some (content (f_sink f) @ concat ps)"
    using h(2) d by (simp_all add: fin in_done_def reply_log_def)
  ultimately show ?thesis using False unfolding l by blast
qed

end

text \<open>The file sink while the file system has room and no call fails.\<close>

definition has_room :: "file_sink \<Rightarrow> nat \<Rightarrow> bool" where
  "has_room k n \<longleftrightarrow> \<not> fs_closed k \<and> n \<le> fs_space k \<and> fs_create_ok k \<and> fs_sync_ok k \<and> fs_close_ok k \<and> fs_rename_ok k"

interpretation file_store: storing_sink FileSink "\<lambda>s. case fs_tmp s of None \<Rightarrow> [] | Some c \<Rightarrow> c" fs_file "\<lambda>s. \<not> fs_closed s"
    "\<lambda>s. fs_closed s \<longrightarrow> fs_tmp s = None" has_room
proof unfold_locales
  show "has_room k n \<Longrightarrow> \<not> fs_closed k" for k n by (simp add: has_room_def)
  show "has_room k (length p + n) \<Longrightarrow> \<exists>i k'. k_Write FileSink p k = (Inr i, k') \<and> has_room k' n" for k p n
    by (auto simp: has_room_def FileSink_def FileSink_Write_def CreateTemp_def pure_go_def read_then_def Let_def)
  show "has_room k 0 \<Longrightarrow> \<exists>k'. k_Close FileSink True k = (Inr (), k')" for k
    by (auto simp: has_room_def FileSink_def FileSink_Close_def CreateTemp_def pure_go_def read_then_def Let_def)
qed

end
