(* ===== verification/Bdx_Dialogue.thy ===== *)
theory Bdx_Dialogue
  imports Bdx_In_Runs
begin

text \<open>
  Two nodes on one exchange: what an initiator and a responder of this implementation send each
  other, and how a transfer between them ends.
\<close>

section \<open>The outbound flow against the replies of a receiver\<close>

lemma out_process_end:
  assumes "out_blocks drv (g_emit g) = (Inr (), h)" and "out_done 0 ps rest (g_emit g) h" and "\<not> x_disabled (g_x g)"
    and "rest = [] \<or> rest = [counter_msg MessageBlockAckEOF (length ps - 1)]"
  shows "\<exists>r k. out_process drv g = (r, k) \<and> x_sent (g_x k) = x_sent (g_x g) @ chunk_msgs 0 ps
    \<and> (rest = [] \<longrightarrow> r = Inl (Fail BdxErrExchange))
    \<and> (rest \<noteq> [] \<longrightarrow> r = Inr () \<and> g_transferred k = g_transferred g + word_of_nat (length (concat ps)))"
proof -
  have fin: "g_x (g_finish i) = g_x i" "g_transferred (g_finish i) = g_transferred i" for i
    by (simp_all add: g_finish_def)
  have "x_inbox (g_x h) = rest" "g_finalCounter h = word_of_nat (length ps - 1)" "\<not> x_disabled (g_x h)"
    using assms(2,3) by (simp_all add: out_done_def)
  then have "(rest = [] \<longrightarrow> out_process drv g = (Inl (Fail BdxErrExchange), g_emit h))
      \<and> (rest \<noteq> [] \<longrightarrow> out_process drv g = (Inr (), g_finish ((g_emit h)\<lparr>g_x := (g_x h)\<lparr>x_inbox := []\<rparr>\<rparr>)))"
    using assms(1,4)
    by (auto simp: out_process_def read_then_def g_link_def run_simps pure_go_def validateCounter_def)
  moreover have "x_sent (g_x h) = x_sent (g_x g) @ chunk_msgs 0 ps"
    "g_transferred h = g_transferred g + word_of_nat (length (concat ps))"
    using assms(2) by (simp_all add: out_done_def)
  ultimately show ?thesis by (cases "rest = []") (simp_all add: fin)
qed

lemma can_send_emit: "can_send c ps g \<Longrightarrow> can_send c ps (g_emit g)"
  using yields_source [of "g_emit g" g ps] by (simp add: can_send_def)

text \<open>
  When it has received the first \<open>j\<close> replies it has sent \<open>j\<close> blocks, one more when it drives; with
  all of them it ends.
\<close>

lemma out_process_run:
  assumes "can_send 0 ps g" and "\<not> x_disabled (g_x g)" and "x_inbox (g_x g) = take j (reply_log (\<not> drv) ps)"
  shows "\<exists>r h. out_process drv g = (r, h)
    \<and> x_sent (g_x h) = x_sent (g_x g) @ take (if drv then Suc j else j) (chunk_msgs 0 ps)
    \<and> (j < length (reply_log (\<not> drv) ps) \<longrightarrow> r = Inl (Fail BdxErrExchange))
    \<and> (length (reply_log (\<not> drv) ps) \<le> j \<longrightarrow> r = Inr () \<and> g_transferred h = g_transferred g + word_of_nat (length (concat ps)))"
proof -
  let ?n = "length ps" and ?i = "x_inbox (g_x (g_emit g))" and ?eof = "counter_msg MessageBlockAckEOF (length ps - 1)"
  have c: "can_send 0 ps (g_emit g)" using assms(1) by (rule can_send_emit)
  have ps: "ps \<noteq> []" using assms(1) by (auto simp: can_send_def)
  have part: ?thesis if b: "out_blocks drv (g_emit g) = (Inl (Fail BdxErrExchange), h)"
      "x_sent (g_x h) = x_sent (g_x g) @ take (if drv then Suc j else j) (chunk_msgs 0 ps)" and "j < length (reply_log (\<not> drv) ps)" for h
  proof -
    have "out_process drv g = (Inl (Fail BdxErrExchange), h)" using b(1) by (simp add: out_process_def read_then_def)
    with that show ?thesis by simp
  qed
  have full: ?thesis if "out_blocks drv (g_emit g) = (Inr (), h)" "out_done 0 ps rest (g_emit g) h"
      "rest = (if j < length (reply_log (\<not> drv) ps) then [] else [?eof])" "?n \<le> (if drv then Suc j else j)" for h rest
    using out_process_end [OF that(1,2) assms(2)] that(3,4)
    by (cases "j < length (reply_log (\<not> drv) ps)") (simp_all add: not_less)
  show ?thesis
  proof (cases drv)
    case True
    have i: "?i = take j (map (counter_msg MessageBlockAck) [0..<?n - 1] @ [?eof])"
      using assms(3) True by (simp add: reply_log_def answers_following)
    show ?thesis
    proof (cases "Suc j < ?n")
      case lt: True
      then have "?i = map (counter_msg MessageBlockAck) [0..<0 + j]" using i by (simp add: take_map)
      from out_driven_partial [OF c this lt] show ?thesis
        using part True lt by (auto simp: length_reply_log [OF ps])
    next
      case False
      let ?rest = "if j < length (reply_log (\<not> drv) ps) then [] else [?eof]"
      have "?i = map (counter_msg MessageBlockAck) [0..<0 + ?n - 1] @ ?rest"
        using i False True ps by (cases ps) (auto simp: length_reply_log)
      from out_driven_full [OF c this] show ?thesis
        using full [OF _ _ refl] True False by auto
    qed
  next
    case False
    have i: "?i = take j (map (counter_msg MessageBlockQuery) [0..<?n] @ [?eof])"
      using assms(3) False by (simp add: reply_log_def answers_driving)
    show ?thesis
    proof (cases "j < ?n")
      case lt: True
      then have "?i = map (counter_msg MessageBlockQuery) [0..<0 + j]" using i by (simp add: take_map)
      from out_following_partial [OF c this lt] show ?thesis
        using part False lt by (auto simp: length_reply_log [OF ps])
    next
      case ge: False
      let ?rest = "if j < length (reply_log (\<not> drv) ps) then [] else [?eof]"
      have "?i = map (counter_msg MessageBlockQuery) [0..<0 + ?n] @ ?rest"
        using i ge False by (auto simp: length_reply_log [OF ps])
      from out_following_full [OF c this] show ?thesis
        using full [OF _ _ refl] ge False by auto
    qed
  qed
qed

section \<open>The initiator\<close>

lemma wait_fail [simp]:
  "f_x (f_fail ops (Fail BdxErrExchange) f) = f_x f" "g_x (g_fail (Fail BdxErrExchange) g) = g_x g"
  by (auto simp: f_fail_def g_fail_def AsError_def f_close_def Let_def split: prod.splits)

lemma SendInit_run [run_simps]:
  assumes "Init_Encode i = Inr b" and "0 < x_sends x"
  shows "x_inbox x = [] \<Longrightarrow> SendReceiveInit i x = (Inl (Fail BdxErrExchange), put_msg (bdx_msg MessageReceiveInit b) x)"
    and "x_inbox x = bdx_msg MessageReceiveAccept c # rest \<Longrightarrow> DecodeReceiveAccept c = Inr a \<Longrightarrow>
      SendReceiveInit i x = (Inr a, (put_msg (bdx_msg MessageReceiveInit b) x)\<lparr>x_inbox := rest\<rparr>)"
    and "x_inbox x = [] \<Longrightarrow> SendSendInit i x = (Inl (Fail BdxErrExchange), put_msg (bdx_msg MessageSendInit b) x)"
    and "x_inbox x = bdx_msg MessageSendAccept c # rest \<Longrightarrow> DecodeSendAccept c = Inr d \<Longrightarrow>
      SendSendInit i x = (Inr d, (put_msg (bdx_msg MessageSendInit b) x)\<lparr>x_inbox := rest\<rparr>)"
  using assms
  by (simp_all add: SendReceiveInit_def SendSendInit_def read_then_def pure_go_def run_simps bdx_Next_first bdx_Decode_def
      as_ReceiveAccept_def as_SendAccept_def)

context storing_sink
begin

lemma Receive_run:
  assumes k: "ro_Sink opts = Some k" "room k (length (concat ps))" "proper_chunks ps"
    and n: "offered_block_size x (ro_MaxBlockSize opts) = Inr n"
    and b: "Init_Encode (receive_init n (default_modes (ro_PreferredDriverModes opts)) (ro_TransferFileDesignator opts)) = Inr b"
    and a: "DecodeReceiveAccept c = Inr a" "\<not> tc_AsynchronousTransfer (ra_TransferControl a)" "ra_Length a = None"
    and s: "Suc (length ps) < x_sends x"
  shows "x_inbox x = [] \<Longrightarrow> \<exists>f. bdx_Receive ops opts x = (Inl (Fail BdxErrExchange), Some f)
      \<and> x_sent (f_x f) = x_sent x @ [bdx_msg MessageReceiveInit b]" (is "_ \<Longrightarrow> ?wait")
    and "x_inbox x = bdx_msg MessageReceiveAccept c # take j (chunk_msgs 0 ps) \<Longrightarrow> \<exists>r f. bdx_Receive ops opts x = (r, Some f)
      \<and> x_sent (f_x f) = x_sent x @ bdx_msg MessageReceiveInit b
          # take (if tc_SenderDrive (ra_TransferControl a) then j else Suc j) (reply_log (\<not> tc_SenderDrive (ra_TransferControl a)) ps)
      \<and> (length ps \<le> j \<longrightarrow> (\<exists>res. r = Inr res \<and> res_Transferred res = word_of_nat (length (concat ps)))
           \<and> dest (f_sink f) = Some (content k @ concat ps))" (is "_ \<Longrightarrow> ?run")
proof -
  let ?f = "new_inbound x k (no_hooks\<lparr>h_progress := ro_Progress opts\<rparr>)"
  note in_run = in_run_def [of ops "default_modes (ro_PreferredDriverModes opts)" opts ?f]
  have x: "f_x ?f = x" by (simp add: new_inbound_def)
  show ?wait if "x_inbox x = []"
    using that k(1) n s SendInit_run(1) [OF b, of x]
    by (simp add: bdx_Receive_def in_run read_then_def f_link_def x)
  show ?run if i: "x_inbox x = bdx_msg MessageReceiveAccept c # take j (chunk_msgs 0 ps)"
  proof -
    define g where "g = ?f\<lparr>f_x := (put_msg (bdx_msg MessageReceiveInit b) x)\<lparr>x_inbox := take j (chunk_msgs 0 ps)\<rparr>\<rparr>"
    let ?drv = "\<not> tc_SenderDrive (ra_TransferControl a)"
    have "can_take 0 ps g" "length ps < x_sends (f_x g)" "x_inbox (f_x g) = take j (chunk_msgs 0 ps)"
      using k(2,3) s due_0 by (simp_all add: g_def can_take_def new_inbound_def)
    from process_run [OF this, of ?drv] obtain r h where h: "in_process ops ?drv g = (r, h)"
      "x_sent (f_x h) = x_sent (f_x g) @ take (if ?drv then Suc j else j) (reply_log ?drv ps)"
      "j < length ps \<longrightarrow> r = Inl (Fail BdxErrExchange)"
      "length ps \<le> j \<longrightarrow> r = Inr () \<and> f_transferred h = f_transferred g + word_of_nat (length (concat ps))
         \<and> dest (f_sink h) = Some (content (f_sink g) @ concat ps)" by blast
    obtain res where set: "in_settle a g = (Inr res, g)" using a(2,3) by (simp add: in_settle_def Let_def)
    have run: "in_run ops (default_modes (ro_PreferredDriverModes opts)) opts ?f
        = (case r of Inl e \<Rightarrow> (Inl e, h) | Inr _ \<Rightarrow> (Inr (res\<lparr>res_Transferred := f_transferred h\<rparr>), h))"
      using n s SendInit_run(2) [OF b, of x, OF _ i a(1)] set h(1)
      by (simp add: in_run read_then_def f_link_def x g_def split: sum.splits)
    have g: "x_sent (f_x g) = x_sent x @ [bdx_msg MessageReceiveInit b]" "f_transferred g = 0" "f_sink g = k"
      by (simp_all add: g_def new_inbound_def)
    show ?thesis
    proof (cases "j < length ps")
      case True
      then show ?thesis using h(2,3) k(1) run g by (auto simp: bdx_Receive_def)
    next
      case False
      then show ?thesis using h(2,4) k(1) run g by (auto simp: bdx_Receive_def)
    qed
  qed
qed

end

text \<open>What a stream yields does not depend on the rest of the flow.\<close>

definition chunks_of :: "byte_stream \<times> int \<times> int option \<times> u64 option \<Rightarrow> bytes list \<Rightarrow> bool" where
  "chunks_of s ps \<longleftrightarrow> (\<forall>g. source g = s \<longrightarrow> yields g ps)"

lemma chunks_of_ex:
  assumes "agrees s"
  shows "\<exists>ps. chunks_of s ps \<and> proper_chunks ps \<and> concat ps = st_rest (fst s) \<and> length ps \<le> Suc (length (st_rest (fst s)))"
proof -
  obtain d n l m where s: "s = (d, n, l, m)" by (cases s)
  define g where "g = (new_outbound (sample_link []) d)\<lparr>g_blockSize := n, g_bytesLeft := l, g_negotiatedLength := m\<rparr>"
  have g: "source g = s" "g_data g = d" by (simp_all add: g_def source_def new_outbound_def s)
  from yields_all [of g] assms obtain ps where "yields g ps" "proper_chunks ps" "concat ps = st_rest d"
    "length ps \<le> Suc (length (st_rest d))" using g by metis
  then show ?thesis using yields_source g s unfolding chunks_of_def by (metis fst_conv)
qed

definition negotiated :: "u64 option \<Rightarrow> int option \<times> u64 option" where
  "negotiated len = (case len of None \<Rightarrow> (None, None) | Some l \<Rightarrow> if l \<noteq> 0 then (Some (uint l), Some l) else (None, None))"

lemma Send_run:
  assumes d: "so_Data opts = Some d" "\<And>l. so_Length opts = Some l \<Longrightarrow> l \<le> transfer_limit opts"
    and n: "offered_block_size x (so_MaxBlockSize opts) = Inr n"
    and b: "Init_Encode (send_init n (default_modes (so_PreferredDriverModes opts)) opts) = Inr b"
    and a: "DecodeSendAccept c = Inr a" "\<not> tc_AsynchronousTransfer (sa_TransferControl a)"
    and ps: "chunks_of (d, capBlockSizeToTransport x (uint (sa_MaxBlockSize a)), negotiated (so_Length opts)) ps"
    and s: "length ps < x_sends x" "\<not> x_cancelled x" "\<not> x_disabled x"
  shows "x_inbox x = [] \<Longrightarrow> \<exists>g. bdx_Send opts x = (Inl (Fail BdxErrExchange), Some g)
      \<and> x_sent (g_x g) = x_sent x @ [bdx_msg MessageSendInit b]" (is "_ \<Longrightarrow> ?wait")
    and "x_inbox x = bdx_msg MessageSendAccept c # take j (reply_log (\<not> tc_SenderDrive (sa_TransferControl a)) ps) \<Longrightarrow>
      \<exists>r g. bdx_Send opts x = (r, Some g)
      \<and> x_sent (g_x g) = x_sent x @ bdx_msg MessageSendInit b
          # take (if tc_SenderDrive (sa_TransferControl a) then Suc j else j) (chunk_msgs 0 ps)
      \<and> (length (reply_log (\<not> tc_SenderDrive (sa_TransferControl a)) ps) \<le> j \<longrightarrow>
           (\<exists>res. r = Inr res \<and> res_Transferred res = word_of_nat (length (concat ps))))" (is "_ \<Longrightarrow> ?run")
proof -
  let ?g = "new_outbound x d" and ?drv = "tc_SenderDrive (sa_TransferControl a)"
  let ?modes = "default_modes (so_PreferredDriverModes opts)"
  have x: "g_x ?g = x" by (simp add: new_outbound_def)
  have lim: "(case so_Length opts of None \<Rightarrow> Inr () | Some l \<Rightarrow> if l > transfer_limit opts then Inl (Fail BdxErrTransferSize) else Inr ())
      = Inr ()" using d(2) by (auto simp: not_less split: option.splits)
  note start = startSend_def [of ?modes opts] lim
  show ?wait if "x_inbox x = []"
    using that d(1) n s SendInit_run(3) [OF b, of x]
    by (simp add: bdx_Send_def StartSend_def start read_then_def pure_go_def g_link_def x)
  show ?run if i: "x_inbox x = bdx_msg MessageSendAccept c # take j (reply_log (\<not> ?drv) ps)"
  proof -
    define g where "g = (let g = ?g\<lparr>g_x := (put_msg (bdx_msg MessageSendInit b) x)\<lparr>x_inbox := take j (reply_log (\<not> ?drv) ps)\<rparr>,
        g_blockSize := capBlockSizeToTransport x (uint (sa_MaxBlockSize a))\<rparr> in
      (case so_Length opts of None \<Rightarrow> g | Some l \<Rightarrow> if l \<noteq> 0 then negotiate l g else g))"
    define h where "h = g\<lparr>g_hooks := no_hooks\<lparr>h_progress := so_Progress opts\<rparr>\<rparr>"
    have "source h = (d, capBlockSizeToTransport x (uint (sa_MaxBlockSize a)), negotiated (so_Length opts))"
      and hx: "g_x h = (put_msg (bdx_msg MessageSendInit b) x)\<lparr>x_inbox := take j (reply_log (\<not> ?drv) ps)\<rparr>"
      and hc: "g_counter h = -1" "g_transferred h = 0"
      by (auto simp: h_def g_def source_def negotiated_def negotiate_def new_outbound_def Let_def split: option.splits)
    then have "can_send 0 ps h" using ps s due_0 by (simp add: can_send_def chunks_of_def)
    moreover have "\<not> x_disabled (g_x h)" "x_inbox (g_x h) = take j (reply_log (\<not> ?drv) ps)" using s(3) by (simp_all add: hx)
    ultimately obtain r k where k: "out_process ?drv h = (r, k)"
      "x_sent (g_x k) = x_sent (g_x h) @ take (if ?drv then Suc j else j) (chunk_msgs 0 ps)"
      "j < length (reply_log (\<not> ?drv) ps) \<longrightarrow> r = Inl (Fail BdxErrExchange)"
      "length (reply_log (\<not> ?drv) ps) \<le> j \<longrightarrow> r = Inr () \<and> g_transferred k = g_transferred h + word_of_nat (length (concat ps))"
      using out_process_run by blast
    have cap: "capBlockSizeToTransport ((put_msg m x)\<lparr>x_inbox := i\<rparr>) v = capBlockSizeToTransport x v" for m i v
      by (simp add: capBlockSizeToTransport_def)
    obtain res where st: "StartSend opts x = (Inr (?drv, res), Some h)"
      using d(1) n s SendInit_run(4) [OF b, of x, OF _ i a(1)] a(2)
      by (simp add: StartSend_def start read_then_def pure_go_def g_link_def x h_def g_def Let_def cap
          cong del: option.case_cong_weak if_weak_cong)
    show ?thesis
    proof (cases "j < length (reply_log (\<not> ?drv) ps)")
      case True
      then show ?thesis using k st by (auto simp: bdx_Send_def Transfer_Run_def hx)
    next
      case False
      then show ?thesis using k st by (auto simp: bdx_Send_def Transfer_Run_def hx hc)
    qed
  qed
qed

section \<open>The responder\<close>

lemma SendAccept_run [run_simps]:
  "ReceiveAccept_Encode a = Inr c \<Longrightarrow> 0 < x_sends x \<Longrightarrow> SendReceiveAccept a x = (Inr (), put_msg (bdx_msg MessageReceiveAccept c) x)"
  "SendAccept_Encode d = Inr c \<Longrightarrow> 0 < x_sends x \<Longrightarrow> SendSendAccept d x = (Inr (), put_msg (bdx_msg MessageSendAccept c) x)"
  by (simp_all add: SendReceiveAccept_def SendSendAccept_def read_then_def pure_go_def run_simps)

lemma serveSender_run:
  assumes o: "checkDesignator opts = Inr ()" "sv_Open opts = Some (Inr bl)" "blob_Size bl = int (length (blob_data bl))"
      "in_StartOffset (sv_Init opts) = None"
    and a: "determineAccept x modes opts = Inr (tc, bs, None)"
      "ReceiveAccept_Encode \<lparr>ra_TransferControl = tc, ra_MaxBlockSize = bs, ra_Length = None, ra_WideRange = False, ra_MetaData = []\<rparr> = Inr c"
    and ps: "chunks_of (\<lparr>st_rest = blob_data bl, st_broken = False\<rparr>, capBlockSizeToTransport x (uint bs), None, None) ps"
    and s: "length ps < x_sends x" "\<not> x_cancelled x" "\<not> x_disabled x"
    and i: "x_inbox x = take j (reply_log (\<not> tc_SenderDrive tc) ps)"
  shows "\<exists>r g. serveSender modes opts x = (r, g)
    \<and> x_sent (g_x g) = x_sent x @ bdx_msg MessageReceiveAccept c # take (if tc_SenderDrive tc then Suc j else j) (chunk_msgs 0 ps)
    \<and> (length (reply_log (\<not> tc_SenderDrive tc) ps) \<le> j \<longrightarrow>
         (\<exists>res. r = Inr res \<and> res_Transferred res = word_of_nat (length (concat ps))))"
proof -
  let ?g0 = "new_outbound x \<lparr>st_rest = [], st_broken = False\<rparr>" and ?drv = "tc_SenderDrive tc"
  define g where "g = ?g0\<lparr>g_x := put_msg (bdx_msg MessageReceiveAccept c) x, g_blockSize := capBlockSizeToTransport x (uint bs),
    g_dataLength := Some (word_of_int (blob_Size bl)), g_data := \<lparr>st_rest = blob_data bl, st_broken = False\<rparr>\<rparr>"
  have cap: "capBlockSizeToTransport (put_msg m x) v = capBlockSizeToTransport x v" for m v
    by (simp add: capBlockSizeToTransport_def)
  have x: "g_x ?g0 = x" "g_x g = put_msg (bdx_msg MessageReceiveAccept c) x" by (simp_all add: new_outbound_def g_def)
  obtain res where res: "negotiateSender modes opts ?g0 = (Inr res, g)" "res_Mode res = SenderDrive \<longleftrightarrow> ?drv"
    using o a s
    by (simp add: negotiateSender_def read_then_def pure_go_def open_blob_def start_offset_def g_link_def x Let_def run_simps cap
        NewSectionReader_def g_def mode_of_def)
  define h where "h = g\<lparr>g_hooks := sv_hooks opts\<rparr>"
  have "source h = (\<lparr>st_rest = blob_data bl, st_broken = False\<rparr>, capBlockSizeToTransport x (uint bs), None, None)"
    and h: "g_x h = put_msg (bdx_msg MessageReceiveAccept c) x" "g_counter h = -1" "g_transferred h = 0"
    by (simp_all add: h_def g_def source_def new_outbound_def)
  then have "can_send 0 ps h" using ps s due_0 by (simp add: can_send_def chunks_of_def)
  moreover have "\<not> x_disabled (g_x h)" "x_inbox (g_x h) = take j (reply_log (\<not> ?drv) ps)" using s(3) i by (simp_all add: h)
  ultimately obtain r k where k: "out_process ?drv h = (r, k)"
    "x_sent (g_x k) = x_sent (g_x h) @ take (if ?drv then Suc j else j) (chunk_msgs 0 ps)"
    "j < length (reply_log (\<not> ?drv) ps) \<longrightarrow> r = Inl (Fail BdxErrExchange)"
    "length (reply_log (\<not> ?drv) ps) \<le> j \<longrightarrow> r = Inr () \<and> g_transferred k = g_transferred h + word_of_nat (length (concat ps))"
    using out_process_run by blast
  show ?thesis
  proof (cases "j < length (reply_log (\<not> ?drv) ps)")
    case True
    then show ?thesis using k res by (auto simp: serveSender_def h h_def [symmetric])
  next
    case False
    then show ?thesis using k res by (auto simp: serveSender_def h h_def [symmetric])
  qed
qed

context storing_sink
begin

lemma serveReceiver_run:
  assumes k: "sv_Sink opts = Some k" "room k (length (concat ps))" "proper_chunks ps"
    and o: "checkDesignator opts = Inr ()"
    and a: "determineAccept x modes opts = Inr (tc, bs, l)"
      "SendAccept_Encode \<lparr>sa_TransferControl = tc, sa_MaxBlockSize = bs, sa_MetaData = []\<rparr> = Inr c"
    and s: "Suc (length ps) < x_sends x"
    and i: "x_inbox x = take j (chunk_msgs 0 ps)"
  shows "\<exists>r f. serveReceiver ops modes opts x = (r, Some f)
    \<and> x_sent (f_x f) = x_sent x @ bdx_msg MessageSendAccept c
        # take (if tc_SenderDrive tc then j else Suc j) (reply_log (\<not> tc_SenderDrive tc) ps)
    \<and> (length ps \<le> j \<longrightarrow> (\<exists>res. r = Inr res \<and> res_Transferred res = word_of_nat (length (concat ps)))
         \<and> dest (f_sink f) = Some (content k @ concat ps))"
proof -
  let ?f0 = "new_inbound x k no_hooks" and ?drv = "\<not> tc_SenderDrive tc"
  define f where "f = ?f0\<lparr>f_x := put_msg (bdx_msg MessageSendAccept c) x\<rparr>"
  have x: "f_x ?f0 = x" "f_x f = put_msg (bdx_msg MessageSendAccept c) x" by (simp_all add: new_inbound_def f_def)
  obtain res where res: "negotiateReceiver modes opts ?f0 = (Inr res, f)" "res_Mode res = ReceiverDrive \<longleftrightarrow> ?drv"
    using o a s by (simp add: negotiateReceiver_def read_then_def pure_go_def f_link_def x run_simps f_def mode_of_def)
  define h where "h = f\<lparr>f_hooks := sv_hooks opts\<rparr>"
  have h: "f_x h = put_msg (bdx_msg MessageSendAccept c) x" "f_transferred h = 0" "f_sink h = k"
    by (simp_all add: h_def f_def new_inbound_def)
  have "can_take 0 ps h" "length ps < x_sends (f_x h)" "x_inbox (f_x h) = take j (chunk_msgs 0 ps)"
    using k(2,3) s i due_0 by (simp_all add: h_def f_def can_take_def new_inbound_def)
  from process_run [OF this, of ?drv] obtain r g where g: "in_process ops ?drv h = (r, g)"
    "x_sent (f_x g) = x_sent (f_x h) @ take (if ?drv then Suc j else j) (reply_log ?drv ps)"
    "j < length ps \<longrightarrow> r = Inl (Fail BdxErrExchange)"
    "length ps \<le> j \<longrightarrow> r = Inr () \<and> f_transferred g = f_transferred h + word_of_nat (length (concat ps))
       \<and> dest (f_sink g) = Some (content (f_sink h) @ concat ps)" by blast
  show ?thesis
  proof (cases "j < length ps")
    case True
    then show ?thesis using g res k(1) by (auto simp: serveReceiver_def h h_def [symmetric])
  next
    case False
    then show ?thesis using g res k(1) by (auto simp: serveReceiver_def h h_def [symmetric])
  qed
qed

end

end
