(* ===== verification/Bdx_Transfer.thy ===== *)
theory Bdx_Transfer
  imports Bdx_Dialogue
begin

text \<open>
  Whole transfers between two nodes that run this implementation, over an exchange that loses
  nothing: a download (\<open>Receive\<close> against a responder) and an upload (\<open>Send\<close> against a responder).
\<close>

section \<open>Two nodes on one exchange\<close>

text \<open>
  A node is the function from the messages it has received to those it has sent by the time it
  waits for the next. The two run until neither has anything new to say.
\<close>

fun conversation :: "nat \<Rightarrow> (wire_message list \<Rightarrow> wire_message list) \<Rightarrow> (wire_message list \<Rightarrow> wire_message list) \<Rightarrow> wire_message list" where
  "conversation 0 A B = []"
| "conversation (Suc n) A B = B (A (conversation n A B))"

lemma conversation_reaches:
  assumes "\<And>k. \<exists>m>k. B (A (take k ys)) = take m ys" and "length ys \<le> n"
  shows "conversation n A B = ys"
proof -
  have "\<exists>m\<ge>n. conversation n A B = take m ys"
  proof (induction n)
    case 0
    have "conversation 0 A B = take 0 ys" by simp
    then show ?case by blast
  next
    case (Suc n)
    then obtain m where m: "n \<le> m" "conversation n A B = take m ys" by blast
    obtain l where "m < l" "B (A (take m ys)) = take l ys" using assms(1) by blast
    with m show ?case by (intro exI [of _ l]) simp
  qed
  then show ?thesis using assms(2) by auto
qed

definition receiver_sends :: "'k sink_ops \<Rightarrow> 'k receive_options \<Rightarrow> link \<Rightarrow> wire_message list \<Rightarrow> wire_message list" where
  "receiver_sends ops opts x ms = (case bdx_Receive ops opts (x\<lparr>x_inbox := ms\<rparr>) of
       (_, Some f) \<Rightarrow> x_sent (f_x f) | (_, None) \<Rightarrow> [])"

definition sender_sends :: "send_options \<Rightarrow> link \<Rightarrow> wire_message list \<Rightarrow> wire_message list" where
  "sender_sends opts x ms = (case bdx_Send opts (x\<lparr>x_inbox := ms\<rparr>) of
       (_, Some g) \<Rightarrow> x_sent (g_x g) | (_, None) \<Rightarrow> [])"

text \<open>The responder starts with the first message of the exchange.\<close>

definition responder_sends :: "'k sink_ops \<Rightarrow> nat \<Rightarrow> peer \<Rightarrow> 'k responder \<Rightarrow> link \<Rightarrow> wire_message list \<Rightarrow> wire_message list" where
  "responder_sends ops sid p r y ms = (case ms of
       [] \<Rightarrow> [] | m # ms \<Rightarrow> x_sent (fst (HandleExchange ops sid p m (y\<lparr>x_inbox := ms\<rparr>) r)))"

section \<open>Negotiation\<close>

lemma choose_mode_Some:
  "(SenderDrive \<in> set modes \<and> tc_SenderDrive tc) \<or> (ReceiverDrive \<in> set modes \<and> tc_ReceiverDrive tc) \<Longrightarrow>
    \<exists>c. choose_mode tc modes = Some c \<and> tc_Version c = 0 \<and> (tc_SenderDrive c \<or> tc_ReceiverDrive c) \<and> \<not> tc_AsynchronousTransfer c"
proof (induction modes)
  case (Cons m modes)
  then show ?case by (cases m) auto
qed simp

lemma uint_pos: "v \<noteq> 0 \<Longrightarrow> 1 \<le> uint (v :: u16)"
  using uint_nonnegative [of v] by (metis int_one_le_iff_zero_less le_less uint_0_iff)

lemma offered_block_size_ok:
  assumes "5 \<le> x_maxPayload x"
  shows "\<exists>n. offered_block_size x c = Inr n \<and> 1 \<le> n \<and> n \<le> 0xFFFF"
  using assms uint_pos [of c] by (auto simp: offered_block_size_def Let_def min_def)

lemma default_modes_drive: "SenderDrive \<in> set (default_modes ms) \<or> ReceiverDrive \<in> set (default_modes ms)"
proof (cases ms)
  case (Cons m _)
  then show ?thesis by (cases m) (auto simp: default_modes_def)
qed (simp add: default_modes_def)

lemma common_mode:
  "set ms \<inter> set ns \<noteq> {} \<Longrightarrow> (SenderDrive \<in> set ns \<and> SenderDrive \<in> set ms) \<or> (ReceiverDrive \<in> set ns \<and> ReceiverDrive \<in> set ms)"
proof -
  assume "set ms \<inter> set ns \<noteq> {}"
  then obtain m where "m \<in> set ms" "m \<in> set ns" by blast
  then show ?thesis by (cases m rule: driver_mode.exhaust) simp_all
qed

lemma block_size_word: "1 \<le> n \<Longrightarrow> n \<le> 0xFFFF \<Longrightarrow> (word_of_int n :: u16) \<noteq> 0"
  by (simp add: word_of_int_eq_0_iff dvd_imp_le_int zdvd_not_zless)

lemma narrow_le: "in_range False v \<le> maxSafeInteger"
proof -
  have "in_range False v \<le> 0xFFFFFFFF" by (simp add: in_range_def word_and_le1)
  moreover have "(0xFFFFFFFF :: u64) \<le> maxSafeInteger" by (simp add: word_le_nat_alt)
  ultimately show ?thesis by (rule order_trans)
qed

lemma determineAccept_link:
  assumes "x_maxPayload x = x_maxPayload y"
  shows "determineAccept x modes opts = determineAccept y modes opts"
proof -
  have "capBlockSizeToTransport x = capBlockSizeToTransport y"
    using assms by (intro ext) (simp add: capBlockSizeToTransport_def)
  then show ?thesis by (simp only: determineAccept_def)
qed

lemma determineAccept_ok:
  assumes "5 \<le> x_maxPayload y" and "in_MaxBlockSize (sv_Init opts) \<noteq> 0"
    and "(SenderDrive \<in> set modes \<and> tc_SenderDrive (in_TransferControl (sv_Init opts)))
       \<or> (ReceiverDrive \<in> set modes \<and> tc_ReceiverDrive (in_TransferControl (sv_Init opts)))"
    and "\<And>l. in_MaxLength (sv_Init opts) = Some l \<Longrightarrow> l \<le> maxSafeInteger"
  shows "\<exists>tc bs l. determineAccept y modes opts = Inr (tc, bs, l) \<and> tc_Version tc = 0 \<and> (tc_SenderDrive tc \<or> tc_ReceiverDrive tc)
    \<and> \<not> tc_AsynchronousTransfer tc \<and> bs \<noteq> 0 \<and> 0 < capBlockSizeToTransport y (uint bs) \<and> (in_MaxLength (sv_Init opts) = None \<longrightarrow> l = None)"
proof -
  obtain tc where tc: "choose_mode (in_TransferControl (sv_Init opts)) modes = Some tc" "tc_Version tc = 0"
    "tc_SenderDrive tc \<or> tc_ReceiverDrive tc" "\<not> tc_AsynchronousTransfer tc" using choose_mode_Some [OF assms(3)] by blast
  define size where "size = (let c = capBlockSizeToTransport y (uint (in_MaxBlockSize (sv_Init opts))) in
    if sv_MaxBlockSize opts \<noteq> 0 \<and> c > uint (sv_MaxBlockSize opts) then uint (sv_MaxBlockSize opts) else c)"
  have size: "\<not> size < 1"
    using assms(1) uint_pos [OF assms(2)] uint_pos [of "sv_MaxBlockSize opts"]
    by (auto simp: size_def capBlockSizeToTransport_def Let_def not_less)
  have "determineAccept y modes opts = (case in_MaxLength (sv_Init opts) of
      None \<Rightarrow> Inr (tc, word_of_int size, None)
    | Some l \<Rightarrow> if l > maxSafeInteger then newError StatusLengthTooLarge
        else Inr (tc, word_of_int size, if l > 0 then Some l else None))"
    using tc(1) size unfolding determineAccept_def size_def Let_def by simp
  then obtain bs l where d: "determineAccept y modes opts = Inr (tc, bs, l)" "in_MaxLength (sv_Init opts) = None \<longrightarrow> l = None"
    using assms(4) [unfolded not_less [symmetric]] by (cases "in_MaxLength (sv_Init opts)") auto
  have "0 < capBlockSizeToTransport y (uint bs)"
    using uint_pos [OF determineAccept_Inr(1) [OF d(1)]] assms(1) by (auto simp: capBlockSizeToTransport_def Let_def)
  with d tc determineAccept_Inr(1) [OF d(1)] show ?thesis
    by (intro exI [of _ tc] exI [of _ bs] exI [of _ l]) simp
qed

section \<open>The first message\<close>

lemma split_slash_two:
  assumes "0x2F \<notin> set scope" and "0x2F \<notin> set file"
  shows "split_slash (scope @ 0x2F # file) = [scope, file]"
proof -
  have "0x2F \<notin> set bs \<Longrightarrow> split_slash bs = [bs]" for bs by (induction bs) auto
  then show ?thesis using assms by (induction scope) auto
qed

text \<open>The names of a designator that a responder takes apart again.\<close>

definition plain_names :: "bytes \<Rightarrow> bytes \<Rightarrow> bool" where
  "plain_names scope file \<longleftrightarrow> list_all text_byte (scope @ file) \<and> 0x2F \<notin> set (scope @ file) \<and> length (scope @ file) < 0xFFFF"

lemma accept_exchange_run:
  assumes "t = MessageReceiveInit \<or> t = MessageSendInit \<and> sg_Create st = Some create \<and> create file = Inr k"
    and "DecodeInit b = Inr i" and "in_FileDesignator i = scope @ ascii ''/'' @ file" and "plain_names scope file"
    and "rp_scopes r (peer_key_of p, scope) = Some (st, cfg)"
  shows "\<exists>s opts d. (\<forall>ms. accept_exchange sid p (bdx_msg t b) (y\<lparr>x_inbox := ms\<rparr>) r = Inr (s, opts, y\<lparr>x_inbox := ms, x_mrpDelay := d\<rparr>))
    \<and> sv_InitType opts = t \<and> sv_Init opts = i \<and> checkDesignator opts = Inr () \<and> sv_Open opts = Some (sg_Open st file)
    \<and> (t = MessageSendInit \<longrightarrow> sv_Sink opts = Some k) \<and> sv_PreferredDriverModes opts = sc_PreferredDriverModes cfg"
proof -
  define d where "d = (case mrpDelayFor cfg r of Some d \<Rightarrow> if x_takesMrpDelay y then Some d else x_mrpDelay y | None \<Rightarrow> x_mrpDelay y)"
  have slash: "ascii ''/'' = [0x2F]" by (simp add: ascii_def)
  have "list_all text_byte (scope @ ascii ''/'' @ file)"
    using assms(4) by (simp add: plain_names_def slash text_byte_def)
  then have t: "designator_Text (in_FileDesignator i) = scope @ 0x2F # file" "designator_Text (scope @ 0x2F # file) = scope @ 0x2F # file"
    using assms(3) by (simp_all add: designator_Text_def slash)
  have sp: "split_slash (scope @ 0x2F # file) = [scope, file]" using assms(4) by (simp add: plain_names_def split_slash_two)
  have x: "(case mrpDelayFor cfg r of Some d \<Rightarrow> if x_takesMrpDelay (y\<lparr>x_inbox := ms\<rparr>) then y\<lparr>x_inbox := ms, x_mrpDelay := Some d\<rparr> else y\<lparr>x_inbox := ms\<rparr>
      | None \<Rightarrow> y\<lparr>x_inbox := ms\<rparr>) = y\<lparr>x_inbox := ms, x_mrpDelay := d\<rparr>" for ms
    by (simp add: d_def split: option.splits)
  let ?s = "\<lparr>ss_id = sid, ss_peer = p, ss_scope = scope, ss_file = file, ss_initType = t,
                         ss_init = i, ss_transferred = 0, ss_total = None, ss_closed = False\<rparr>"
  let ?o = "\<lparr>sv_InitType = t, sv_Init = i, sv_TransferFileDesignator = scope @ ascii ''/'' @ file,
                      sv_Open = Some (sg_Open st file), sv_Sink = (if t = MessageSendInit then Some k else None),
                      sv_PreferredDriverModes = sc_PreferredDriverModes cfg,
                      sv_MaxBlockSize = sc_MaxBlockSize cfg,
                      sv_hooks = \<lparr>h_progress = True, h_finished = True, h_cancelled = True\<rparr>\<rparr>"
  have "accept_exchange sid p (bdx_msg t b) (y\<lparr>x_inbox := ms\<rparr>) r = Inr (?s, ?o, y\<lparr>x_inbox := ms, x_mrpDelay := d\<rparr>)" for ms
    using assms(1,2,5) x [of ms] by (auto simp: accept_exchange_def bdx_msg_def Let_def t sp)
  moreover have "checkDesignator ?o = Inr ()" using t by (simp add: checkDesignator_def slash)
  ultimately show ?thesis by (intro exI [of _ ?s] exI [of _ ?o] exI [of _ d]) simp
qed

lemma HandleExchange_run:
  assumes "accept_exchange sid p m y r = Inr (s, opts, y')"
  shows "sv_InitType opts = MessageReceiveInit \<Longrightarrow>
      serveSender (default_modes (sv_PreferredDriverModes opts)) opts y' = (res, g) \<Longrightarrow>
      \<exists>s' r'. HandleExchange ops sid p m y r = (g_x g, Some (s', res, ServedOut g), r')"
    and "sv_InitType opts = MessageSendInit \<Longrightarrow>
      serveReceiver ops (default_modes (sv_PreferredDriverModes opts)) opts y' = (res, Some f) \<Longrightarrow>
      \<exists>s' r'. HandleExchange ops sid p m y r = (f_x f, Some (s', res, ServedIn f), r')"
  using assms by (simp_all add: HandleExchange_def Let_def bdx_Serve_def served_link_def)

section \<open>The dialogue\<close>

text \<open>
  The initiator opens with \<open>i\<close>, the responder answers with \<open>a\<close>; then one side is always a
  message ahead of what it has received. They say all of \<open>vs\<close> and \<open>us\<close>.
\<close>

lemma dialogue:
  assumes "A [] = [i]" and "\<And>j. A (a # take j us) = i # take (if e then Suc j else j) vs"
    and "\<And>j. B (i # take j vs) = a # take (if e then j else Suc j) us" and "length us < n"
  shows "conversation n A B = a # us"
proof (rule conversation_reaches)
  show "\<exists>m>k. B (A (take k (a # us))) = take m (a # us)" for k
  proof (cases k)
    case 0
    have "B (A (take k (a # us))) = take (if e then 1 else 2) (a # us)"
      using assms(1) assms(3) [of 0] 0 by simp
    then show ?thesis using 0 by (intro exI [of _ "if e then 1 else 2"]) simp
  next
    case (Suc j)
    then have "B (A (take k (a # us))) = take (Suc (Suc j)) (a # us)"
      using assms(2) [of j] assms(3) [of "if e then Suc j else j"] by simp
    then show ?thesis using Suc by blast
  qed
qed (use assms(4) in simp)

text \<open>What both sides settle on in a download, whatever arrives later.\<close>

lemma download_setup:
  assumes "5 \<le> x_maxPayload x" "ro_TransferFileDesignator opts = scope @ ascii ''/'' @ file" "plain_names scope file"
    and "rp_scopes r (peer_key_of p, scope) = Some (st, cfg)" "5 \<le> x_maxPayload y"
    and modes: "set (default_modes (ro_PreferredDriverModes opts)) \<inter> set (default_modes (sc_PreferredDriverModes cfg)) \<noteq> {}"
  obtains n0 b s vo d tc bs c where
    "\<And>ms. offered_block_size (x\<lparr>x_inbox := ms\<rparr>) (ro_MaxBlockSize opts) = Inr n0"
    "Init_Encode (receive_init n0 (default_modes (ro_PreferredDriverModes opts)) (ro_TransferFileDesignator opts)) = Inr b"
    "\<And>ms. accept_exchange sid p (bdx_msg MessageReceiveInit b) (y\<lparr>x_inbox := ms\<rparr>) r = Inr (s, vo, y\<lparr>x_inbox := ms, x_mrpDelay := d\<rparr>)"
    "sv_InitType vo = MessageReceiveInit" "checkDesignator vo = Inr ()" "sv_Open vo = Some (sg_Open st file)"
    "in_StartOffset (sv_Init vo) = None"
    "\<And>ms. determineAccept (y\<lparr>x_inbox := ms, x_mrpDelay := d\<rparr>) (default_modes (sv_PreferredDriverModes vo)) vo = Inr (tc, bs, None)"
    "ReceiveAccept_Encode \<lparr>ra_TransferControl = tc, ra_MaxBlockSize = bs, ra_Length = None, ra_WideRange = False, ra_MetaData = []\<rparr> = Inr c"
    "DecodeReceiveAccept c = Inr \<lparr>ra_TransferControl = tc, ra_MaxBlockSize = bs, ra_Length = None, ra_WideRange = False, ra_MetaData = []\<rparr>"
    "\<not> tc_AsynchronousTransfer tc" "0 < capBlockSizeToTransport y (uint bs)"
proof -
  let ?modes = "default_modes (ro_PreferredDriverModes opts)" and ?fd = "ro_TransferFileDesignator opts"
  let ?pm = "default_modes (sc_PreferredDriverModes cfg)"
  obtain n0 where n0: "offered_block_size x (ro_MaxBlockSize opts) = Inr n0" "1 \<le> n0" "n0 \<le> 0xFFFF"
    using offered_block_size_ok [OF assms(1)] by blast
  let ?i = "receive_init n0 ?modes ?fd"
  have "Init_Validate ?i = Inr ()"
    using default_modes_drive assms(2,3) block_size_word [OF n0(2,3)]
    by (auto simp: Init_Validate_iff receive_init_def plain_names_def ascii_def)
  then obtain b where b: "Init_Encode ?i = Inr b" by (auto simp: Init_Encode_iff)
  have "DecodeInit b = Inr ?i"
    using DecodeInit_Encode [OF b] by (simp add: init_as_sent_def receive_init_def length_as_sent_def)
  moreover have "in_FileDesignator ?i = scope @ ascii ''/'' @ file" using assms(2) by (simp add: receive_init_def)
  ultimately obtain s vo d where
      ae: "\<And>ms. accept_exchange sid p (bdx_msg MessageReceiveInit b) (y\<lparr>x_inbox := ms\<rparr>) r = Inr (s, vo, y\<lparr>x_inbox := ms, x_mrpDelay := d\<rparr>)"
      and vo: "sv_InitType vo = MessageReceiveInit" "sv_Init vo = ?i" "checkDesignator vo = Inr ()"
        "sv_Open vo = Some (sg_Open st file)" "sv_PreferredDriverModes vo = sc_PreferredDriverModes cfg"
    using accept_exchange_run [OF disjI1 [OF refl] _ _ assms(3,4)] by metis
  have "(SenderDrive \<in> set ?pm \<and> tc_SenderDrive (in_TransferControl (sv_Init vo)))
       \<or> (ReceiverDrive \<in> set ?pm \<and> tc_ReceiverDrive (in_TransferControl (sv_Init vo)))"
    using common_mode [OF modes] by (simp add: vo receive_init_def)
  moreover have "in_MaxBlockSize (sv_Init vo) \<noteq> 0" "in_MaxLength (sv_Init vo) = None" "in_StartOffset (sv_Init vo) = None"
    using block_size_word [OF n0(2,3)] by (simp_all add: vo receive_init_def)
  ultimately obtain tc bs where a: "determineAccept y ?pm vo = Inr (tc, bs, None)" "tc_Version tc = 0"
      "tc_SenderDrive tc \<or> tc_ReceiverDrive tc" "\<not> tc_AsynchronousTransfer tc" "bs \<noteq> 0" "0 < capBlockSizeToTransport y (uint bs)"
    using determineAccept_ok [OF assms(5), of vo ?pm] by auto
  let ?a = "\<lparr>ra_TransferControl = tc, ra_MaxBlockSize = bs, ra_Length = None, ra_WideRange = False, ra_MetaData = []\<rparr>"
  obtain c where c: "ReceiveAccept_Encode ?a = Inr c" using a(2,3,5) by (auto simp: ReceiveAccept_Encode_iff validateAccept_iff)
  show thesis
  proof (rule that [OF _ b ae vo(1,3,4) _ _ c _ a(4,6)])
    show "offered_block_size (x\<lparr>x_inbox := ms\<rparr>) (ro_MaxBlockSize opts) = Inr n0" for ms
      using n0(1) by (simp add: offered_block_size_def)
    show "in_StartOffset (sv_Init vo) = None" by (simp add: vo receive_init_def)
    show "determineAccept (y\<lparr>x_inbox := ms, x_mrpDelay := d\<rparr>) (default_modes (sv_PreferredDriverModes vo)) vo = Inr (tc, bs, None)" for ms
      by (subst determineAccept_link [of _ y]) (simp_all add: vo(5) a(1))
    show "DecodeReceiveAccept c = Inr ?a" using DecodeReceiveAccept_Encode [OF c] by (simp add: receive_accept_as_sent_def length_as_sent_def)
  qed
qed

lemma upload_setup:
  assumes "5 \<le> x_maxPayload x" "so_TransferFileDesignator opts = scope @ ascii ''/'' @ file" "plain_names scope file"
    and "rp_scopes r (peer_key_of p, scope) = Some (st, cfg)" "sg_Create st = Some create" "create file = Inr k" "5 \<le> x_maxPayload y"
    and modes: "set (default_modes (so_PreferredDriverModes opts)) \<inter> set (default_modes (sc_PreferredDriverModes cfg)) \<noteq> {}"
  obtains n0 b s vo d tc bs l c where
    "\<And>ms. offered_block_size (x\<lparr>x_inbox := ms\<rparr>) (so_MaxBlockSize opts) = Inr n0"
    "Init_Encode (send_init n0 (default_modes (so_PreferredDriverModes opts)) opts) = Inr b"
    "\<And>ms. accept_exchange sid p (bdx_msg MessageSendInit b) (y\<lparr>x_inbox := ms\<rparr>) r = Inr (s, vo, y\<lparr>x_inbox := ms, x_mrpDelay := d\<rparr>)"
    "sv_InitType vo = MessageSendInit" "checkDesignator vo = Inr ()" "sv_Sink vo = Some k"
    "\<And>ms. determineAccept (y\<lparr>x_inbox := ms, x_mrpDelay := d\<rparr>) (default_modes (sv_PreferredDriverModes vo)) vo = Inr (tc, bs, l)"
    "SendAccept_Encode \<lparr>sa_TransferControl = tc, sa_MaxBlockSize = bs, sa_MetaData = []\<rparr> = Inr c"
    "DecodeSendAccept c = Inr \<lparr>sa_TransferControl = tc, sa_MaxBlockSize = bs, sa_MetaData = []\<rparr>"
    "\<not> tc_AsynchronousTransfer tc" "0 < capBlockSizeToTransport x (uint bs)"
proof -
  let ?modes = "default_modes (so_PreferredDriverModes opts)"
  let ?pm = "default_modes (sc_PreferredDriverModes cfg)"
  obtain n0 where n0: "offered_block_size x (so_MaxBlockSize opts) = Inr n0" "1 \<le> n0" "n0 \<le> 0xFFFF"
    using offered_block_size_ok [OF assms(1)] by blast
  let ?i = "send_init n0 ?modes opts"
  have "Init_Validate ?i = Inr ()"
    using default_modes_drive assms(2,3) block_size_word [OF n0(2,3)]
    by (auto simp: Init_Validate_iff send_init_def plain_names_def ascii_def)
  then obtain b where b: "Init_Encode ?i = Inr b" by (auto simp: Init_Encode_iff)
  let ?j = "init_as_sent ?i"
  have "in_FileDesignator ?j = scope @ ascii ''/'' @ file" using assms(2) by (simp add: send_init_def init_as_sent_def)
  then obtain s vo d where
      ae: "\<And>ms. accept_exchange sid p (bdx_msg MessageSendInit b) (y\<lparr>x_inbox := ms\<rparr>) r = Inr (s, vo, y\<lparr>x_inbox := ms, x_mrpDelay := d\<rparr>)"
      and vo: "sv_InitType vo = MessageSendInit" "sv_Init vo = ?j" "checkDesignator vo = Inr ()"
        "sv_Sink vo = Some k" "sv_PreferredDriverModes vo = sc_PreferredDriverModes cfg"
    using accept_exchange_run [OF disjI2 [OF conjI [OF refl conjI [OF assms(5,6)]]] DecodeInit_Encode [OF b] _ assms(3,4)] by metis
  have "(SenderDrive \<in> set ?pm \<and> tc_SenderDrive (in_TransferControl (sv_Init vo)))
       \<or> (ReceiverDrive \<in> set ?pm \<and> tc_ReceiverDrive (in_TransferControl (sv_Init vo)))"
    using common_mode [OF modes] by (simp add: vo send_init_def init_as_sent_def)
  moreover have "in_MaxBlockSize (sv_Init vo) \<noteq> 0"
    using block_size_word [OF n0(2,3)] by (simp add: vo send_init_def init_as_sent_def)
  moreover have "l \<le> maxSafeInteger" if "in_MaxLength (sv_Init vo) = Some l" for l
    using that narrow_le by (auto simp: vo send_init_def init_as_sent_def length_as_sent_def split: option.splits if_splits)
  ultimately obtain tc bs l where a: "determineAccept y ?pm vo = Inr (tc, bs, l)" "tc_Version tc = 0"
      "tc_SenderDrive tc \<or> tc_ReceiverDrive tc" "\<not> tc_AsynchronousTransfer tc" "bs \<noteq> 0"
    using determineAccept_ok [OF assms(7), of vo ?pm] by auto
  let ?a = "\<lparr>sa_TransferControl = tc, sa_MaxBlockSize = bs, sa_MetaData = []\<rparr>"
  obtain c where c: "SendAccept_Encode ?a = Inr c"
    using a(2,3,5) by (auto simp: SendAccept_Encode_def and_then_def validateAccept_def word_less_1)
  show thesis
  proof (rule that [OF _ b ae vo(1,3,4) _ c DecodeSendAccept_Encode [OF c] a(4)])
    show "offered_block_size (x\<lparr>x_inbox := ms\<rparr>) (so_MaxBlockSize opts) = Inr n0" for ms
      using n0(1) by (simp add: offered_block_size_def)
    show "determineAccept (y\<lparr>x_inbox := ms, x_mrpDelay := d\<rparr>) (default_modes (sv_PreferredDriverModes vo)) vo = Inr (tc, bs, l)" for ms
      by (subst determineAccept_link [of _ y]) (simp_all add: vo(5) a(1))
    show "0 < capBlockSizeToTransport x (uint bs)"
      using assms(1) uint_pos [OF a(5)] by (simp add: capBlockSizeToTransport_def Let_def)
  qed
qed

lemma HandleExchange_sends:
  assumes ae: "\<And>ms. accept_exchange sid p m (y\<lparr>x_inbox := ms\<rparr>) r = Inr (s, vo, y\<lparr>x_inbox := ms, x_mrpDelay := d\<rparr>)"
    and vo: "sv_InitType vo = MessageReceiveInit" "checkDesignator vo = Inr ()" "sv_Open vo = Some (Inr bl)"
      "blob_Size bl = int (length (blob_data bl))" "in_StartOffset (sv_Init vo) = None"
    and da: "\<And>ms. determineAccept (y\<lparr>x_inbox := ms, x_mrpDelay := d\<rparr>) (default_modes (sv_PreferredDriverModes vo)) vo = Inr (tc, bs, None)"
    and c: "ReceiveAccept_Encode \<lparr>ra_TransferControl = tc, ra_MaxBlockSize = bs, ra_Length = None, ra_WideRange = False, ra_MetaData = []\<rparr> = Inr c"
    and ps: "chunks_of (\<lparr>st_rest = blob_data bl, st_broken = False\<rparr>, capBlockSizeToTransport y (uint bs), None, None) ps"
    and y: "length ps < x_sends y" "\<not> x_cancelled y" "\<not> x_disabled y"
  shows "\<exists>res g s' r'. HandleExchange ops sid p m (y\<lparr>x_inbox := take j (reply_log (\<not> tc_SenderDrive tc) ps)\<rparr>) r
          = (g_x g, Some (s', res, ServedOut g), r')
      \<and> x_sent (g_x g) = x_sent y @ bdx_msg MessageReceiveAccept c # take (if tc_SenderDrive tc then Suc j else j) (chunk_msgs 0 ps)
      \<and> (length (reply_log (\<not> tc_SenderDrive tc) ps) \<le> j \<longrightarrow>
          (\<exists>v. res = Inr v \<and> res_Transferred v = word_of_nat (length (concat ps))))"
proof -
  let ?y = "y\<lparr>x_inbox := take j (reply_log (\<not> tc_SenderDrive tc) ps), x_mrpDelay := d\<rparr>"
  have "capBlockSizeToTransport ?y (uint bs) = capBlockSizeToTransport y (uint bs)"
    by (simp add: capBlockSizeToTransport_def)
  then have "chunks_of (\<lparr>st_rest = blob_data bl, st_broken = False\<rparr>, capBlockSizeToTransport ?y (uint bs), None, None) ps"
    using ps by simp
  from serveSender_run [OF vo(2-5) da c this, of j] y
  obtain res g where g: "serveSender (default_modes (sv_PreferredDriverModes vo)) vo ?y = (res, g)"
    "x_sent (g_x g) = x_sent y @ bdx_msg MessageReceiveAccept c # take (if tc_SenderDrive tc then Suc j else j) (chunk_msgs 0 ps)"
    "length (reply_log (\<not> tc_SenderDrive tc) ps) \<le> j \<longrightarrow>
      (\<exists>v. res = Inr v \<and> res_Transferred v = word_of_nat (length (concat ps)))" by auto
  from HandleExchange_run(1) [OF ae vo(1) g(1)] g(2,3) show ?thesis by blast
qed

lemma HandleExchange_receives:
  assumes ae: "\<And>ms. accept_exchange sid p m (y\<lparr>x_inbox := ms\<rparr>) r = Inr (s, vo, y\<lparr>x_inbox := ms, x_mrpDelay := d\<rparr>)"
    and vo: "sv_InitType vo = MessageSendInit" "checkDesignator vo = Inr ()" "sv_Sink vo = Some k"
    and k: "has_room k (length (concat ps))" "fs_tmp k = None" "proper_chunks ps"
    and da: "\<And>ms. determineAccept (y\<lparr>x_inbox := ms, x_mrpDelay := d\<rparr>) (default_modes (sv_PreferredDriverModes vo)) vo = Inr (tc, bs, l)"
    and c: "SendAccept_Encode \<lparr>sa_TransferControl = tc, sa_MaxBlockSize = bs, sa_MetaData = []\<rparr> = Inr c"
    and y: "Suc (length ps) < x_sends y"
  shows "\<exists>res f s' r'. HandleExchange FileSink sid p m (y\<lparr>x_inbox := take j (chunk_msgs 0 ps)\<rparr>) r = (f_x f, Some (s', res, ServedIn f), r')
      \<and> x_sent (f_x f) = x_sent y @ bdx_msg MessageSendAccept c
          # take (if tc_SenderDrive tc then j else Suc j) (reply_log (\<not> tc_SenderDrive tc) ps)
      \<and> (length ps \<le> j \<longrightarrow> (\<exists>v. res = Inr v \<and> res_Transferred v = word_of_nat (length (concat ps)))
           \<and> fs_file (f_sink f) = Some (concat ps))"
proof -
  let ?y = "y\<lparr>x_inbox := take j (chunk_msgs 0 ps), x_mrpDelay := d\<rparr>"
  from file_store.serveReceiver_run [OF vo(3) k(1,3) vo(2) da c, of "take j (chunk_msgs 0 ps)" j] y k(2)
  obtain res f where f: "serveReceiver FileSink (default_modes (sv_PreferredDriverModes vo)) vo ?y = (res, Some f)"
    "x_sent (f_x f) = x_sent y @ bdx_msg MessageSendAccept c
        # take (if tc_SenderDrive tc then j else Suc j) (reply_log (\<not> tc_SenderDrive tc) ps)"
    "length ps \<le> j \<longrightarrow> (\<exists>v. res = Inr v \<and> res_Transferred v = word_of_nat (length (concat ps)))
       \<and> fs_file (f_sink f) = Some (concat ps)" by auto
  from HandleExchange_run(2) [OF ae vo(1) f(1)] f(2,3) show ?thesis by blast
qed

section \<open>Samples\<close>

definition sample_blob :: blob where
  "sample_blob = \<lparr>blob_data = [1, 2, 3], blob_Size = 3, blob_broken = False\<rparr>"

definition sample_storage :: "file_sink storage" where
  "sample_storage = \<lparr>sg_id = 1, sg_Open = (\<lambda>_. Inr sample_blob), sg_Create = Some (\<lambda>_. Inr sample_sink)\<rparr>"

definition sample_scope :: scope_config where
  "sample_scope = \<lparr>sc_PreferredDriverModes = [ReceiverDrive], sc_MaxBlockSize = 2, sc_MessageTimeout = 0, sc_AdditionalMrpDelay = None\<rparr>"

definition sample_peer :: peer where
  "sample_peer = \<lparr>p_FabricIndex = 1, p_NodeID = 7, p_SessionID = 1\<rparr>"

definition sample_responder :: "file_sink responder" where
  "sample_responder = snd (EnablePeerForScope sample_peer (ascii ''s'') sample_storage sample_scope NewResponder)"

lemma sample_responder_scope:
  "rp_scopes sample_responder (peer_key_of sample_peer, ascii ''s'') = Some (sample_storage, sample_scope)"
  by (simp add: sample_responder_def EnablePeerForScope_def NewResponder_def Let_def)

lemma sample_names: "ascii ''s/f'' = ascii ''s'' @ ascii ''/'' @ ascii ''f''" "plain_names (ascii ''s'') (ascii ''f'')"
  by (simp_all add: plain_names_def ascii_def text_byte_def)

lemma sample_ends:
  "has_room sample_sink (Suc (Suc (Suc 0)))" "fs_tmp sample_sink = None" "x_maxPayload (sample_link []) = 1024" "x_sent (sample_link []) = []"
  "x_sends (sample_link []) = 9" "\<not> x_cancelled (sample_link [])" "\<not> x_disabled (sample_link [])"
  "set (default_modes []) \<inter> set (default_modes (sc_PreferredDriverModes sample_scope)) \<noteq> {}"
  by (simp_all add: has_room_def sample_sink_def sample_link_def sample_scope_def default_modes_def)

section \<open>Properties\<close>

text \<open>
  C7. A download completes. A requester runs \<open>Receive\<close> into a file with room, its peer is a
  responder with the file in an enabled scope, the two have a driver mode in common and the
  exchange carries messages of at least five bytes. Then, whatever the block sizes and
  whichever side drives, the two nodes reach a point after which neither sends anything, both
  have returned successfully with the size of the file, and the requester's file has the
  content of the provider's.
\<close>

theorem bdx_download_completes:
  assumes requester: "ro_Sink opts = Some k" "has_room k (length (blob_data bl))" "fs_tmp k = None"
      "5 \<le> x_maxPayload x" "x_sent x = []" "length (blob_data bl) + 2 < x_sends x"
    and name: "ro_TransferFileDesignator opts = scope @ ascii ''/'' @ file" "plain_names scope file"
    and provider: "rp_scopes r (peer_key_of p, scope) = Some (st, cfg)" "sg_Open st file = Inr bl"
      "blob_Size bl = int (length (blob_data bl))"
      "5 \<le> x_maxPayload y" "x_sent y = []" "length (blob_data bl) + 2 < x_sends y" "\<not> x_cancelled y" "\<not> x_disabled y"
    and modes: "set (default_modes (ro_PreferredDriverModes opts)) \<inter> set (default_modes (sc_PreferredDriverModes cfg)) \<noteq> {}"
    and rounds: "length (blob_data bl) + 2 \<le> n"
  shows "\<exists>ys m ms res f y' s res' g r'. ys = conversation n (receiver_sends FileSink opts x) (responder_sends FileSink sid p r y)
    \<and> bdx_Receive FileSink opts (x\<lparr>x_inbox := ys\<rparr>) = (Inr res, Some f)
    \<and> res_Transferred res = word_of_nat (length (blob_data bl)) \<and> fs_file (f_sink f) = Some (blob_data bl)
    \<and> x_sent (f_x f) = m # ms
    \<and> HandleExchange FileSink sid p m (y\<lparr>x_inbox := ms\<rparr>) r = (y', Some (s, Inr res', g), r')
    \<and> res_Transferred res' = word_of_nat (length (blob_data bl)) \<and> x_sent y' = ys"
proof -
  from download_setup [OF requester(4) name provider(1,4) modes, of sid] obtain n0 b s vo d tc bs c where
    off: "\<And>ms. offered_block_size (x\<lparr>x_inbox := ms\<rparr>) (ro_MaxBlockSize opts) = Inr n0"
    and b: "Init_Encode (receive_init n0 (default_modes (ro_PreferredDriverModes opts)) (ro_TransferFileDesignator opts)) = Inr b"
    and ae: "\<And>ms. accept_exchange sid p (bdx_msg MessageReceiveInit b) (y\<lparr>x_inbox := ms\<rparr>) r = Inr (s, vo, y\<lparr>x_inbox := ms, x_mrpDelay := d\<rparr>)"
    and vo: "sv_InitType vo = MessageReceiveInit" "checkDesignator vo = Inr ()" "sv_Open vo = Some (sg_Open st file)"
      "in_StartOffset (sv_Init vo) = None"
    and da: "\<And>ms. determineAccept (y\<lparr>x_inbox := ms, x_mrpDelay := d\<rparr>) (default_modes (sv_PreferredDriverModes vo)) vo = Inr (tc, bs, None)"
    and c: "ReceiveAccept_Encode \<lparr>ra_TransferControl = tc, ra_MaxBlockSize = bs, ra_Length = None, ra_WideRange = False, ra_MetaData = []\<rparr> = Inr c"
      "DecodeReceiveAccept c = Inr \<lparr>ra_TransferControl = tc, ra_MaxBlockSize = bs, ra_Length = None, ra_WideRange = False, ra_MetaData = []\<rparr>"
    and tc: "\<not> tc_AsynchronousTransfer tc" "0 < capBlockSizeToTransport y (uint bs)" by blast
  let ?s = "(\<lparr>st_rest = blob_data bl, st_broken = False\<rparr>, capBlockSizeToTransport y (uint bs), None, None)"
  have "agrees ?s" using tc(2) by (simp add: agrees_def)
  from chunks_of_ex [OF this] obtain ps where ps: "chunks_of ?s ps" "proper_chunks ps" "concat ps = blob_data bl"
    "length ps \<le> Suc (length (blob_data bl))" by auto
  have ne: "ps \<noteq> []" using ps(2) by auto
  let ?i = "bdx_msg MessageReceiveInit b" and ?a = "bdx_msg MessageReceiveAccept c" and ?sd = "tc_SenderDrive tc"
  let ?C = "chunk_msgs 0 ps" and ?R = "reply_log (\<not> ?sd) ps"
  let ?A = "receiver_sends FileSink opts x" and ?B = "responder_sends FileSink sid p r y"
  have recv: "\<exists>f. bdx_Receive FileSink opts (x\<lparr>x_inbox := []\<rparr>) = (Inl (Fail BdxErrExchange), Some f) \<and> x_sent (f_x f) = [?i]"
      "\<exists>r f. bdx_Receive FileSink opts (x\<lparr>x_inbox := ?a # take j ?C\<rparr>) = (r, Some f)
        \<and> x_sent (f_x f) = ?i # take (if ?sd then j else Suc j) ?R
        \<and> (length ps \<le> j \<longrightarrow> (\<exists>res. r = Inr res \<and> res_Transferred res = word_of_nat (length (blob_data bl)))
           \<and> fs_file (f_sink f) = Some (blob_data bl))" for j
    using file_store.Receive_run(1) [OF requester(1) _ ps(2) off b c(2)]
      file_store.Receive_run(2) [OF requester(1) _ ps(2) off b c(2), where j = j] requester ps(3,4) tc(1) by simp_all
  have serve: "\<exists>res g s' r'. HandleExchange FileSink sid p ?i (y\<lparr>x_inbox := take j ?R\<rparr>) r = (g_x g, Some (s', res, ServedOut g), r')
      \<and> x_sent (g_x g) = ?a # take (if ?sd then Suc j else j) ?C
      \<and> (length ?R \<le> j \<longrightarrow> (\<exists>v. res = Inr v \<and> res_Transferred v = word_of_nat (length (blob_data bl))))" for j
    using HandleExchange_sends [OF ae vo(1,2) _ provider(3) vo(4) da c(1) ps(1) _ provider(7,8), where j = j and ops = FileSink] vo(3) provider(2,5,6) ps(3,4)
    by simp
  have "conversation n ?A ?B = ?a # ?C"
  proof (rule dialogue [where e = "\<not> ?sd" and i = ?i and vs = ?R])
    show "?A [] = [?i]" using recv(1) by (auto simp: receiver_sends_def)
    show "?A (?a # take j ?C) = ?i # take (if \<not> ?sd then Suc j else j) ?R" for j
      using recv(2) [of j] by (auto simp: receiver_sends_def)
    show "?B (?i # take j ?R) = ?a # take (if \<not> ?sd then j else Suc j) ?C" for j
      using serve [of j] by (auto simp: responder_sends_def)
    show "length ?C < n" using ps(4) rounds by simp
  qed
  moreover obtain res f where "bdx_Receive FileSink opts (x\<lparr>x_inbox := ?a # ?C\<rparr>) = (Inr res, Some f)"
      "res_Transferred res = word_of_nat (length (blob_data bl))" "fs_file (f_sink f) = Some (blob_data bl)" "x_sent (f_x f) = ?i # ?R"
    using recv(2) [of "length ps"] by (auto simp: length_reply_log [OF ne])
  moreover obtain v g s' r' where "HandleExchange FileSink sid p ?i (y\<lparr>x_inbox := ?R\<rparr>) r = (g_x g, Some (s', Inr v, ServedOut g), r')"
      "res_Transferred v = word_of_nat (length (blob_data bl))" "x_sent (g_x g) = ?a # ?C"
    using serve [of "length ?R"] by (auto simp: length_reply_log [OF ne])
  ultimately show ?thesis by metis
qed

theorem bdx_download_completes_witness:
  "\<exists>ys m ms res f y' s res' g r'. ys = conversation 5 (receiver_sends FileSink sample_receive (sample_link []))
      (responder_sends FileSink 0 sample_peer sample_responder (sample_link []))
    \<and> bdx_Receive FileSink sample_receive ((sample_link [])\<lparr>x_inbox := ys\<rparr>) = (Inr res, Some f)
    \<and> res_Transferred res = 3 \<and> fs_file (f_sink f) = Some [1, 2, 3] \<and> x_sent (f_x f) = m # ms
    \<and> HandleExchange FileSink 0 sample_peer m ((sample_link [])\<lparr>x_inbox := ms\<rparr>) sample_responder = (y', Some (s, Inr res', g), r')
    \<and> res_Transferred res' = 3 \<and> x_sent y' = ys"
proof -
  have "length (blob_data sample_blob) = 3" "blob_data sample_blob = [1, 2, 3]" by (simp_all add: sample_blob_def)
  then show ?thesis
    using bdx_download_completes [of sample_receive sample_sink sample_blob "sample_link []" "ascii ''s''" "ascii ''f''"
        sample_responder sample_peer sample_storage sample_scope "sample_link []" 5 0] sample_responder_scope sample_names sample_ends
    by (simp add: sample_receive_def sample_blob_def sample_storage_def)
qed

text \<open>
  C13. An upload completes. A node runs \<open>Send\<close> on a stream that does not break, of the announced
  length if one is announced, and its peer is a responder that creates a file with room in an
  enabled scope. Then the two reach a point after which neither sends anything, both have
  returned successfully with the length of the stream, and the responder's file holds exactly
  the stream.
\<close>

theorem bdx_upload_completes:
  assumes sender: "so_Data opts = Some d" "\<not> st_broken d"
      "\<And>l. so_Length opts = Some l \<Longrightarrow> l \<le> transfer_limit opts \<and> uint l = int (length (st_rest d))"
      "5 \<le> x_maxPayload x" "x_sent x = []" "length (st_rest d) + 2 < x_sends x" "\<not> x_cancelled x" "\<not> x_disabled x"
    and name: "so_TransferFileDesignator opts = scope @ ascii ''/'' @ file" "plain_names scope file"
    and responder: "rp_scopes r (peer_key_of p, scope) = Some (st, cfg)" "sg_Create st = Some create" "create file = Inr k"
      "has_room k (length (st_rest d))" "fs_tmp k = None"
      "5 \<le> x_maxPayload y" "x_sent y = []" "length (st_rest d) + 2 < x_sends y"
    and modes: "set (default_modes (so_PreferredDriverModes opts)) \<inter> set (default_modes (sc_PreferredDriverModes cfg)) \<noteq> {}"
    and rounds: "length (st_rest d) + 3 \<le> n"
  shows "\<exists>ys m ms res g y' s res' f r'. ys = conversation n (sender_sends opts x) (responder_sends FileSink sid p r y)
    \<and> bdx_Send opts (x\<lparr>x_inbox := ys\<rparr>) = (Inr res, Some g)
    \<and> res_Transferred res = word_of_nat (length (st_rest d)) \<and> x_sent (g_x g) = m # ms
    \<and> HandleExchange FileSink sid p m (y\<lparr>x_inbox := ms\<rparr>) r = (y', Some (s, Inr res', ServedIn f), r')
    \<and> res_Transferred res' = word_of_nat (length (st_rest d)) \<and> fs_file (f_sink f) = Some (st_rest d) \<and> x_sent y' = ys"
proof -
  from upload_setup [OF sender(4) name responder(1-3,6) modes, of sid] obtain n0 b s vo e tc bs l c where
    off: "\<And>ms. offered_block_size (x\<lparr>x_inbox := ms\<rparr>) (so_MaxBlockSize opts) = Inr n0"
    and b: "Init_Encode (send_init n0 (default_modes (so_PreferredDriverModes opts)) opts) = Inr b"
    and ae: "\<And>ms. accept_exchange sid p (bdx_msg MessageSendInit b) (y\<lparr>x_inbox := ms\<rparr>) r = Inr (s, vo, y\<lparr>x_inbox := ms, x_mrpDelay := e\<rparr>)"
    and vo: "sv_InitType vo = MessageSendInit" "checkDesignator vo = Inr ()" "sv_Sink vo = Some k"
    and da: "\<And>ms. determineAccept (y\<lparr>x_inbox := ms, x_mrpDelay := e\<rparr>) (default_modes (sv_PreferredDriverModes vo)) vo = Inr (tc, bs, l)"
    and c: "SendAccept_Encode \<lparr>sa_TransferControl = tc, sa_MaxBlockSize = bs, sa_MetaData = []\<rparr> = Inr c"
      "DecodeSendAccept c = Inr \<lparr>sa_TransferControl = tc, sa_MaxBlockSize = bs, sa_MetaData = []\<rparr>"
    and tc: "\<not> tc_AsynchronousTransfer tc" "0 < capBlockSizeToTransport x (uint bs)" by blast
  let ?s = "(d, capBlockSizeToTransport x (uint bs), negotiated (so_Length opts))"
  have "agrees ?s" using tc(2) sender(2,3) by (auto simp: agrees_def negotiated_def uint_0_iff split: option.splits)
  from chunks_of_ex [OF this] obtain ps where ps: "chunks_of ?s ps" "proper_chunks ps" "concat ps = st_rest d"
    "length ps \<le> Suc (length (st_rest d))" by auto
  have ne: "ps \<noteq> []" using ps(2) by auto
  let ?i = "bdx_msg MessageSendInit b" and ?a = "bdx_msg MessageSendAccept c" and ?sd = "tc_SenderDrive tc"
  let ?C = "chunk_msgs 0 ps" and ?R = "reply_log (\<not> ?sd) ps"
  let ?A = "sender_sends opts x" and ?B = "responder_sends FileSink sid p r y"
  have cap: "capBlockSizeToTransport (x\<lparr>x_inbox := ms\<rparr>) v = capBlockSizeToTransport x v" for ms v
    by (simp add: capBlockSizeToTransport_def)
  have send: "\<exists>g. bdx_Send opts (x\<lparr>x_inbox := []\<rparr>) = (Inl (Fail BdxErrExchange), Some g) \<and> x_sent (g_x g) = [?i]"
      "\<exists>r g. bdx_Send opts (x\<lparr>x_inbox := ?a # take j ?R\<rparr>) = (r, Some g)
        \<and> x_sent (g_x g) = ?i # take (if ?sd then Suc j else j) ?C
        \<and> (length ?R \<le> j \<longrightarrow> (\<exists>res. r = Inr res \<and> res_Transferred res = word_of_nat (length (st_rest d))))" for j
    using Send_run(1) [OF sender(1) _ off b c(2), where ps = ps]
      Send_run(2) [OF sender(1) _ off b c(2), where ps = ps and j = j]
      sender ps tc(1) cap by simp_all
  have serve: "\<exists>res f s' r'. HandleExchange FileSink sid p ?i (y\<lparr>x_inbox := take j ?C\<rparr>) r = (f_x f, Some (s', res, ServedIn f), r')
      \<and> x_sent (f_x f) = ?a # take (if ?sd then j else Suc j) ?R
      \<and> (length ps \<le> j \<longrightarrow> (\<exists>v. res = Inr v \<and> res_Transferred v = word_of_nat (length (st_rest d))) \<and> fs_file (f_sink f) = Some (st_rest d))" for j
    using HandleExchange_receives [OF ae vo _ responder(5) ps(2) da c(1), where j = j] responder ps(3,4) by simp
  have "conversation n ?A ?B = ?a # ?R"
  proof (rule dialogue [where e = ?sd and i = ?i and vs = ?C])
    show "?A [] = [?i]" using send(1) by (auto simp: sender_sends_def)
    show "?A (?a # take j ?R) = ?i # take (if ?sd then Suc j else j) ?C" for j
      using send(2) [of j] by (auto simp: sender_sends_def)
    show "?B (?i # take j ?C) = ?a # take (if ?sd then j else Suc j) ?R" for j
      using serve [of j] by (auto simp: responder_sends_def)
    show "length ?R < n" using ps(4) rounds by (simp add: length_reply_log [OF ne])
  qed
  moreover obtain res g where "bdx_Send opts (x\<lparr>x_inbox := ?a # ?R\<rparr>) = (Inr res, Some g)"
      "res_Transferred res = word_of_nat (length (st_rest d))" "x_sent (g_x g) = ?i # ?C"
    using send(2) [of "length ?R"] by (auto simp: length_reply_log [OF ne])
  moreover obtain v f s' r' where "HandleExchange FileSink sid p ?i (y\<lparr>x_inbox := ?C\<rparr>) r = (f_x f, Some (s', Inr v, ServedIn f), r')"
      "res_Transferred v = word_of_nat (length (st_rest d))" "fs_file (f_sink f) = Some (st_rest d)" "x_sent (f_x f) = ?a # ?R"
    using serve [of "length ps"] by (auto simp: length_reply_log [OF ne])
  ultimately show ?thesis by metis
qed

theorem bdx_upload_completes_witness:
  "\<exists>ys m ms res g y' s res' f r'. ys = conversation 6 (sender_sends sample_send (sample_link []))
      (responder_sends FileSink 0 sample_peer sample_responder (sample_link []))
    \<and> bdx_Send sample_send ((sample_link [])\<lparr>x_inbox := ys\<rparr>) = (Inr res, Some g)
    \<and> res_Transferred res = 3 \<and> x_sent (g_x g) = m # ms
    \<and> HandleExchange FileSink 0 sample_peer m ((sample_link [])\<lparr>x_inbox := ms\<rparr>) sample_responder = (y', Some (s, Inr res', ServedIn f), r')
    \<and> res_Transferred res' = 3 \<and> fs_file (f_sink f) = Some [1, 2, 3] \<and> x_sent y' = ys"
proof -
  let ?d = "\<lparr>st_rest = [1, 2, 3], st_broken = False\<rparr>"
  have "so_Data sample_send = Some ?d" "so_Length sample_send = Some 3" "so_PreferredDriverModes sample_send = []"
    "so_TransferFileDesignator sample_send = ascii ''s/f''" "(3 :: u64) \<le> transfer_limit sample_send"
    by (simp_all add: sample_send_def transfer_limit_def)
  moreover have "sg_Create sample_storage = Some (\<lambda>_. Inr sample_sink)" by (simp add: sample_storage_def)
  ultimately show ?thesis
    using bdx_upload_completes [of sample_send ?d "sample_link []" "ascii ''s''" "ascii ''f''"
        sample_responder sample_peer sample_storage sample_scope "\<lambda>_. Inr sample_sink" sample_sink "sample_link []" 6 0]
      sample_responder_scope sample_names sample_ends
    by simp
qed

end
