(* ===== verification/Ccm.thy ===== *)
theory Ccm
  imports Prelude
begin

text \<open>
  AES-CCM with a nonce of 13 bytes and a tag of 16 (\<^verbatim>\<open>secure/aesccm/aesccm.go\<close>). The block
  cipher is the parameter \<open>aes\<close>, the function of a key and a block that \<^verbatim>\<open>crypto/aes\<close> computes;
  all that is used of it is that a block has 16 bytes (\<open>block_cipher\<close>). The theorem holds for
  every such cipher.
\<close>

section \<open>Bytes\<close>

definition xor_bytes :: "bytes \<Rightarrow> bytes \<Rightarrow> bytes" where
  "xor_bytes xs ys = map2 (XOR) xs ys"

lemma length_xor_bytes [simp]: "length (xor_bytes xs ys) = min (length xs) (length ys)"
  by (simp add: xor_bytes_def)

lemma xor_bytes_nth [simp]: "i < length xs \<Longrightarrow> i < length ys \<Longrightarrow> xor_bytes xs ys ! i = xs ! i XOR ys ! i"
  by (simp add: xor_bytes_def)

lemma xor_bytes_twice: "length xs \<le> length ks \<Longrightarrow> xor_bytes (xor_bytes xs ks) ks = xs"
  by (rule nth_equalityI) (simp_all add: xor.assoc)

text \<open>\<open>binary.BigEndian.AppendUint16\<close>.\<close>

definition put_be16 :: "u16 \<Rightarrow> bytes" where
  "put_be16 v = rev (put_u16 v)"

lemma length_put_be16 [simp]: "length (put_be16 v) = 2"
  by (simp add: put_be16_def)

section \<open>The cipher\<close>

abbreviation KeySize :: nat where "KeySize \<equiv> 16"
abbreviation NonceSize :: nat where "NonceSize \<equiv> 13"
abbreviation TagSize :: nat where "TagSize \<equiv> 16"
abbreviation blockSize :: nat where "blockSize \<equiv> 16"

datatype ccm_error = ErrKeySize | ErrNonceSize | ErrAuthFailed | ErrSealedTooShort | ErrPlaintextTooLong

record ccm =
  ccm_block :: "bytes \<Rightarrow> bytes"

definition New_ccm :: "(bytes \<Rightarrow> bytes \<Rightarrow> bytes) \<Rightarrow> bytes \<Rightarrow> (ccm_error, ccm) go" where
  "New_ccm aes key = (if length key \<noteq> KeySize then Inl (Fail ErrKeySize) else Inr \<lparr>ccm_block = aes key\<rparr>)"

definition pad_block :: "bytes \<Rightarrow> bytes" where
  "pad_block xs = take blockSize xs @ replicate (blockSize - length xs) 0"

function cbcMacBlocks :: "(bytes \<Rightarrow> bytes) \<Rightarrow> bytes \<Rightarrow> bytes \<Rightarrow> bytes" where
  "cbcMacBlocks b state data =
     (if data = [] then state
      else cbcMacBlocks b (b (xor_bytes state (pad_block data))) (drop blockSize data))"
  by pat_completeness auto
termination
  by (relation "measure (\<lambda>(b, state, data). length data)") auto

definition cbcMAC :: "ccm \<Rightarrow> bytes \<Rightarrow> bytes \<Rightarrow> bytes \<Rightarrow> bytes" where
  "cbcMAC c nonce plaintext aad =
     (let flags = (if length aad > 0 then 0x39 OR 0x40 else 0x39) :: byte;
          b0 = flags # nonce @ put_be16 (word_of_nat (length plaintext));
          state = ccm_block c b0;
          state = (if length aad > 0 then cbcMacBlocks (ccm_block c) state (put_be16 (word_of_nat (length aad)) @ aad)
                   else state)
      in cbcMacBlocks (ccm_block c) state plaintext)"

text \<open>The loop of \<open>ctrCrypt\<close> from a counter on; the counter is of 16 bits and wraps.\<close>

function ctr_blocks :: "ccm \<Rightarrow> bytes \<Rightarrow> u16 \<Rightarrow> bytes \<Rightarrow> bytes" where
  "ctr_blocks c nonce counter data =
     (if data = [] then []
      else xor_bytes (take blockSize data) (ccm_block c (0x01 # nonce @ put_be16 counter))
             @ ctr_blocks c nonce (counter + 1) (drop blockSize data))"
  by pat_completeness auto
termination
  by (relation "measure (\<lambda>(c, nonce, counter, data). length data)") auto

declare cbcMacBlocks.simps [simp del] ctr_blocks.simps [simp del]

definition ctrCrypt :: "ccm \<Rightarrow> bytes \<Rightarrow> bytes \<Rightarrow> bytes" where
  "ctrCrypt c nonce data = ctr_blocks c nonce 1 data"

definition encryptTag :: "ccm \<Rightarrow> bytes \<Rightarrow> bytes \<Rightarrow> bytes" where
  "encryptTag c nonce tag = take TagSize (xor_bytes (ccm_block c (0x01 # nonce @ [0, 0])) tag)"

definition Seal :: "ccm \<Rightarrow> bytes \<Rightarrow> bytes \<Rightarrow> bytes \<Rightarrow> bytes \<Rightarrow> (ccm_error, bytes) go" where
  "Seal c dst nonce plaintext aad =
     (if length nonce \<noteq> NonceSize then Inl (Fail ErrNonceSize)
      else if length plaintext > 0xFFFF then Inl (Fail ErrPlaintextTooLong)
      else let tag = cbcMAC c nonce plaintext aad;
               out = dst @ ctrCrypt c nonce plaintext
           in Inr (out @ encryptTag c nonce tag))"

definition Open :: "ccm \<Rightarrow> bytes \<Rightarrow> bytes \<Rightarrow> bytes \<Rightarrow> bytes \<Rightarrow> (ccm_error, bytes) go" where
  "Open c dst nonce sealed aad =
     (if length nonce \<noteq> NonceSize then Inl (Fail ErrNonceSize)
      else if length sealed < TagSize then Inl (Fail ErrSealedTooShort)
      else let cipherTextLen = length sealed - TagSize in
        if cipherTextLen > 0xFFFF then Inl (Fail ErrPlaintextTooLong)
        else let plaintext = ctrCrypt c nonce (take cipherTextLen sealed);
                 encZero = encryptTag c nonce (replicate TagSize 0);
                 wireTag = xor_bytes (drop cipherTextLen sealed) encZero;
                 expected = cbcMAC c nonce plaintext aad
             in if wireTag \<noteq> expected then Inl (Fail ErrAuthFailed) else Inr (dst @ plaintext))"

section \<open>Laws\<close>

text \<open>What the package relies on of \<^verbatim>\<open>crypto/aes\<close>.\<close>

definition block_cipher :: "ccm \<Rightarrow> bool" where
  "block_cipher c \<longleftrightarrow> (\<forall>b. length b = blockSize \<longrightarrow> length (ccm_block c b) = blockSize)"

lemma block_cipherD: "block_cipher c \<Longrightarrow> length b = blockSize \<Longrightarrow> length (ccm_block c b) = blockSize"
  by (simp add: block_cipher_def)

lemma length_pad_block [simp]: "length (pad_block xs) = blockSize"
  by (simp add: pad_block_def)

lemma length_cbcMacBlocks:
  assumes "block_cipher c"
  shows "length state = blockSize \<Longrightarrow> length (cbcMacBlocks (ccm_block c) state data) = blockSize"
proof (induction "ccm_block c" state data rule: cbcMacBlocks.induct)
  case (1 state data)
  then show ?case using block_cipherD [OF assms] by (simp add: cbcMacBlocks.simps [of _ state data])
qed

lemma length_cbcMAC: "block_cipher c \<Longrightarrow> length nonce = NonceSize \<Longrightarrow> length (cbcMAC c nonce p aad) = TagSize"
  by (simp add: cbcMAC_def Let_def length_cbcMacBlocks block_cipherD)

lemma length_counter_block:
  "block_cipher c \<Longrightarrow> length nonce = NonceSize \<Longrightarrow> length (ccm_block c (x # nonce @ put_be16 i)) = blockSize"
  by (simp add: block_cipherD)

lemma length_ctr_blocks:
  assumes "block_cipher c" and "length nonce = NonceSize"
  shows "length (ctr_blocks c nonce i data) = length data"
proof (induction data arbitrary: i rule: length_induct)
  case (1 data)
  show ?case
  proof (cases "data = []")
    case False
    then have "length (ctr_blocks c nonce (i + 1) (drop blockSize data)) = length data - blockSize"
      using 1 by simp
    then show ?thesis
      using False by (subst ctr_blocks.simps) (simp add: length_counter_block [OF assms])
  qed (simp add: ctr_blocks.simps)
qed

text \<open>The keystream is its own inverse.\<close>

lemma ctr_blocks_twice:
  assumes "block_cipher c" and "length nonce = NonceSize"
  shows "ctr_blocks c nonce i (ctr_blocks c nonce i data) = data"
proof (induction data arbitrary: i rule: length_induct)
  case (1 data)
  show ?case
  proof (cases "data = []")
    case False
    let ?k = "ccm_block c (0x01 # nonce @ put_be16 i)"
    let ?x = "xor_bytes (take blockSize data) ?k"
    let ?r = "ctr_blocks c nonce (i + 1) (drop blockSize data)"
    have k: "length ?k = blockSize" by (rule length_counter_block [OF assms])
    have out: "ctr_blocks c nonce i data = ?x @ ?r"
      using False by (subst ctr_blocks.simps) simp
    have r: "ctr_blocks c nonce (i + 1) ?r = drop blockSize data" using 1 False by simp
    have lr: "length ?r = length data - blockSize" by (simp add: length_ctr_blocks [OF assms])
    have t: "take blockSize (?x @ ?r) = ?x" "drop blockSize (?x @ ?r) = ?r"
      using lr k by (cases "length data \<le> blockSize"; simp)+
    have "0 < length ?x" using False k by simp
    then have "?x @ ?r \<noteq> []" by (simp only: length_greater_0_conv append_is_Nil_conv) simp
    then have "ctr_blocks c nonce i (?x @ ?r) = xor_bytes ?x ?k @ ctr_blocks c nonce (i + 1) ?r"
      by (subst ctr_blocks.simps) (simp only: t if_False)
    also have "\<dots> = data"
      using k r by (simp add: xor_bytes_twice)
    finally show ?thesis using out by simp
  qed (simp add: ctr_blocks.simps)
qed

lemma length_ctrCrypt: "block_cipher c \<Longrightarrow> length nonce = NonceSize \<Longrightarrow> length (ctrCrypt c nonce data) = length data"
  by (simp add: ctrCrypt_def length_ctr_blocks)

lemma ctrCrypt_twice: "block_cipher c \<Longrightarrow> length nonce = NonceSize \<Longrightarrow> ctrCrypt c nonce (ctrCrypt c nonce data) = data"
  by (simp add: ctrCrypt_def ctr_blocks_twice)

lemma length_encryptTag:
  "block_cipher c \<Longrightarrow> length nonce = NonceSize \<Longrightarrow> length tag = TagSize \<Longrightarrow> length (encryptTag c nonce tag) = TagSize"
  by (simp add: encryptTag_def block_cipherD)

text \<open>Unmasking a tag with the mask of the zero tag undoes \<open>encryptTag\<close>.\<close>

lemma encryptTag_unmask:
  assumes "block_cipher c" and "length nonce = NonceSize" and "length tag = TagSize" and "length t = TagSize"
  shows "xor_bytes t (encryptTag c nonce (replicate TagSize 0)) = tag \<longleftrightarrow> t = encryptTag c nonce tag"
proof -
  let ?k = "ccm_block c (0x01 # nonce @ [0, 0])"
  have k: "length ?k = TagSize" using assms by (simp add: block_cipherD)
  have e: "encryptTag c nonce x = xor_bytes ?k x" if "length x = TagSize" for x
    using that k by (simp add: encryptTag_def)
  have z: "xor_bytes ?k (replicate TagSize 0) = ?k"
    using k by (intro nth_equalityI) simp_all
  have c: "xor_bytes t ?k = xor_bytes ?k t"
    using k assms by (intro nth_equalityI) (simp_all add: xor.commute)
  have tw: "xor_bytes ?k (xor_bytes ?k x) = x" if "length x = TagSize" for x
    using that k by (intro nth_equalityI) (simp_all add: xor.assoc [symmetric])
  show ?thesis
    using e [of "replicate TagSize 0"] e [OF assms(3)] z c tw [OF assms(3)] tw [OF assms(4)] by auto
qed

lemma Seal_eq:
  "Seal c dst nonce p aad = Inr s \<longleftrightarrow>
     length nonce = NonceSize \<and> length p \<le> 0xFFFF \<and>
     s = dst @ ctrCrypt c nonce p @ encryptTag c nonce (cbcMAC c nonce p aad)"
  by (auto simp: Seal_def Let_def)

lemma length_Seal: "block_cipher c \<Longrightarrow> Seal c dst nonce p aad = Inr s \<Longrightarrow> length s = length dst + length p + TagSize"
  by (auto simp: Seal_eq length_ctrCrypt length_encryptTag length_cbcMAC)

text \<open>\<open>Open\<close> accepts exactly the sealings of the plaintext it returns.\<close>

lemma Open_iff_Seal:
  assumes "block_cipher c"
  shows "Open c dst nonce s aad = Inr r \<longleftrightarrow> (\<exists>p. r = dst @ p \<and> Seal c [] nonce p aad = Inr s)"
proof (cases "length nonce = NonceSize \<and> TagSize \<le> length s \<and> length s - TagSize \<le> 0xFFFF")
  case True
  then have nonce: "length nonce = NonceSize" by simp
  note laws = length_ctrCrypt [OF assms nonce] ctrCrypt_twice [OF assms nonce] length_cbcMAC [OF assms nonce]
    length_encryptTag [OF assms nonce]
  let ?n = "length s - TagSize"
  let ?p = "ctrCrypt c nonce (take ?n s)"
  let ?tag = "cbcMAC c nonce ?p aad"
  have "Open c dst nonce s aad = Inr r \<longleftrightarrow>
      xor_bytes (drop ?n s) (encryptTag c nonce (replicate TagSize 0)) = ?tag \<and> r = dst @ ?p"
    using True by (auto simp: Open_def Let_def)
  also have "\<dots> \<longleftrightarrow> drop ?n s = encryptTag c nonce ?tag \<and> r = dst @ ?p"
    using encryptTag_unmask [OF assms nonce, of ?tag "drop ?n s"] True laws(3) by simp
  also have "\<dots> \<longleftrightarrow> (\<exists>p. r = dst @ p \<and> Seal c [] nonce p aad = Inr s)"
  proof
    assume a: "drop ?n s = encryptTag c nonce ?tag \<and> r = dst @ ?p"
    then have "s = ctrCrypt c nonce ?p @ encryptTag c nonce ?tag"
      using laws(2) [of "take ?n s"] append_take_drop_id [of ?n s] by simp
    then have "Seal c [] nonce ?p aad = Inr s"
      using True laws(1) [of "take ?n s"] by (simp add: Seal_eq)
    with a show "\<exists>p. r = dst @ p \<and> Seal c [] nonce p aad = Inr s" by blast
  next
    assume "\<exists>p. r = dst @ p \<and> Seal c [] nonce p aad = Inr s"
    then obtain p where p: "r = dst @ p" "s = ctrCrypt c nonce p @ encryptTag c nonce (cbcMAC c nonce p aad)"
      by (auto simp: Seal_eq)
    then have n: "?n = length p" by (simp add: laws)
    have "take ?n s = ctrCrypt c nonce p" "drop ?n s = encryptTag c nonce (cbcMAC c nonce p aad)"
      unfolding n using p(2) laws(1) [of p] by simp_all
    then show "drop ?n s = encryptTag c nonce ?tag \<and> r = dst @ ?p"
      using p(1) laws(2) [of p] by simp
  qed
  finally show ?thesis .
next
  case False
  have "Seal c [] nonce p aad \<noteq> Inr s" for p
  proof
    assume seal: "Seal c [] nonce p aad = Inr s"
    have "length s = length p + TagSize" using length_Seal [OF assms seal] by simp
    with seal False show False by (simp add: Seal_eq)
  qed
  moreover have "Open c dst nonce s aad \<noteq> Inr r"
    using False by (auto simp: Open_def Let_def)
  ultimately show ?thesis by blast
qed

lemma Open_errors:
  "Open c dst nonce s aad = Inl e \<Longrightarrow> \<exists>x. e = Fail x"
  by (auto simp: Open_def Let_def split: if_splits)

section \<open>Every block cipher\<close>

text \<open>What is relied on of \<^verbatim>\<open>crypto/aes\<close>: a key of 16 bytes takes a block of 16 bytes to one.\<close>

definition aes_blocks :: "(bytes \<Rightarrow> bytes \<Rightarrow> bytes) \<Rightarrow> bool" where
  "aes_blocks aes \<longleftrightarrow> (\<forall>k b. length k = KeySize \<and> length b = blockSize \<longrightarrow> length (aes k b) = blockSize)"

text \<open>
  C9. \<open>Open\<close> accepts exactly what \<open>Seal\<close> produces: with a cipher from \<open>New\<close>, a sealed text opens to \<open>p\<close>
  under a nonce and additional data iff it is the sealing of \<open>p\<close> under them, whatever the block
  cipher; every text of up to 65535 bytes can be sealed, at a cost of 16 bytes.
\<close>

theorem aesccm_exact:
  assumes "aes_blocks aes" and "New_ccm aes key = Inr c"
  shows "(Open c [] nonce s aad = Inr p \<longleftrightarrow> Seal c [] nonce p aad = Inr s)
    \<and> (length nonce = NonceSize \<and> length p \<le> 0xFFFF \<longrightarrow>
        (\<exists>t. Seal c [] nonce p aad = Inr t \<and> length t = length p + TagSize \<and> Open c [] nonce t aad = Inr p))"
proof -
  have c: "block_cipher c"
    using assms by (auto simp: New_ccm_def aes_blocks_def block_cipher_def split: if_splits)
  have e: "Open c [] nonce t aad = Inr p \<longleftrightarrow> Seal c [] nonce p aad = Inr t" for t
    using Open_iff_Seal [OF c, of "[]"] by simp
  have "\<exists>t. Seal c [] nonce p aad = Inr t" if "length nonce = NonceSize" "length p \<le> 0xFFFF"
    using that by (simp add: Seal_def Let_def)
  then show ?thesis using e length_Seal [OF c, of "[]" nonce p aad] by auto
qed

text \<open>A stand-in for the block cipher, for examples.\<close>

definition toy_aes :: "bytes \<Rightarrow> bytes \<Rightarrow> bytes" where
  "toy_aes k b = xor_bytes k (map (\<lambda>x. x + 1) (rev b))"

lemma toy_aes_blocks: "aes_blocks toy_aes"
  by (simp add: toy_aes_def aes_blocks_def)

theorem aesccm_exact_witness:
  "\<exists>t. Seal \<lparr>ccm_block = toy_aes (replicate 16 5)\<rparr> [] (replicate 13 7) [1, 2, 3] [9] = Inr t \<and> length t = 19
     \<and> Open \<lparr>ccm_block = toy_aes (replicate 16 5)\<rparr> [] (replicate 13 7) t [9] = Inr [1, 2, 3]"
proof -
  have "New_ccm toy_aes (replicate 16 5) = Inr \<lparr>ccm_block = toy_aes (replicate 16 5)\<rparr>" by (simp add: New_ccm_def)
  from aesccm_exact [OF toy_aes_blocks this, of "replicate 13 7" "[]" "[9]" "[1, 2, 3]"] show ?thesis by auto
qed

end
