(* ===== verification/Channel.thy ===== *)
theory Channel
  imports Ccm Message Mrp Mrp_Counter
begin

text \<open>
  Secure sessions (\<^verbatim>\<open>secure/channel/session.go\<close>): the keys, counters and reception window of one
  half of a conversation, sealing, opening and closing; header privacy (\<^verbatim>\<open>privacy.go\<close>) and the
  sealing of group messages (\<^verbatim>\<open>group.go\<close>). \<open>aes\<close> is the block cipher of \<^verbatim>\<open>crypto/aes\<close>, \<open>hkdf\<close>
  the key derivation of \<^verbatim>\<open>crypto/hkdf\<close> with SHA-256 (secret, salt, info, length), \<open>rand\<close> the outcome
  of reading four bytes of \<^verbatim>\<open>crypto/rand\<close>. Encrypt and Decrypt are taken as atomic; how calls of
  the counter interleave is the subject of the counter's own theory.
\<close>

unbundle bit_operations_syntax

section \<open>Session\<close>

datatype channel_error =
    ErrUnauthenticated ccm_error | ErrSessionInactive | ErrCounterExhausted | ErrSeal ccm_error
  | ErrCipher ccm_error | ErrCounterSeed | ErrPrivacyKeySource | ErrPrivacyMICShort | ErrPrivacyHkdf
  | ErrPrivacyLength | ErrNotGroupHeader | ErrSourceNodeMismatch | ErrGroupEncode msg_error
  | ErrGroupHeaderShort | ErrHeader msg_error

record session =
  s_encKey :: bytes
  s_decKey :: bytes
  s_encCipher :: "ccm option"
  s_decCipher :: "ccm option"
  s_localNodeID :: u64
  s_peerNodeID :: u64
  s_peerCATs :: "u32 list"
  s_peerSessionID :: u16
  s_out :: u32
  s_in :: window
  s_privacyKey :: "bytes option"
  s_peerPrivacyKey :: "bytes option"
  s_closed :: bool

record channel_config =
  EncryptKey :: bytes
  DecryptKey :: bytes
  LocalNodeID :: u64
  PeerNodeID :: u64
  PeerCATs :: "u32 list"
  PeerSessionID :: u16
  InitialCounter :: u32

definition NewCounter :: "u32 option \<Rightarrow> u32 option" where
  "NewCounter rand = map_option seed_value rand"

definition NextNoRollover :: "u32 \<Rightarrow> (channel_error, u32) go \<times> u32" where
  "NextNoRollover v = (if v = 0xFFFFFFFF then (Inl (Fail ErrCounterExhausted), v) else (Inr v, v + 1))"

fun wrap_error :: "('e \<Rightarrow> 'f) \<Rightarrow> ('e, 'a) go \<Rightarrow> ('f, 'a) go" where
  "wrap_error f (Inl (Fail e)) = Inl (Fail (f e))"
| "wrap_error f (Inl Panic) = Inl Panic"
| "wrap_error f (Inr x) = Inr x"

lemma wrap_error_Inr_iff [simp]: "wrap_error f r = Inr x \<longleftrightarrow> r = Inr x"
  by (cases "(f, r)" rule: wrap_error.cases) auto

definition Session_New :: "(bytes \<Rightarrow> bytes \<Rightarrow> bytes) \<Rightarrow> u32 option \<Rightarrow> channel_config \<Rightarrow> (channel_error, session) go" where
  "Session_New aes rand cfg =
     and_then (wrap_error ErrCipher (New_ccm aes (EncryptKey cfg))) (\<lambda>enc.
     and_then (wrap_error ErrCipher (New_ccm aes (DecryptKey cfg))) (\<lambda>dec.
     and_then (if InitialCounter cfg \<noteq> 0 then Inr (InitialCounter cfg)
               else case NewCounter rand of None \<Rightarrow> Inl (Fail ErrCounterSeed) | Some v \<Rightarrow> Inr v) (\<lambda>counter.
     Inr \<lparr>s_encKey = EncryptKey cfg, s_decKey = DecryptKey cfg, s_encCipher = Some enc, s_decCipher = Some dec,
          s_localNodeID = LocalNodeID cfg, s_peerNodeID = PeerNodeID cfg, s_peerCATs = PeerCATs cfg,
          s_peerSessionID = PeerSessionID cfg, s_out = counter, s_in = NewWindowNoRollover,
          s_privacyKey = None, s_peerPrivacyKey = None, s_closed = False\<rparr>)))"

definition buildNonce :: "byte \<Rightarrow> u32 \<Rightarrow> u64 \<Rightarrow> bytes" where
  "buildNonce secFlags counter sourceNodeID = secFlags # put_u32 counter @ put_u64 sourceNodeID"

record encrypt_result =
  Counter :: u32
  Ciphertext :: bytes

text \<open>The result, the header with the counter it received, and the session.\<close>

definition Encrypt :: "session \<Rightarrow> header \<Rightarrow> byte \<Rightarrow> bytes \<Rightarrow> (channel_error, encrypt_result) go \<times> header \<times> session" where
  "Encrypt s header secFlags plaintext =
     (if s_closed s then (Inl (Fail ErrSessionInactive), header, s)
      else case NextNoRollover (s_out s) of
        (Inl e, v) \<Rightarrow> (Inl e, header, s\<lparr>s_out := v\<rparr>)
      | (Inr counter, v) \<Rightarrow>
          let s = s\<lparr>s_out := v\<rparr>;
              header = header\<lparr>h_MessageCounter := counter\<rparr>;
              nonce = buildNonce secFlags counter (s_localNodeID s);
              aad = Header_Marshal header
          in case s_encCipher s of
               None \<Rightarrow> (Inl (Fail ErrSessionInactive), header, s)
             | Some encCipher \<Rightarrow>
                 (and_then (wrap_error ErrSeal (Seal encCipher [] nonce plaintext aad)) (\<lambda>sealed.
                    Inr \<lparr>Counter = counter, Ciphertext = sealed\<rparr>), header, s))"

text \<open>The plaintext with the duplicate flag, and the session.\<close>

definition Decrypt :: "session \<Rightarrow> header \<Rightarrow> byte \<Rightarrow> bytes \<Rightarrow> (channel_error, bytes \<times> bool) go \<times> session" where
  "Decrypt s header secFlags ciphertext =
     (if s_closed s then (Inl (Fail ErrSessionInactive), s)
      else let nonce = buildNonce secFlags (h_MessageCounter header) (s_peerNodeID s);
               aad = AAD header
           in case s_decCipher s of
                None \<Rightarrow> (Inl (Fail ErrSessionInactive), s)
              | Some decCipher \<Rightarrow>
                  (case wrap_error ErrUnauthenticated (Open decCipher [] nonce ciphertext aad) of
                     Inl e \<Rightarrow> (Inl e, s)
                   | Inr plain \<Rightarrow>
                       (case Accept (s_in s) (h_MessageCounter header) of
                          (ok, w) \<Rightarrow> (Inr (plain, \<not> ok), s\<lparr>s_in := w\<rparr>))))"

definition Session_Close :: "session \<Rightarrow> session" where
  "Session_Close s =
     s\<lparr>s_closed := True,
       s_encKey := replicate (length (s_encKey s)) 0, s_decKey := replicate (length (s_decKey s)) 0,
       s_privacyKey := None, s_peerPrivacyKey := None, s_encCipher := None, s_decCipher := None\<rparr>"

section \<open>Header privacy\<close>

abbreviation PrivacyKeySize :: nat where "PrivacyKeySize \<equiv> 16"
abbreviation PrivacyNonceSize :: nat where "PrivacyNonceSize \<equiv> 13"
abbreviation privacyMICLength :: nat where "privacyMICLength \<equiv> 16"
abbreviation privacyNonceMICBytes :: nat where "privacyNonceMICBytes \<equiv> 11"
abbreviation privacyHeaderOffset :: nat where "privacyHeaderOffset \<equiv> 4"

type_synonym hkdf = "bytes \<Rightarrow> bytes \<Rightarrow> string \<Rightarrow> nat \<Rightarrow> bytes option"

definition DerivePrivacyKey :: "hkdf \<Rightarrow> bytes \<Rightarrow> (channel_error, bytes) go" where
  "DerivePrivacyKey hkdf sessionKey =
     (if length sessionKey \<noteq> PrivacyKeySize then Inl (Fail ErrPrivacyKeySource)
      else case hkdf sessionKey [] ''PrivacyKey'' PrivacyKeySize of
             None \<Rightarrow> Inl (Fail ErrPrivacyHkdf)
           | Some k \<Rightarrow> Inr k)"

definition PrivacyKeystream :: "(bytes \<Rightarrow> bytes \<Rightarrow> bytes) \<Rightarrow> bytes \<Rightarrow> u16 \<Rightarrow> bytes \<Rightarrow> int \<Rightarrow> (channel_error, bytes) go" where
  "PrivacyKeystream aes privacyKey sessionID mic n =
     (if length privacyKey \<noteq> PrivacyKeySize then Inl (Fail ErrPrivacyKeySource)
      else if length mic < privacyMICLength then Inl (Fail ErrPrivacyMICShort)
      else if n < 0 then Inl (Fail ErrPrivacyLength)
      else let tag = drop (length mic - privacyMICLength) mic;
               start = 0x01 # put_be16 sessionID @ drop (privacyMICLength - privacyNonceMICBytes) tag;
               blocks = (nat n + PrivacyKeySize - 1) div PrivacyKeySize;
               blocks = (if blocks = 0 then 1 else blocks)
           in Inr (concat (map (\<lambda>i. aes privacyKey (start @ put_be16 (word_of_nat (i + 1)))) [0..<blocks])))"

definition PrivacyMask :: "(bytes \<Rightarrow> bytes \<Rightarrow> bytes) \<Rightarrow> bytes \<Rightarrow> u16 \<Rightarrow> bytes \<Rightarrow> (channel_error, bytes) go" where
  "PrivacyMask aes privacyKey sessionID mic = PrivacyKeystream aes privacyKey sessionID mic (int PrivacyKeySize)"

text \<open>The slice as the call leaves it.\<close>

definition ApplyPrivacyMask :: "bytes \<Rightarrow> bytes \<Rightarrow> (channel_error, bytes) go" where
  "ApplyPrivacyMask keystream headerSlice =
     (if length keystream < PrivacyKeySize then Inl (Fail ErrPrivacyLength)
      else if length headerSlice > length keystream then Inl (Fail ErrPrivacyLength)
      else Inr (xor_bytes headerSlice keystream))"

definition PrivacyKey :: "hkdf \<Rightarrow> session \<Rightarrow> (channel_error, bytes) go \<times> session" where
  "PrivacyKey hkdf s =
     (if s_closed s then (Inl (Fail ErrSessionInactive), s)
      else case s_privacyKey s of
             Some k \<Rightarrow> (Inr k, s)
           | None \<Rightarrow> (case DerivePrivacyKey hkdf (s_encKey s) of
               Inl e \<Rightarrow> (Inl e, s)
             | Inr k \<Rightarrow> (Inr k, s\<lparr>s_privacyKey := Some k\<rparr>)))"

definition PeerPrivacyKey :: "hkdf \<Rightarrow> session \<Rightarrow> (channel_error, bytes) go \<times> session" where
  "PeerPrivacyKey hkdf s =
     (if s_closed s then (Inl (Fail ErrSessionInactive), s)
      else case s_peerPrivacyKey s of
             Some k \<Rightarrow> (Inr k, s)
           | None \<Rightarrow> (case DerivePrivacyKey hkdf (s_decKey s) of
               Inl e \<Rightarrow> (Inl e, s)
             | Inr k \<Rightarrow> (Inr k, s\<lparr>s_peerPrivacyKey := Some k\<rparr>)))"

section \<open>Group messages\<close>

definition PrivacyNonce :: "u16 \<Rightarrow> bytes \<Rightarrow> (channel_error, bytes) go" where
  "PrivacyNonce sessionID mic =
     (if length mic \<noteq> privacyMICLength then Inl (Fail ErrPrivacyMICShort)
      else Inr (put_be16 sessionID @ drop (privacyMICLength - privacyNonceMICBytes) mic))"

text \<open>The loop of \<open>Obfuscate\<close> from the block \<open>i\<close> on.\<close>

function obfuscate_blocks :: "(bytes \<Rightarrow> bytes) \<Rightarrow> bytes \<Rightarrow> nat \<Rightarrow> bytes \<Rightarrow> bytes" where
  "obfuscate_blocks cipher nonce i data =
     (if data = [] then []
      else xor_bytes (take PrivacyKeySize data) (cipher (0x01 # nonce @ put_be16 (word_of_nat (i + 1))))
             @ obfuscate_blocks cipher nonce (i + 1) (drop PrivacyKeySize data))"
  by pat_completeness auto
termination
  by (relation "measure (\<lambda>(cipher, nonce, i, data). length data)") auto

declare obfuscate_blocks.simps [simp del]

definition Obfuscate :: "(bytes \<Rightarrow> bytes \<Rightarrow> bytes) \<Rightarrow> bytes \<Rightarrow> bytes \<Rightarrow> bytes \<Rightarrow> (channel_error, bytes) go" where
  "Obfuscate aes privacyKey data nonce =
     (if length privacyKey \<noteq> PrivacyKeySize then Inl (Fail ErrPrivacyKeySource)
      else if length nonce \<noteq> PrivacyNonceSize then Inl (Fail ErrPrivacyLength)
      else Inr (obfuscate_blocks (aes privacyKey) nonce 0 data))"

definition ObfuscateGroupHeader ::
  "(bytes \<Rightarrow> bytes \<Rightarrow> bytes) \<Rightarrow> bytes \<Rightarrow> u16 \<Rightarrow> bytes \<Rightarrow> bytes \<Rightarrow> (channel_error, bytes) go" where
  "ObfuscateGroupHeader aes privacyKey sessionID headerBytes ciphertext =
     (if length headerBytes < privacyHeaderOffset then Inl (Fail ErrGroupHeaderShort)
      else if length ciphertext < TagSize then Inl (Fail ErrPrivacyMICShort)
      else let mic = drop (length ciphertext - TagSize) ciphertext in
        and_then (PrivacyNonce sessionID mic) (\<lambda>privacyNonce.
        and_then (Obfuscate aes privacyKey (drop privacyHeaderOffset headerBytes) privacyNonce) (\<lambda>obfuscated.
        Inr (take privacyHeaderOffset headerBytes @ obfuscated))))"

definition EncryptGroup ::
  "(bytes \<Rightarrow> bytes \<Rightarrow> bytes) \<Rightarrow> bytes \<Rightarrow> u64 \<Rightarrow> header \<Rightarrow> bytes \<Rightarrow> (channel_error, bytes \<times> bytes) go" where
  "EncryptGroup aes operationalKey sourceNodeID header payload =
     (if h_SessionType header \<noteq> SessionGroup \<or> h_DestSize header \<noteq> DestGroup then Inl (Fail ErrNotGroupHeader)
      else and_then (wrap_error ErrGroupEncode (MarshalPacket header)) (\<lambda>headerBytes.
        if sourceNodeID \<noteq> h_SourceNodeID header then Inl (Fail ErrSourceNodeMismatch)
        else and_then (index headerBytes 3) (\<lambda>securityFlags.
          let nonce = buildNonce securityFlags (h_MessageCounter header) (h_SourceNodeID header) in
          and_then (wrap_error ErrCipher (New_ccm aes operationalKey)) (\<lambda>ccm.
          and_then (wrap_error ErrSeal (Seal ccm [] nonce payload headerBytes)) (\<lambda>ciphertext.
          Inr (headerBytes, ciphertext))))))"

end
