(* ===== verification/Secure_Messages.thy ===== *)
theory Secure_Messages
  imports Channel Message_Theorems Mrp_Window
begin

text \<open>
  Messages on a session (\<^verbatim>\<open>client/exchange/manager.go\<close>): \<open>seal\<close> frames one message for the wire,
  \<open>openSession\<close> finds the session of a received one and opens it, \<open>decode_datagram\<close> is the receive path
  from the datagram up to the message that \<open>route\<close> gets. Session tables are maps; a session is
  the value its table holds, so that what a handler changes of it is written back. What the
  package does with time, exchanges and sockets is not part of it.
\<close>

section \<open>The model\<close>

record client_session =
  cs_secure :: "session option"
  cs_peer :: u16
  cs_nodeID :: u64
  cs_inbound :: bool
  cs_window :: window
  cs_usesMRP :: bool

record manager =
  em_counter :: u32
  em_closed :: bool
  em_sessions :: "u16 \<Rightarrow> client_session option"
  em_unsecured :: "u64 \<Rightarrow> client_session option"

definition plain_header :: header where
  "plain_header = \<lparr>h_SessionID = 0, h_MessageCounter = 0, h_HasSourceNodeID = False, h_SourceNodeID = 0,
     h_DestSize = DestNone, h_DestNodeID = 0, h_DestGroupID = 0, h_SessionType = SessionUnsecured,
     h_Privacy = False, h_Control = False, h_HasExtension = False, h_MessageExtension = [], h_Raw = []\<rparr>"

datatype session_error =
    Err_UnsecuredID | Err_NilAddress | Err_Channel channel_error | ErrSessionClosed | Err_Taken

definition NewSecureSession ::
  "(bytes \<Rightarrow> bytes \<Rightarrow> bytes) \<Rightarrow> u32 option \<Rightarrow> bool \<Rightarrow> bool \<Rightarrow> manager \<Rightarrow> u16 \<Rightarrow> channel_config
     \<Rightarrow> (session_error, client_session) go \<times> manager" where
  "NewSecureSession aes rand hasAddr mrp m i cfg =
     (if i = 0 then (Inl (Fail Err_UnsecuredID), m)
      else if \<not> hasAddr then (Inl (Fail Err_NilAddress), m)
      else case wrap_error Err_Channel (Session_New aes rand cfg) of
             Inl e \<Rightarrow> (Inl e, m)
           | Inr ch \<Rightarrow>
               let s = \<lparr>cs_secure = Some ch, cs_peer = PeerSessionID cfg, cs_nodeID = 0, cs_inbound = False,
                        cs_window = NewWindow, cs_usesMRP = mrp\<rparr>
               in if em_closed m then (Inl (Fail ErrSessionClosed), m)
                  else case em_sessions m i of
                         Some _ \<Rightarrow> (Inl (Fail Err_Taken), m)
                       | None \<Rightarrow> (Inr s, m\<lparr>em_sessions := (em_sessions m)(i \<mapsto> s)\<rparr>))"

text \<open>The global counter and the session are threaded; the result is the datagram and its counter.\<close>

definition seal ::
  "u32 \<Rightarrow> client_session \<Rightarrow> protocol_header \<Rightarrow> bytes \<Rightarrow> u64
     \<Rightarrow> (channel_error, bytes \<times> u32) go \<times> u32 \<times> client_session" where
  "seal ctr s proto payload dest =
     (let plain = ProtocolHeader_Marshal proto @ payload in
      case cs_secure s of
        None \<Rightarrow>
          (case CounterNext ctr of
             (n, ctr') \<Rightarrow>
               let hdr = plain_header\<lparr>h_MessageCounter := n\<rparr>;
                   hdr = (if dest \<noteq> 0 then hdr\<lparr>h_DestSize := DestNodeID, h_DestNodeID := dest\<rparr>
                          else if cs_inbound s then hdr\<lparr>h_DestSize := DestNodeID, h_DestNodeID := cs_nodeID s\<rparr>
                          else if cs_nodeID s \<noteq> 0 then hdr\<lparr>h_HasSourceNodeID := True, h_SourceNodeID := cs_nodeID s\<rparr>
                          else hdr)
               in (Inr (Header_Marshal hdr @ plain, h_MessageCounter hdr), ctr', s))
      | Some sec \<Rightarrow>
          let hdr = plain_header\<lparr>h_SessionID := cs_peer s\<rparr> in
          (case Encrypt sec hdr (SecurityFlags hdr) plain of
             (r, hdr', sec') \<Rightarrow>
               (and_then r (\<lambda>sealed. Inr (Header_Marshal hdr' @ Ciphertext sealed, Counter sealed)),
                ctr, s\<lparr>cs_secure := Some sec'\<rparr>)))"

datatype drop_reason =
    Drop_Header msg_error | Drop_SessionType | Drop_LateResponse | Drop_NoSource | Drop_NoSession
  | Drop_UnknownSession | Drop_Decrypt channel_error | Drop_Protocol msg_error

datatype session_ref = Secure u16 | Unsecured u64

definition NewUnsecured :: "u64 \<Rightarrow> bool \<Rightarrow> client_session" where
  "NewUnsecured node mrp = \<lparr>cs_secure = None, cs_peer = 0, cs_nodeID = node, cs_inbound = True,
     cs_window = NewWindow, cs_usesMRP = mrp\<rparr>"

definition newInboundSession :: "bool \<Rightarrow> manager \<Rightarrow> header \<Rightarrow> (drop_reason, client_session) go \<times> manager" where
  "newInboundSession mrp m hdr =
     (if \<not> h_HasSourceNodeID hdr then (Inl (Fail Drop_NoSource), m)
      else if em_closed m then (Inl (Fail Drop_NoSession), m)
      else case em_unsecured m (h_SourceNodeID hdr) of
             Some _ \<Rightarrow> (Inl (Fail Drop_NoSession), m)
           | None \<Rightarrow> let s = NewUnsecured (h_SourceNodeID hdr) mrp in
               (Inr s, m\<lparr>em_unsecured := (em_unsecured m)(h_SourceNodeID hdr \<mapsto> s)\<rparr>))"

record opened_message =
  o_session :: session_ref
  o_duplicate :: bool
  o_inbound :: bool
  o_body :: bytes

definition accept_unsecured :: "manager \<Rightarrow> u64 \<Rightarrow> client_session \<Rightarrow> bool \<Rightarrow> u32 \<Rightarrow> bytes \<Rightarrow> (drop_reason, opened_message) go \<times> manager" where
  "accept_unsecured m node s inbound ctr body =
     (case Accept (cs_window s) ctr of
        (ok, w) \<Rightarrow> (Inr \<lparr>o_session = Unsecured node, o_duplicate = (\<not> ok), o_inbound = inbound, o_body = body\<rparr>,
                   m\<lparr>em_unsecured := (em_unsecured m)(node \<mapsto> s\<lparr>cs_window := w\<rparr>)\<rparr>))"

text \<open>\<open>mrp\<close> is what \<open>UsesMRP\<close> answers for a session on the channel the datagram came from.\<close>

definition openSession :: "bool \<Rightarrow> manager \<Rightarrow> header \<Rightarrow> bytes \<Rightarrow> (drop_reason, opened_message) go \<times> manager" where
  "openSession mrp m hdr body =
     (if h_SessionID hdr = 0 then
        let hasDest = (h_DestSize hdr = DestNodeID);
            initiator = (if hasDest then h_DestNodeID hdr
                         else if h_HasSourceNodeID hdr then h_SourceNodeID hdr else 0)
        in case em_unsecured m initiator of
             Some s \<Rightarrow> accept_unsecured m initiator s False (h_MessageCounter hdr) body
           | None \<Rightarrow>
               if hasDest then (Inl (Fail Drop_LateResponse), m)
               else (case newInboundSession mrp m hdr of
                       (Inl e, m') \<Rightarrow> (Inl e, m')
                     | (Inr s, m') \<Rightarrow> accept_unsecured m' (h_SourceNodeID hdr) s True (h_MessageCounter hdr) body)
      else case em_sessions m (h_SessionID hdr) of
             None \<Rightarrow> (Inl (Fail Drop_UnknownSession), m)
           | Some s \<Rightarrow>
               (case (cs_secure s, NonceSecurityFlags hdr) of
                  (Some sec, Inr flags) \<Rightarrow>
                    (case Decrypt sec hdr flags body of
                       (r, sec') \<Rightarrow>
                         (case wrap_error Drop_Decrypt r of
                            Inl e \<Rightarrow> (Inl e, m\<lparr>em_sessions := (em_sessions m)(h_SessionID hdr \<mapsto> s\<lparr>cs_secure := Some sec'\<rparr>)\<rparr>)
                          | Inr (plain, dup) \<Rightarrow>
                              (Inr \<lparr>o_session = Secure (h_SessionID hdr), o_duplicate = dup, o_inbound = False, o_body = plain\<rparr>,
                               m\<lparr>em_sessions := (em_sessions m)(h_SessionID hdr \<mapsto> s\<lparr>cs_secure := Some sec'\<rparr>)\<rparr>)))
                | _ \<Rightarrow> (Inl Panic, m)))"

record client_message =
  m_Counter :: u32
  m_ProtocolID :: u16
  m_Opcode :: byte
  m_ExchangeID :: u16
  m_Initiator :: bool
  m_RequiresAck :: bool
  m_HasAck :: bool
  m_AckCounter :: u32
  m_Payload :: bytes

definition message_of :: "bool \<Rightarrow> u32 \<Rightarrow> protocol_header \<Rightarrow> bytes \<Rightarrow> client_message" where
  "message_of usesMRP ctr proto payload =
     \<lparr>m_Counter = ctr, m_ProtocolID = p_ProtocolID proto, m_Opcode = p_Opcode proto,
      m_ExchangeID = p_ExchangeID proto, m_Initiator = p_Initiator proto,
      m_RequiresAck = (p_NeedsAck proto \<and> usesMRP), m_HasAck = p_HasAck proto,
      m_AckCounter = p_AckCounter proto, m_Payload = payload\<rparr>"

fun session_at :: "manager \<Rightarrow> session_ref \<Rightarrow> client_session option" where
  "session_at m (Secure i) = em_sessions m i"
| "session_at m (Unsecured n) = em_unsecured m n"

text \<open>The session that was made for a message is closed and forgotten when no exchange holds it.\<close>

fun releaseInbound :: "manager \<Rightarrow> session_ref \<Rightarrow> manager" where
  "releaseInbound m (Secure i) = m\<lparr>em_sessions := (em_sessions m)(i := None)\<rparr>"
| "releaseInbound m (Unsecured n) = m\<lparr>em_unsecured := (em_unsecured m)(n := None)\<rparr>"

text \<open>
  What \<open>route\<close> is called with: the session, the message, and whether it is a duplicate. When the
  protocol header is refused \<open>route\<close> is not reached and no exchange holds an inbound session, so it
  is released; after \<open>route\<close> that depends on its handler.
\<close>

definition decode_datagram ::
  "bool \<Rightarrow> manager \<Rightarrow> bytes \<Rightarrow> (drop_reason, session_ref \<times> client_message \<times> bool) go \<times> manager" where
  "decode_datagram mrp m buf =
     (case UnmarshalHeader buf of
        Inl e \<Rightarrow> (wrap_error Drop_Header (Inl e), m)
      | Inr (hdr, hl) \<Rightarrow>
          if h_SessionType hdr \<noteq> SessionUnsecured \<or> h_Privacy hdr then (Inl (Fail Drop_SessionType), m)
          else case slice_from buf hl of
            Inl e \<Rightarrow> (Inl e, m)
          | Inr body \<Rightarrow>
              (case openSession mrp m hdr body of
                 (Inl e, m') \<Rightarrow> (Inl e, m')
               | (Inr x, m') \<Rightarrow>
                   (case wrap_error Drop_Protocol (UnmarshalProtocolHeader (o_body x)) of
                      Inl e \<Rightarrow> (Inl e, if o_inbound x then releaseInbound m' (o_session x) else m')
                    | Inr (proto, pl) \<Rightarrow>
                        (and_then (slice_from (o_body x) pl) (\<lambda>payload.
                         case session_at m' (o_session x) of
                           None \<Rightarrow> Inl Panic
                         | Some s \<Rightarrow> Inr (o_session x, message_of (cs_usesMRP s) (h_MessageCounter hdr) proto payload,
                                          o_duplicate x)), m'))))"

section \<open>One message\<close>

text \<open>The header of the message with the counter \<open>ctr\<close> on the session the peer knows as \<open>peer\<close>.\<close>

definition secure_header :: "u16 \<Rightarrow> u32 \<Rightarrow> header" where
  "secure_header peer ctr = plain_header\<lparr>h_SessionID := peer, h_MessageCounter := ctr\<rparr>"

lemma secure_header_facts:
  "h_SessionID (secure_header peer ctr) = peer" "h_MessageCounter (secure_header peer ctr) = ctr"
  "h_SessionType (secure_header peer ctr) = SessionUnsecured" "\<not> h_Privacy (secure_header peer ctr)"
  "SecurityFlags (secure_header peer ctr) = 0"
  "peer \<noteq> 0 \<Longrightarrow> wf_header (secure_header peer ctr)"
  "length (Header_Marshal (secure_header peer ctr)) = 8"
  "Header_Marshal (secure_header peer ctr) ! 3 = 0"
  by (simp_all add: secure_header_def plain_header_def SecurityFlags_def wf_header_def wf_variable_def session_rule_def
      Header_Marshal_def node_id_bytes_def Let_def nth_Cons' nth_append)

text \<open>The datagram of one message under the cipher \<open>c\<close>, sent by the node \<open>node\<close>.\<close>

definition sealed_frame :: "ccm \<Rightarrow> u64 \<Rightarrow> u16 \<Rightarrow> u32 \<Rightarrow> protocol_header \<times> bytes \<Rightarrow> bytes \<Rightarrow> bool" where
  "sealed_frame c node peer ctr msg d \<longleftrightarrow>
     (\<exists>ct. d = Header_Marshal (secure_header peer ctr) @ ct \<and>
        Seal c [] (buildNonce 0 ctr node) (ProtocolHeader_Marshal (fst msg) @ snd msg)
          (Header_Marshal (secure_header peer ctr)) = Inr ct)"

lemma length_buildNonce [simp]: "length (buildNonce f ctr node) = NonceSize"
  by (simp add: buildNonce_def)

definition can_encrypt :: "ccm \<Rightarrow> session \<Rightarrow> bool" where
  "can_encrypt c s \<longleftrightarrow> \<not> s_closed s \<and> s_encCipher s = Some c"

lemma seal_secure:
  assumes "cs_secure S = Some s" and "can_encrypt c s" and "s_out s \<noteq> 0xFFFFFFFF"
    and "length (ProtocolHeader_Marshal proto @ payload) \<le> 0xFFFF"
  shows "\<exists>d. seal ctr S proto payload dest =
      (Inr (d, s_out s), ctr, S\<lparr>cs_secure := Some (s\<lparr>s_out := s_out s + 1\<rparr>)\<rparr>)
    \<and> sealed_frame c (s_localNodeID s) (cs_peer S) (s_out s) (proto, payload) d"
proof -
  let ?plain = "ProtocolHeader_Marshal proto @ payload" and ?h = "secure_header (cs_peer S) (s_out s)"
  obtain ct where ct: "Seal c [] (buildNonce 0 (s_out s) (s_localNodeID s)) ?plain (Header_Marshal ?h) = Inr ct"
    using assms(4) by (simp add: Seal_def Let_def)
  have h: "(plain_header\<lparr>h_SessionID := cs_peer S\<rparr>)\<lparr>h_MessageCounter := s_out s\<rparr> = ?h"
    by (simp add: secure_header_def)
  have f: "SecurityFlags (plain_header\<lparr>h_SessionID := cs_peer S\<rparr>) = 0"
    by (simp add: SecurityFlags_def plain_header_def)
  have "Encrypt s (plain_header\<lparr>h_SessionID := cs_peer S\<rparr>) 0 ?plain =
      (Inr \<lparr>Counter = s_out s, Ciphertext = ct\<rparr>, ?h, s\<lparr>s_out := s_out s + 1\<rparr>)"
    using assms(2,3) ct by (simp add: Encrypt_def can_encrypt_def NextNoRollover_def Let_def h)
  then have "seal ctr S proto payload dest = (Inr (Header_Marshal ?h @ ct, s_out s), ctr,
      S\<lparr>cs_secure := Some (s\<lparr>s_out := s_out s + 1\<rparr>)\<rparr>)"
    using assms(1) by (simp add: seal_def Let_def f)
  with ct show ?thesis unfolding sealed_frame_def by auto
qed

definition can_receive :: "ccm \<Rightarrow> u64 \<Rightarrow> session \<Rightarrow> bool" where
  "can_receive c node r \<longleftrightarrow> \<not> s_closed r \<and> s_decCipher r = Some c \<and> s_peerNodeID r = node"

lemma decode_secure:
  assumes "block_cipher c" and "peer \<noteq> 0" and "wf_protocol (fst msg)"
    and d: "sealed_frame c node peer ctr msg d"
    and R: "em_sessions m peer = Some R" "cs_secure R = Some r" "can_receive c node r"
    and acc: "Accept (s_in r) ctr = (ok, w)"
  shows "decode_datagram mrp m d =
    (Inr (Secure peer, message_of (cs_usesMRP R) ctr (fst msg) (snd msg), \<not> ok),
     m\<lparr>em_sessions := (em_sessions m)(peer \<mapsto> R\<lparr>cs_secure := Some (r\<lparr>s_in := w\<rparr>)\<rparr>)\<rparr>)"
proof -
  let ?h = "secure_header peer ctr" and ?plain = "ProtocolHeader_Marshal (fst msg) @ snd msg"
  let ?hr = "?h\<lparr>h_Raw := Header_Marshal ?h\<rparr>"
  obtain ct where ct: "d = Header_Marshal ?h @ ct"
      "Seal c [] (buildNonce 0 ctr node) ?plain (Header_Marshal ?h) = Inr ct"
    using d by (auto simp: sealed_frame_def)
  note hf = secure_header_facts [of peer ctr]
  have u: "UnmarshalHeader d = Inr (?hr, 8)"
    using wf_header_roundtrip [OF hf(6) [OF assms(2)]] ct(1) hf(7) by simp
  have b: "8 \<le> length d" "drop 8 d = ct" using ct(1) hf(7) by simp_all
  have n: "NonceSecurityFlags ?hr = Inr 0"
    using hf(7,8) by (simp add: NonceSecurityFlags_def index_def)
  have o: "Open c [] (buildNonce 0 ctr node) ct (AAD ?hr) = Inr ?plain"
    using Open_iff_Seal [OF assms(1), of "[]" "buildNonce 0 ctr node" ct "Header_Marshal ?h" ?plain] ct(2) hf(7)
    by (auto simp: AAD_def)
  have "Decrypt r ?hr 0 ct = (Inr (?plain, \<not> ok), r\<lparr>s_in := w\<rparr>)"
    using R(3) o acc hf(2) by (simp add: Decrypt_def can_receive_def Let_def)
  then have op: "openSession mrp m ?hr ct = (Inr \<lparr>o_session = Secure peer, o_duplicate = (\<not> ok), o_inbound = False, o_body = ?plain\<rparr>,
      m\<lparr>em_sessions := (em_sessions m)(peer \<mapsto> R\<lparr>cs_secure := Some (r\<lparr>s_in := w\<rparr>)\<rparr>)\<rparr>)"
    using R(1,2) n hf(1) assms(2) by (simp add: openSession_def)
  show ?thesis
    using u b op hf(2,3,4) wf_protocol_roundtrip [OF assms(3), of "snd msg"]
    by (simp add: decode_datagram_def slice_from_def)
qed

end
