(* ===== verification/Secure_Delivery.thy ===== *)
theory Secure_Delivery
  imports Secure_Messages
begin

text \<open>
  Two ends of a secure session: what one seals the other opens, in whatever order and however
  often the datagrams arrive, and the reception window lets each message through once.
\<close>

section \<open>Runs\<close>

text \<open>A run of \<open>seal\<close> on one session, and of the receive path on one manager.\<close>

fun seal_all :: "u32 \<Rightarrow> client_session \<Rightarrow> (protocol_header \<times> bytes) list \<Rightarrow> (channel_error, bytes list) go" where
  "seal_all ctr S [] = Inr []"
| "seal_all ctr S ((proto, payload) # ms) =
     (case seal ctr S proto payload 0 of
        (r, ctr', S') \<Rightarrow> and_then r (\<lambda>(d, _). and_then (seal_all ctr' S' ms) (\<lambda>ds. Inr (d # ds))))"

fun open_all :: "bool \<Rightarrow> manager \<Rightarrow> bytes list \<Rightarrow> (drop_reason, session_ref \<times> client_message \<times> bool) go list" where
  "open_all mrp m [] = []"
| "open_all mrp m (d # ds) = (case decode_datagram mrp m d of (r, m') \<Rightarrow> r # open_all mrp m' ds)"

text \<open>The reference: every message arrives with the flag that tells whether its counter was fresh.\<close>

fun deliver :: "u32 list \<Rightarrow> client_message list \<Rightarrow> (client_message \<times> bool) list" where
  "deliver A [] = []"
| "deliver A (x # xs) = (x, \<not> fresh A (m_Counter x))
     # deliver (if fresh A (m_Counter x) then A @ [m_Counter x] else A) xs"

definition first_time :: "(client_message \<times> bool) list \<Rightarrow> client_message list" where
  "first_time rs = map fst (filter (\<lambda>(x, dup). \<not> dup) rs)"

lemma first_time_deliver: "accept_ref A (map m_Counter xs) = A @ map m_Counter (first_time (deliver A xs))"
  by (induction A xs rule: deliver.induct) (simp_all add: first_time_def)

lemma deliver_once: "distinct (map m_Counter (first_time (deliver [] xs)))"
  using distinct_accept_ref [of "[]" "map m_Counter xs"] first_time_deliver [of "[]" xs] by simp

lemma map_fst_deliver: "map fst (deliver A xs) = xs"
  by (induction A xs rule: deliver.induct) simp_all

lemma deliver_increasing:
  "sorted_wrt (<) (A @ map m_Counter xs) \<Longrightarrow> deliver A xs = map (\<lambda>x. (x, False)) xs"
proof (induction A xs rule: deliver.induct)
  case (2 A x xs)
  have less: "a < m_Counter x" if "a \<in> set A" for a
    using 2(2) that by (auto simp: sorted_wrt_append)
  then have "uint a \<le> uint (m_Counter x) + windowSize" if "a \<in> set A" for a
    using that by (fastforce simp: word_less_def)
  with less have "fresh A (m_Counter x)"
    by (cases A) (auto simp: fresh_def)
  with 2 show ?case by simp
qed simp

section \<open>Sender and receiver\<close>

definition counter_of :: "session \<Rightarrow> nat \<Rightarrow> u32" where
  "counter_of s i = s_out s + word_of_nat i"

lemma counter_of_Suc: "counter_of (s\<lparr>s_out := s_out s + 1\<rparr>) i = counter_of s (Suc i)"
  by (simp add: counter_of_def algebra_simps)

lemma unat_counter_of: "unat (s_out s) + i < 2 ^ 32 \<Longrightarrow> unat (counter_of s i) = unat (s_out s) + i"
  by (simp add: counter_of_def unat_word_ariths(1) unat_of_nat)

definition sendable :: "protocol_header \<times> bytes \<Rightarrow> bool" where
  "sendable msg \<longleftrightarrow> wf_protocol (fst msg) \<and> length (ProtocolHeader_Marshal (fst msg) @ snd msg) \<le> 0xFFFF"

lemma seal_all_frames:
  assumes "cs_secure S = Some s" and "can_encrypt c s" and "unat (s_out s) + length ms \<le> 0xFFFFFFFF"
    and "list_all sendable ms"
  shows "\<exists>ds. seal_all ctr S ms = Inr ds \<and> length ds = length ms
    \<and> (\<forall>i < length ms. sealed_frame c (s_localNodeID s) (cs_peer S) (counter_of s i) (ms ! i) (ds ! i))"
  using assms
proof (induction ms arbitrary: S s)
  case (Cons msg ms)
  obtain proto payload where msg: "msg = (proto, payload)" by (cases msg)
  have u: "unat (s_out s) < 0xFFFFFFFF" using Cons.prems(3) by simp
  then have ne: "s_out s \<noteq> 0xFFFFFFFF" by auto
  then have u1: "unat (s_out s + 1) = Suc (unat (s_out s))" by (rule unat_succ_u32)
  let ?s = "s\<lparr>s_out := s_out s + 1\<rparr>" and ?S = "S\<lparr>cs_secure := Some (s\<lparr>s_out := s_out s + 1\<rparr>)\<rparr>"
  obtain d where d: "seal ctr S proto payload 0 = (Inr (d, s_out s), ctr, ?S)"
      "sealed_frame c (s_localNodeID s) (cs_peer S) (s_out s) msg d"
    using seal_secure [OF Cons.prems(1,2) ne, of proto payload ctr 0] Cons.prems(4) by (auto simp: msg sendable_def)
  have "can_encrypt c ?s" "unat (s_out ?s) + length ms \<le> 0xFFFFFFFF" "list_all sendable ms"
    using Cons.prems u1 by (simp_all add: can_encrypt_def)
  from Cons.IH [of ?S ?s, OF _ this] obtain ds where ds: "seal_all ctr ?S ms = Inr ds" "length ds = length ms"
    "\<And>i. i < length ms \<Longrightarrow> sealed_frame c (s_localNodeID s) (cs_peer S) (counter_of s (Suc i)) (ms ! i) (ds ! i)"
    unfolding counter_of_Suc by auto
  have "sealed_frame c (s_localNodeID s) (cs_peer S) (counter_of s i) ((msg # ms) ! i) ((d # ds) ! i)"
    if "i < length (msg # ms)" for i
    using that d(2) ds(3) by (cases i) (simp_all add: counter_of_def)
  moreover have "seal_all ctr S (msg # ms) = Inr (d # ds)" using d(1) ds(1) by (simp add: msg)
  ultimately show ?case using ds(2) by (intro exI [of _ "d # ds"]) simp
qed simp

lemma decode_all_delivers:
  assumes "block_cipher c" and "peer \<noteq> 0" and "list_all sendable ms"
    and frames: "\<And>i. i < length ms \<Longrightarrow> sealed_frame c node peer (ctr i) (ms ! i) (ds ! i)"
    and "\<forall>i \<in> set order. i < length ms"
    and "em_sessions m peer = Some R" "cs_secure R = Some r" "can_receive c node r" "window_rel (s_in r) A"
  shows "open_all mrp m (map ((!) ds) order) =
    map (\<lambda>(x, dup). Inr (Secure peer, x, dup))
      (deliver A (map (\<lambda>i. message_of (cs_usesMRP R) (ctr i) (fst (ms ! i)) (snd (ms ! i))) order))"
  using assms(5-)
proof (induction order arbitrary: m R r A)
  case (Cons i order)
  obtain ok w where acc: "Accept (s_in r) (ctr i) = (ok, w)" by (cases "Accept (s_in r) (ctr i)")
  let ?R = "R\<lparr>cs_secure := Some (r\<lparr>s_in := w\<rparr>)\<rparr>" and ?A = "if fresh A (ctr i) then A @ [ctr i] else A"
  let ?m = "m\<lparr>em_sessions := (em_sessions m)(peer \<mapsto> ?R)\<rparr>"
  have i: "i < length ms" using Cons.prems(1) by simp
  have ok: "ok = fresh A (ctr i)" "window_rel w ?A" using Accept_sim [OF Cons.prems(5), of "ctr i"] acc by auto
  have wf: "wf_protocol (fst (ms ! i))" using assms(3) i by (simp add: list_all_length sendable_def)
  have "open_all mrp ?m (map ((!) ds) order) =
    map (\<lambda>(x, dup). Inr (Secure peer, x, dup))
      (deliver ?A (map (\<lambda>i. message_of (cs_usesMRP ?R) (ctr i) (fst (ms ! i)) (snd (ms ! i))) order))"
    using Cons.prems ok(2) by (intro Cons.IH [where r = "r\<lparr>s_in := w\<rparr>"]) (simp_all add: can_receive_def)
  then show ?case
    using decode_secure [OF assms(1,2) wf frames [OF i] Cons.prems(2-4) acc] ok(1)
    by (simp add: message_of_def)
qed simp

text \<open>The two sessions that a handshake with crossed keys and node ids gives.\<close>

definition crossed :: "channel_config \<Rightarrow> channel_config \<Rightarrow> bool" where
  "crossed a b \<longleftrightarrow> DecryptKey b = EncryptKey a \<and> PeerNodeID b = LocalNodeID a"

definition next_number :: "client_session \<Rightarrow> u32" where
  "next_number S = (case cs_secure S of None \<Rightarrow> 0 | Some s \<Rightarrow> s_out s)"

lemma NewSecureSession_Inr:
  assumes "NewSecureSession aes rand hasAddr mrp m i cfg = (Inr S, m')"
  shows "\<exists>s. i \<noteq> 0 \<and> Session_New aes rand cfg = Inr s \<and> cs_secure S = Some s \<and> cs_peer S = PeerSessionID cfg
    \<and> cs_usesMRP S = mrp \<and> em_sessions m' i = Some S"
  using assms
  by (auto simp: NewSecureSession_def Let_def split: if_splits sum.splits option.splits)

lemma Session_New_Inr:
  assumes "Session_New aes rand cfg = Inr s"
  shows "length (EncryptKey cfg) = KeySize" "length (DecryptKey cfg) = KeySize"
    "can_encrypt \<lparr>ccm_block = aes (EncryptKey cfg)\<rparr> s"
    "can_receive \<lparr>ccm_block = aes (DecryptKey cfg)\<rparr> (PeerNodeID cfg) s"
    "s_localNodeID s = LocalNodeID cfg" "s_in s = NewWindowNoRollover"
  using assms
  by (auto simp: Session_New_def New_ccm_def and_then_Inr_iff can_encrypt_def can_receive_def split: if_splits)

text \<open>
  C1. What is sealed on one end of a secure session is delivered by the other, each message once.
  Two managers hold sessions that a handshake gave crossed keys, node ids and session ids. Then
  sealing any messages within the counter space succeeds, and however the network reorders,
  duplicates and drops the datagrams (\<open>order\<close> is any sequence of their numbers), the receiver gets
  for every datagram exactly the message that was sent, with the duplicate flag of the reference
  that remembers all accepted counters: no message is flagged new twice, and without reordering
  none is flagged a duplicate.
\<close>

theorem secure_messages_delivered:
  assumes aes: "aes_blocks aes"
    and "NewSecureSession aes rand\<^sub>a True mrp\<^sub>a m\<^sub>a id\<^sub>a a = (Inr S, m\<^sub>a')"
    and "NewSecureSession aes rand\<^sub>b True mrp\<^sub>b m\<^sub>b (PeerSessionID a) b = (Inr R, m\<^sub>b')"
    and "crossed a b" and "unat (next_number S) + length ms \<le> 0xFFFFFFFF"
    and "list_all sendable ms" and "\<forall>i \<in> set order. i < length ms"
  shows "\<exists>ds. seal_all (em_counter m\<^sub>a') S ms = Inr ds \<and> length ds = length ms \<and>
    (let sent = map (\<lambda>i. message_of mrp\<^sub>b (next_number S + word_of_nat i) (fst (ms ! i)) (snd (ms ! i))) order;
         got = deliver [] sent
     in open_all mrp m\<^sub>b' (map ((!) ds) order) = map (\<lambda>(x, dup). Inr (Secure (PeerSessionID a), x, dup)) got
      \<and> map fst got = sent \<and> distinct (map m_Counter (first_time got))
      \<and> (sorted_wrt (<) order \<longrightarrow> first_time got = sent))"
proof -
  obtain s where s: "Session_New aes rand\<^sub>a a = Inr s" "cs_secure S = Some s" "cs_peer S = PeerSessionID a"
    using NewSecureSession_Inr [OF assms(2)] by blast
  obtain r where r: "PeerSessionID a \<noteq> 0" "Session_New aes rand\<^sub>b b = Inr r" "cs_secure R = Some r" "cs_usesMRP R = mrp\<^sub>b"
      "em_sessions m\<^sub>b' (PeerSessionID a) = Some R"
    using NewSecureSession_Inr [OF assms(3)] by blast
  have first: "next_number S = s_out s" using s(2) by (simp add: next_number_def)
  let ?c = "\<lparr>ccm_block = aes (EncryptKey a)\<rparr>"
  note sn = Session_New_Inr [OF s(1)] and rn = Session_New_Inr [OF r(2)]
  have c: "block_cipher ?c" using aes sn(1) by (simp add: block_cipher_def aes_blocks_def)
  have room: "unat (s_out s) + length ms \<le> 0xFFFFFFFF" using assms(5) first by simp
  obtain ds where ds: "seal_all (em_counter m\<^sub>a') S ms = Inr ds" "length ds = length ms"
      "\<And>i. i < length ms \<Longrightarrow> sealed_frame ?c (LocalNodeID a) (PeerSessionID a) (counter_of s i) (ms ! i) (ds ! i)"
    using seal_all_frames [OF s(2) sn(3) room assms(6), of "em_counter m\<^sub>a'"] unfolding s(3) sn(5) by blast
  have recv: "can_receive ?c (LocalNodeID a) r" using rn(4) assms(4) by (simp add: crossed_def)
  have win: "window_rel (s_in r) []" using rn(6) by (simp add: window_rel_def NewWindowNoRollover_def)
  let ?sent = "map (\<lambda>i. message_of mrp\<^sub>b (s_out s + word_of_nat i) (fst (ms ! i)) (snd (ms ! i))) order"
  have "open_all mrp m\<^sub>b' (map ((!) ds) order) = map (\<lambda>(x, dup). Inr (Secure (PeerSessionID a), x, dup)) (deliver [] ?sent)"
    using decode_all_delivers [OF c r(1) assms(6) ds(3) assms(7) r(5,3) recv win, of mrp] r(4)
    by (simp add: counter_of_def)
  moreover have "first_time (deliver [] ?sent) = ?sent" if "sorted_wrt (<) order"
  proof -
    have m: "map m_Counter ?sent = map (counter_of s) order" by (simp add: message_of_def counter_of_def)
    have "sorted_wrt (\<lambda>i j. counter_of s i < counter_of s j) order"
    proof (rule sorted_wrt_mono_rel [OF _ that])
      fix i j assume ij: "i \<in> set order" "j \<in> set order" "i < j"
      then have "i < length ms" "j < length ms" using assms(7) by blast+
      then have "unat (s_out s) + i < 2 ^ 32" "unat (s_out s) + j < 2 ^ 32" using room by simp_all
      then show "counter_of s i < counter_of s j" using ij(3) by (simp add: word_less_nat_alt unat_counter_of)
    qed
    then have "sorted_wrt (<) (map m_Counter ?sent)" unfolding m by (simp add: sorted_wrt_map)
    then have "deliver [] ?sent = map (\<lambda>x. (x, False)) ?sent" using deliver_increasing [of "[]" ?sent] by simp
    moreover have "first_time (map (\<lambda>x. (x, False)) xs) = xs" for xs by (induction xs) (simp_all add: first_time_def)
    ultimately show ?thesis by (simp only:)
  qed
  ultimately show ?thesis unfolding first using ds(1,2) deliver_once [of ?sent] map_fst_deliver [of "[]" ?sent] unfolding Let_def by blast
qed

section \<open>Any datagram\<close>

text \<open>Every session under a session id has its channel; \<open>NewSecureSession\<close> and the receive path keep this.\<close>

definition secure_table :: "manager \<Rightarrow> bool" where
  "secure_table m \<longleftrightarrow> (\<forall>s \<in> ran (em_sessions m). cs_secure s \<noteq> None)"

lemma secure_table_update:
  "secure_table m \<Longrightarrow> cs_secure s \<noteq> None \<Longrightarrow> secure_table (m\<lparr>em_sessions := (em_sessions m)(i \<mapsto> s)\<rparr>)"
  by (auto simp: secure_table_def ran_def)

lemma NewSecureSession_table:
  "secure_table m \<Longrightarrow> secure_table (snd (NewSecureSession aes rand hasAddr mrp m i cfg))"
  by (auto simp: NewSecureSession_def Let_def secure_table_update split: sum.splits option.splits)

lemma Open_no_panic: "Open c dst nonce sealed aad \<noteq> Inl Panic"
  by (simp add: Open_def Let_def)

lemma wrap_error_Panic_iff [simp]: "wrap_error f r = Inl Panic \<longleftrightarrow> r = Inl Panic"
  by (cases "(f, r)" rule: wrap_error.cases) auto

lemma Decrypt_no_panic: "fst (Decrypt s h flags body) \<noteq> Inl Panic"
  using Open_no_panic wrap_error_Panic_iff [of ErrUnauthenticated "Open _ _ _ _ _"]
  by (auto simp: Decrypt_def Let_def split: option.splits sum.splits prod.splits simp del: wrap_error_Panic_iff)

lemma NonceSecurityFlags_total: "\<exists>f. NonceSecurityFlags h = Inr f"
  by (simp add: NonceSecurityFlags_def index_def)

lemma accept_unsecured_safe:
  "fst (accept_unsecured m n s i c body) \<noteq> Inl Panic"
  "secure_table m \<Longrightarrow> secure_table (snd (accept_unsecured m n s i c body))"
  "accept_unsecured m n s i c body = (Inr x, m') \<Longrightarrow> session_at m' (o_session x) \<noteq> None"
  by (auto simp: accept_unsecured_def secure_table_def split: prod.splits)

lemma newInboundSession_safe:
  "fst (newInboundSession mrp m hdr) \<noteq> Inl Panic"
  "secure_table m \<Longrightarrow> secure_table (snd (newInboundSession mrp m hdr))"
  by (auto simp: newInboundSession_def secure_table_def Let_def split: option.splits)

lemma openSession_unsecured_safe:
  assumes "secure_table m" and "h_SessionID hdr = 0"
  shows "fst (openSession mrp m hdr body) \<noteq> Inl Panic \<and> secure_table (snd (openSession mrp m hdr body))
    \<and> (\<forall>x m'. openSession mrp m hdr body = (Inr x, m') \<longrightarrow> session_at m' (o_session x) \<noteq> None)"
  using assms newInboundSession_safe(1) [of mrp m hdr] newInboundSession_safe(2) [of m mrp hdr] accept_unsecured_safe
  by (auto simp: openSession_def Let_def split: option.splits prod.splits sum.splits)

lemma openSession_secure_safe:
  assumes "secure_table m" and "h_SessionID hdr \<noteq> 0"
  shows "fst (openSession mrp m hdr body) \<noteq> Inl Panic \<and> secure_table (snd (openSession mrp m hdr body))
    \<and> (\<forall>x m'. openSession mrp m hdr body = (Inr x, m') \<longrightarrow> session_at m' (o_session x) \<noteq> None)"
proof (cases "em_sessions m (h_SessionID hdr)")
  case None
  with assms show ?thesis by (simp add: openSession_def)
next
  case (Some s)
  obtain sec where sec: "cs_secure s = Some sec" using assms(1) Some by (auto simp: secure_table_def ran_def)
  obtain f where f: "NonceSecurityFlags hdr = Inr f" using NonceSecurityFlags_total by blast
  obtain r sec' where d: "Decrypt sec hdr f body = (r, sec')" by fastforce
  then have "r \<noteq> Inl Panic" using Decrypt_no_panic [of sec hdr f body] by simp
  then have "wrap_error Drop_Decrypt r \<noteq> Inl Panic" by simp
  with assms Some sec f d show ?thesis
    by (auto simp: openSession_def secure_table_update simp del: wrap_error_Panic_iff split: sum.splits prod.splits)
qed

lemma slice_from_le: "i \<le> length b \<Longrightarrow> slice_from b i = Inr (drop i b)"
  by (simp add: slice_from_def)

lemma releaseInbound_table: "secure_table m \<Longrightarrow> secure_table (releaseInbound m i)"
  by (cases i) (auto simp: secure_table_def ran_def)

lemma decode_datagram_safe:
  assumes "secure_table m"
  shows "fst (decode_datagram mrp m buf) \<noteq> Inl Panic \<and> secure_table (snd (decode_datagram mrp m buf))"
proof (cases "UnmarshalHeader buf")
  case (Inl e)
  with assms header_decoders_no_panic [of buf] show ?thesis by (auto simp: decode_datagram_def)
next
  case (Inr p)
  obtain hdr hl where p: "p = (hdr, hl)" by fastforce
  obtain r m' where o: "openSession mrp m hdr (drop hl buf) = (r, m')" by fastforce
  have hl: "hl \<le> length buf" using Inr p by (simp add: UnmarshalHeader_exact)
  have safe: "r \<noteq> Inl Panic" "secure_table m'" "\<And>x. r = Inr x \<Longrightarrow> session_at m' (o_session x) \<noteq> None"
    using openSession_unsecured_safe [OF assms, of hdr mrp "drop hl buf"] openSession_secure_safe [OF assms, of hdr mrp "drop hl buf"] o
    by (cases "h_SessionID hdr = 0"; simp)+
  show ?thesis
  proof (cases r)
    case (Inl e)
    with assms Inr p o hl safe show ?thesis by (simp add: decode_datagram_def slice_from_le)
  next
    case x: (Inr x)
    then obtain s where "session_at m' (o_session x) = Some s" using safe(3) by blast
    moreover have "wrap_error Drop_Protocol (UnmarshalProtocolHeader (o_body x)) \<noteq> Inl Panic"
      using header_decoders_no_panic [of "o_body x"] by simp
    moreover have "pl \<le> length (o_body x)" if "UnmarshalProtocolHeader (o_body x) = Inr (proto, pl)" for proto pl
      using that by (simp add: UnmarshalProtocolHeader_iff)
    ultimately show ?thesis using assms Inr p o hl safe x
      by (auto simp: decode_datagram_def slice_from_le releaseInbound_table simp del: wrap_error_Panic_iff split: sum.splits)
  qed
qed

section \<open>Example\<close>

text \<open>Two ends, and two messages.\<close>

definition config_a :: channel_config where
  "config_a = \<lparr>EncryptKey = replicate 16 3, DecryptKey = replicate 16 4, LocalNodeID = 17, PeerNodeID = 18,
     PeerCATs = [], PeerSessionID = 9, InitialCounter = 100\<rparr>"

definition config_b :: channel_config where
  "config_b = \<lparr>EncryptKey = replicate 16 4, DecryptKey = replicate 16 3, LocalNodeID = 18, PeerNodeID = 17,
     PeerCATs = [], PeerSessionID = 8, InitialCounter = 200\<rparr>"

definition empty_manager :: manager where
  "empty_manager = \<lparr>em_counter = 1, em_closed = False, em_sessions = (\<lambda>_. None), em_unsecured = (\<lambda>_. None)\<rparr>"

definition open_end :: "u16 \<Rightarrow> channel_config \<Rightarrow> client_session" where
  "open_end i cfg = (case fst (NewSecureSession toy_aes None True True empty_manager i cfg) of Inr s \<Rightarrow> s)"

definition end_manager :: "u16 \<Rightarrow> channel_config \<Rightarrow> manager" where
  "end_manager i cfg = snd (NewSecureSession toy_aes None True True empty_manager i cfg)"

definition sample_message :: "byte \<Rightarrow> protocol_header \<times> bytes" where
  "sample_message x = (\<lparr>p_Initiator = True, p_NeedsAck = True, p_HasAck = False, p_HasSecuredExt = False,
     p_HasVendorID = False, p_Opcode = x, p_ExchangeID = 5, p_ProtocolID = 1, p_VendorID = 0, p_AckCounter = 0,
     p_SecuredExtension = []\<rparr>, [x, x])"

lemma sample_channel_ends:
  "NewSecureSession toy_aes None True True empty_manager 8 config_a = (Inr (open_end 8 config_a), end_manager 8 config_a)"
  "NewSecureSession toy_aes None True True empty_manager (PeerSessionID config_a) config_b
     = (Inr (open_end 9 config_b), end_manager 9 config_b)"
  "crossed config_a config_b" "next_number (open_end 8 config_a) = 100"
  by (simp_all add: open_end_def end_manager_def NewSecureSession_def Session_New_def New_ccm_def config_a_def config_b_def
      empty_manager_def crossed_def next_number_def Let_def)

lemma sample_sendable: "list_all sendable [sample_message 2, sample_message 3]"
  by (simp add: sendable_def sample_message_def wf_protocol_def ProtocolHeader_Marshal_def)

theorem secure_messages_delivered_witness:
  "\<exists>ds. seal_all 1 (open_end 8 config_a) [sample_message 2, sample_message 3] = Inr ds \<and>
     open_all True (end_manager 9 config_b) [ds ! 1, ds ! 0, ds ! 1] =
       map (\<lambda>(x, dup). Inr (Secure 9, x, dup))
         (deliver [] [message_of True 101 (fst (sample_message 3)) [3, 3],
                      message_of True 100 (fst (sample_message 2)) [2, 2],
                      message_of True 101 (fst (sample_message 3)) [3, 3]])"
proof -
  have m: "em_counter (end_manager 8 config_a) = 1"
    using sample_channel_ends(1) by (simp add: end_manager_def NewSecureSession_def Session_New_def New_ccm_def config_a_def empty_manager_def Let_def)
  have p: "PeerSessionID config_a = 9" by (simp add: config_a_def)
  have x: "snd (sample_message 2) = [2, 2]" "snd (sample_message 3) = [3, 3]" by (simp_all add: sample_message_def)
  have room: "unat (next_number (open_end 8 config_a)) + length [sample_message 2, sample_message 3] \<le> 0xFFFFFFFF"
    by (simp add: sample_channel_ends(4))
  have idx: "\<forall>i \<in> set [1, 0, 1]. i < length [sample_message 2, sample_message 3]" by simp
  obtain ds where "seal_all 1 (open_end 8 config_a) [sample_message 2, sample_message 3] = Inr ds"
    "open_all True (end_manager 9 config_b) (map ((!) ds) [1, 0, 1]) = map (\<lambda>(x, dup). Inr (Secure 9, x, dup))
       (deliver [] (map (\<lambda>i. message_of True (100 + word_of_nat i) (fst ([sample_message 2, sample_message 3] ! i))
         (snd ([sample_message 2, sample_message 3] ! i))) [1, 0, 1]))"
    using secure_messages_delivered [OF toy_aes_blocks sample_channel_ends(1-3) room sample_sendable idx, of True]
    unfolding Let_def m p sample_channel_ends(4) by blast
  then show ?thesis by (simp add: x del: seal_all.simps open_all.simps deliver.simps)
qed

end
