(* ===== verification/Group_Messages.thy ===== *)
theory Group_Messages
  imports Channel
begin

text \<open>
  Group messages (\<^verbatim>\<open>groups\<close>): deriving the operational keys of a key set (\<^verbatim>\<open>keys.go\<close>,
  \<^verbatim>\<open>manager.go\<close>), framing and sealing an outbound message (\<^verbatim>\<open>sender.go\<close>), the persisted message
  counter (\<^verbatim>\<open>counter.go\<close>) and authenticating an inbound datagram (\<^verbatim>\<open>decode.go\<close>). A Go map is an
  association list; where the code sorts the keys of a map, so does the model. The manager is
  the state after \<open>ensureAllLoaded\<close>: what was read from the store is in memory. The string that
  \<^verbatim>\<open>hex.EncodeToString\<close> makes of a key stands for the key, so the key itself is the index.
\<close>

unbundle bit_operations_syntax

section \<open>Keys\<close>

datatype group_error =
    ErrNotGroupMessage | NoKeyError bool byte u16 | ErrDecrypt | ErrMalformed
  | ErrEpochKeyLength | ErrHkdf | ErrNoEpochKey | ErrGroupChannel channel_error | ErrGroupCipher ccm_error
  | ErrNoKeyFound | ErrKeyNotStarted

definition OperationalKey :: "hkdf \<Rightarrow> bytes \<Rightarrow> bytes \<Rightarrow> (group_error, bytes) go" where
  "OperationalKey hkdf epochKey compressedFabricID =
     (if length epochKey \<noteq> 16 then Inl (Fail ErrEpochKeyLength)
      else case hkdf epochKey compressedFabricID ''GroupKey v1.0'' 16 of
             None \<Rightarrow> Inl (Fail ErrHkdf)
           | Some k \<Rightarrow> Inr k)"

definition get_be16 :: "bytes \<Rightarrow> ('e, u16) go" where
  "get_be16 b = (if length b < 2 then Inl Panic else Inr (word_of_nat (le_value (rev (take 2 b)))))"

definition SessionID :: "hkdf \<Rightarrow> bytes \<Rightarrow> (group_error, u16) go" where
  "SessionID hkdf operationalKey =
     (case hkdf operationalKey [] ''GroupKeyHash'' 2 of
        None \<Rightarrow> Inl (Fail ErrHkdf)
      | Some hash \<Rightarrow> get_be16 hash)"

definition GroupPrivacyKey :: "hkdf \<Rightarrow> bytes \<Rightarrow> (group_error, bytes) go" where
  "GroupPrivacyKey hkdf operationalKey = wrap_error ErrGroupChannel (DerivePrivacyKey hkdf operationalKey)"

record epoch_key =
  ek_key :: bytes
  ek_privacy :: bytes
  ek_sessionID :: u16
  ek_ccm :: ccm
  ek_start :: u64

record key_set =
  ks_id :: u16
  ks_epochs :: "epoch_key list"

definition derive_epoch :: "(bytes \<Rightarrow> bytes \<Rightarrow> bytes) \<Rightarrow> hkdf \<Rightarrow> bytes \<Rightarrow> bytes \<times> u64 \<Rightarrow> (group_error, epoch_key) go" where
  "derive_epoch aes hkdf compressed slot =
     and_then (OperationalKey hkdf (fst slot) compressed) (\<lambda>k.
     and_then (SessionID hkdf k) (\<lambda>sid.
     and_then (GroupPrivacyKey hkdf k) (\<lambda>priv.
     and_then (wrap_error ErrGroupCipher (New_ccm aes k)) (\<lambda>ccm.
     Inr \<lparr>ek_key = k, ek_privacy = priv, ek_sessionID = sid, ek_ccm = ccm, ek_start = snd slot\<rparr>))))"

fun derive_epochs :: "(bytes \<Rightarrow> bytes \<Rightarrow> bytes) \<Rightarrow> hkdf \<Rightarrow> bytes \<Rightarrow> (bytes \<times> u64) list \<Rightarrow> (group_error, epoch_key list) go" where
  "derive_epochs aes hkdf compressed [] = Inr []"
| "derive_epochs aes hkdf compressed (slot # slots) =
     (if length (fst slot) = 0 then derive_epochs aes hkdf compressed slots
      else and_then (derive_epoch aes hkdf compressed slot) (\<lambda>e.
        and_then (derive_epochs aes hkdf compressed slots) (\<lambda>es. Inr (e # es))))"

text \<open>A stored key set: its id and the three slots of epoch key and start time.\<close>

definition deriveKeySet ::
  "(bytes \<Rightarrow> bytes \<Rightarrow> bytes) \<Rightarrow> hkdf \<Rightarrow> u16 \<Rightarrow> (bytes \<times> u64) list \<Rightarrow> bytes \<Rightarrow> (group_error, key_set) go" where
  "deriveKeySet aes hkdf i slots compressed =
     and_then (derive_epochs aes hkdf compressed slots) (\<lambda>epochs.
       if length epochs = 0 then Inl (Fail ErrNoEpochKey) else Inr \<lparr>ks_id = i, ks_epochs = epochs\<rparr>)"

section \<open>State\<close>

record fabric_groups =
  fg_index :: byte
  fg_nodeID :: u64
  fg_keySets :: "(u16 \<times> key_set) list"
  fg_idMap :: "(u16 \<times> u16) list"
  fg_table :: "(u16 \<times> u16 list) list"

record group_manager =
  gm_fabrics :: "(byte \<times> fabric_groups) list"
  gm_reception :: "bytes \<Rightarrow> (u64 \<Rightarrow> window option) option"

text \<open>The epoch key a sender uses: of the mapped key set, the last one that has started.\<close>

definition currentKey :: "fabric_groups \<Rightarrow> u16 \<Rightarrow> int \<Rightarrow> (group_error, u16 \<times> epoch_key) go" where
  "currentKey f groupID nowMs =
     (case map_of (fg_idMap f) groupID of
        None \<Rightarrow> Inl (Fail ErrNoKeyFound)
      | Some ksID \<Rightarrow>
          (case map_of (fg_keySets f) ksID of
             None \<Rightarrow> Inl (Fail ErrNoKeyFound)
           | Some ks \<Rightarrow>
               (case filter (\<lambda>e. nowMs \<ge> 0 \<and> ek_start e \<le> word_of_int nowMs * 1000) (ks_epochs ks) of
                  [] \<Rightarrow> Inl (Fail ErrKeyNotStarted)
                | es \<Rightarrow> Inr (ksID, last es))))"

definition forgetUnreferenced :: "group_manager \<Rightarrow> group_manager" where
  "forgetUnreferenced m =
     (let live = concat (map (\<lambda>(_, f). concat (map (\<lambda>(_, ks). map ek_key (ks_epochs ks)) (fg_keySets f))) (gm_fabrics m))
      in m\<lparr>gm_reception := (\<lambda>k. if k \<in> set live then gm_reception m k else None)\<rparr>)"

section \<open>Sending\<close>

record sender =
  sd_sessionID :: u16
  sd_groupID :: u16
  sd_key :: bytes
  sd_privacyKey :: bytes
  sd_nodeID :: u64

definition group_header :: "sender \<Rightarrow> u32 \<Rightarrow> header" where
  "group_header s messageID = \<lparr>h_SessionID = sd_sessionID s, h_MessageCounter = messageID, h_HasSourceNodeID = True,
     h_SourceNodeID = sd_nodeID s, h_DestSize = DestGroup, h_DestNodeID = 0, h_DestGroupID = sd_groupID s,
     h_SessionType = SessionGroup, h_Privacy = True, h_Control = False, h_HasExtension = False,
     h_MessageExtension = [], h_Raw = []\<rparr>"

definition group_protocol :: "u16 \<Rightarrow> u16 \<Rightarrow> byte \<Rightarrow> protocol_header" where
  "group_protocol exchangeID protocol opcode = \<lparr>p_Initiator = True, p_NeedsAck = False, p_HasAck = False,
     p_HasSecuredExt = False, p_HasVendorID = False, p_Opcode = opcode, p_ExchangeID = exchangeID,
     p_ProtocolID = protocol, p_VendorID = 0, p_AckCounter = 0, p_SecuredExtension = []\<rparr>"

definition Sender_encode ::
  "(bytes \<Rightarrow> bytes \<Rightarrow> bytes) \<Rightarrow> sender \<Rightarrow> u32 \<Rightarrow> u16 \<Rightarrow> bytes \<Rightarrow> u16 \<Rightarrow> byte \<Rightarrow> (channel_error, bytes) go" where
  "Sender_encode aes s messageID exchangeID payload protocol opcode =
     (let hdr = group_header s messageID;
          plain = ProtocolHeader_Marshal (group_protocol exchangeID protocol opcode) @ payload
      in and_then (EncryptGroup aes (sd_key s) (sd_nodeID s) hdr plain) (\<lambda>(headerBytes, ciphertext).
         and_then (ObfuscateGroupHeader aes (sd_privacyKey s) (sd_sessionID s) headerBytes ciphertext) (\<lambda>wireHeader.
         Inr (wireHeader @ ciphertext))))"

section \<open>Receiving\<close>

record group_message =
  g_Header :: header
  g_Payload :: bytes
  g_FabricIndex :: byte
  g_GroupID :: u16
  g_SourceNodeID :: u64
  g_KeySetID :: u16
  g_HasValidMapping :: bool
  g_Endpoints :: "u16 list"
  g_Duplicate :: bool

record candidate =
  c_fabric :: fabric_groups
  c_keySetID :: u16
  c_epoch :: epoch_key

definition candidates :: "group_manager \<Rightarrow> u16 \<Rightarrow> bool \<Rightarrow> candidate list" where
  "candidates m sessionID mapped =
     concat (map (\<lambda>idx. case map_of (gm_fabrics m) idx of None \<Rightarrow> [] | Some f \<Rightarrow>
       concat (map (\<lambda>i. case map_of (fg_keySets f) i of None \<Rightarrow> [] | Some ks \<Rightarrow>
         if (i \<in> set (map snd (fg_idMap f))) \<noteq> mapped then []
         else map (\<lambda>e. \<lparr>c_fabric = f, c_keySetID = i, c_epoch = e\<rparr>)
                (filter (\<lambda>e. ek_sessionID e = sessionID) (ks_epochs ks)))
         (sort (remdups (map fst (fg_keySets f))))))
       (sort (remdups (map fst (gm_fabrics m)))))"

definition protectedHeaderEnd :: "bytes \<Rightarrow> (group_error, nat) go" where
  "protectedHeaderEnd buf = and_then (index buf 0) (\<lambda>flags.
     Inr (8 + (if flags AND 0x04 \<noteq> 0 then 8 else 0)
            + (if flags AND 0x03 = 1 then 8 else if flags AND 0x03 = 2 then 2 else 0)))"

text \<open>The header region is unmasked in place.\<close>

definition unmask :: "(bytes \<Rightarrow> bytes \<Rightarrow> bytes) \<Rightarrow> bytes \<Rightarrow> u16 \<Rightarrow> bytes \<Rightarrow> bytes option" where
  "unmask aes privacy sessionID buf =
     (let mic = drop (length buf - TagSize) buf in
      case protectedHeaderEnd buf of
        Inl _ \<Rightarrow> None
      | Inr end \<Rightarrow>
          if end > length buf - TagSize then None
          else let region = take (end - 4) (drop 4 buf) in
            (case PrivacyKeystream aes privacy sessionID mic (int (length region)) of
               Inl _ \<Rightarrow> None
             | Inr keystream \<Rightarrow>
                 (case ApplyPrivacyMask keystream region of
                    Inl _ \<Rightarrow> None
                  | Inr clear \<Rightarrow> Some (take 4 buf @ clear @ drop end buf))))"

definition tryDecrypt :: "(bytes \<Rightarrow> bytes \<Rightarrow> bytes) \<Rightarrow> bytes \<Rightarrow> u16 \<Rightarrow> bool \<Rightarrow> candidate \<Rightarrow> (header \<times> bytes) option" where
  "tryDecrypt aes datagram sessionID privacy c =
     (if length datagram < 4 + TagSize then None
      else case (if privacy then unmask aes (ek_privacy (c_epoch c)) sessionID datagram else Some datagram) of
             None \<Rightarrow> None
           | Some buf \<Rightarrow>
               (case UnmarshalHeader buf of
                  Inl _ \<Rightarrow> None
                | Inr (hdr, hdrLen) \<Rightarrow>
                    if hdrLen > length buf then None
                    else (case NonceSecurityFlags hdr of
                            Inl _ \<Rightarrow> None
                          | Inr flags \<Rightarrow>
                              let nonce = flags # put_u32 (h_MessageCounter hdr) @ put_u64 (h_SourceNodeID hdr) in
                              (case Open (ek_ccm (c_epoch c)) [] nonce (drop hdrLen buf) (AAD hdr) of
                                 Inl _ \<Rightarrow> None
                               | Inr plain \<Rightarrow> Some (hdr, plain)))))"

definition receptionWindow :: "group_manager \<Rightarrow> bytes \<Rightarrow> u64 \<Rightarrow> window" where
  "receptionWindow m key source =
     (case gm_reception m key of
        None \<Rightarrow> NewWindowEncryptedRollover
      | Some perKey \<Rightarrow> (case perKey source of None \<Rightarrow> NewWindowEncryptedRollover | Some w \<Rightarrow> w))"

definition set_window :: "group_manager \<Rightarrow> bytes \<Rightarrow> u64 \<Rightarrow> window \<Rightarrow> group_manager" where
  "set_window m key source w =
     (let perKey = (case gm_reception m key of None \<Rightarrow> Map.empty | Some p \<Rightarrow> p)
      in m\<lparr>gm_reception := (gm_reception m)(key \<mapsto> perKey(source \<mapsto> w))\<rparr>)"

definition completeMessage :: "group_manager \<Rightarrow> header \<Rightarrow> bytes \<Rightarrow> candidate \<Rightarrow> group_message \<times> group_manager" where
  "completeMessage m hdr payload c =
     (let f = c_fabric c;
          valid = (case map_of (fg_idMap f) (h_DestGroupID hdr) of
                     None \<Rightarrow> False
                   | Some mappedID \<Rightarrow> (case map_of (fg_keySets f) mappedID of
                       None \<Rightarrow> False
                     | Some ks \<Rightarrow> list_ex (\<lambda>e. ek_key e = ek_key (c_epoch c)) (ks_epochs ks)));
          endpoints = (case map_of (fg_table f) (h_DestGroupID hdr) of None \<Rightarrow> [] | Some es \<Rightarrow> es)
      in case Accept (receptionWindow m (ek_key (c_epoch c)) (h_SourceNodeID hdr)) (h_MessageCounter hdr) of
           (ok, w) \<Rightarrow>
             (\<lparr>g_Header = hdr, g_Payload = payload, g_FabricIndex = fg_index f, g_GroupID = h_DestGroupID hdr,
               g_SourceNodeID = h_SourceNodeID hdr, g_KeySetID = c_keySetID c, g_HasValidMapping = valid,
               g_Endpoints = endpoints, g_Duplicate = (\<not> ok)\<rparr>,
              set_window m (ek_key (c_epoch c)) (h_SourceNodeID hdr) w))"

text \<open>The two loops of \<open>Decode\<close>: the report on unmapped key sets, and the mapped candidates.\<close>

fun report_unmapped :: "(bytes \<Rightarrow> bytes \<Rightarrow> bytes) \<Rightarrow> bytes \<Rightarrow> u16 \<Rightarrow> bool \<Rightarrow> candidate list \<Rightarrow> group_error" where
  "report_unmapped aes datagram sessionID privacy [] = NoKeyError False 0 0"
| "report_unmapped aes datagram sessionID privacy (c # cs) =
     (case tryDecrypt aes datagram sessionID privacy c of
        Some (hdr, _) \<Rightarrow>
          if h_DestSize hdr = DestGroup then NoKeyError True (fg_index (c_fabric c)) (h_DestGroupID hdr)
          else report_unmapped aes datagram sessionID privacy cs
      | None \<Rightarrow> report_unmapped aes datagram sessionID privacy cs)"

fun try_candidates ::
  "(bytes \<Rightarrow> bytes \<Rightarrow> bytes) \<Rightarrow> bytes \<Rightarrow> u16 \<Rightarrow> bool \<Rightarrow> group_manager \<Rightarrow> candidate list \<Rightarrow> (group_error, group_message) go \<times> group_manager" where
  "try_candidates aes datagram sessionID privacy m [] = (Inl (Fail ErrDecrypt), m)"
| "try_candidates aes datagram sessionID privacy m (c # cs) =
     (case tryDecrypt aes datagram sessionID privacy c of
        None \<Rightarrow> try_candidates aes datagram sessionID privacy m cs
      | Some (hdr, plain) \<Rightarrow>
          if h_DestSize hdr \<noteq> DestGroup \<or> h_DestGroupID hdr = 0 then (Inl (Fail ErrMalformed), m)
          else case completeMessage m hdr plain c of (msg, m') \<Rightarrow> (Inr msg, m'))"

definition Group_Decode :: "(bytes \<Rightarrow> bytes \<Rightarrow> bytes) \<Rightarrow> group_manager \<Rightarrow> bytes \<Rightarrow> (group_error, group_message) go \<times> group_manager" where
  "Group_Decode aes m datagram =
     (if length datagram < 4 then (Inl (Fail ErrMalformed), m)
      else let secFlags = datagram ! 3;
               sessionID = word_of_nat (le_value (take 2 (drop 1 datagram)))
           in if secFlags AND 0x03 \<noteq> SessionGroup then (Inl (Fail ErrNotGroupMessage), m)
              else if (datagram ! 0) AND 0x04 = 0 then (Inl (Fail ErrMalformed), m)
              else let privacy = (secFlags AND 0x80 \<noteq> 0);
                       cands = candidates m sessionID True
                   in if cands = [] then
                        (Inl (Fail (report_unmapped aes datagram sessionID privacy (candidates m sessionID False))), m)
                      else try_candidates aes datagram sessionID privacy m cands)"

end
