(* ===== verification/Group_Delivery.thy ===== *)
theory Group_Delivery
  imports Group_Messages Message_Theorems Mrp_Window
begin

text \<open>
  A group message that a node sends is authenticated by every node that holds the key: the two
  implementations of header privacy agree, the receiver recovers the header, and the reception
  window flags a replay.
\<close>

unbundle bit_operations_syntax

section \<open>Header privacy\<close>

text \<open>\<open>Obfuscate\<close> is the counter mode of AES-CCM.\<close>

lemma obfuscate_blocks_ctr:
  "obfuscate_blocks f nonce i data = ctr_blocks \<lparr>ccm_block = f\<rparr> nonce (word_of_nat (Suc i)) data"
proof (induction data arbitrary: i rule: length_induct)
  case (1 data)
  show ?case
  proof (cases "data = []")
    case True
    then show ?thesis by (simp add: obfuscate_blocks.simps ctr_blocks.simps)
  next
    case False
    have "obfuscate_blocks f nonce (Suc i) (drop 16 data)
        = ctr_blocks \<lparr>ccm_block = f\<rparr> nonce (word_of_nat (Suc (Suc i))) (drop 16 data)"
      using 1 False by simp
    moreover have "(word_of_nat (Suc i) :: u16) + 1 = word_of_nat (Suc (Suc i))" by simp
    ultimately show ?thesis
      using False by (subst obfuscate_blocks.simps, subst ctr_blocks.simps) simp
  qed
qed

lemma xor_bytes_append:
  "length b = n \<Longrightarrow> xor_bytes data (b @ r) = xor_bytes (take n data) b @ xor_bytes (drop n data) r"
proof -
  assume "length b = n"
  then have "xor_bytes (take n data @ drop n data) (b @ r) = xor_bytes (take n data) b @ xor_bytes (drop n data) r"
    by (cases "n \<le> length data") (simp_all add: xor_bytes_def zip_append1 zip_append2)
  then show ?thesis by simp
qed

text \<open>The keystream of \<open>PrivacyKeystream\<close>, xored over the data, is \<open>Obfuscate\<close>.\<close>

lemma keystream_obfuscates:
  assumes blk: "\<And>i. length (f (0x01 # nonce @ put_be16 i)) = PrivacyKeySize"
  shows "length data \<le> PrivacyKeySize * n \<Longrightarrow>
    xor_bytes data (concat (map (\<lambda>i. f (0x01 # nonce @ put_be16 (word_of_nat (i + 1)))) [k..<k + n]))
      = obfuscate_blocks f nonce k data"
proof (induction n arbitrary: k data)
  case 0
  then show ?case by (simp add: obfuscate_blocks.simps xor_bytes_def)
next
  case (Suc n)
  show ?case
  proof (cases "data = []")
    case True
    then show ?thesis by (simp add: obfuscate_blocks.simps xor_bytes_def)
  next
    case False
    have up: "[k..<k + Suc n] = k # [Suc k..<Suc k + n]" by (simp add: upt_conv_Cons)
    have "length (drop PrivacyKeySize data) \<le> PrivacyKeySize * n" using Suc.prems by simp
    from Suc.IH [OF this, of "Suc k"] show ?thesis
      unfolding up using False blk [of "word_of_nat (k + 1)"]
      by (subst obfuscate_blocks.simps) (simp add: xor_bytes_append)
  qed
qed

lemma length_obfuscate:
  assumes "\<And>b. length b = blockSize \<Longrightarrow> length (f b) = blockSize" and "length nonce = NonceSize"
  shows "length (obfuscate_blocks f nonce i data) = length data"
  using length_ctr_blocks [of "\<lparr>ccm_block = f\<rparr>" nonce] assms by (simp add: obfuscate_blocks_ctr block_cipher_def)

lemma obfuscate_twice:
  assumes "\<And>b. length b = blockSize \<Longrightarrow> length (f b) = blockSize" and "length nonce = NonceSize"
  shows "obfuscate_blocks f nonce i (obfuscate_blocks f nonce i data) = data"
  using ctr_blocks_twice [of "\<lparr>ccm_block = f\<rparr>" nonce] assms by (simp add: obfuscate_blocks_ctr block_cipher_def)

lemma privacy_agree:
  assumes aes: "aes_blocks aes"
    and key: "length key = PrivacyKeySize" and mic: "length mic = privacyMICLength"
  shows "\<exists>masked. and_then (PrivacyNonce sid mic) (Obfuscate aes key region) = Inr masked
    \<and> length masked = length region
    \<and> and_then (PrivacyKeystream aes key sid mic (int (length region))) (\<lambda>ks. ApplyPrivacyMask ks region) = Inr masked
    \<and> and_then (PrivacyKeystream aes key sid mic (int (length region))) (\<lambda>ks. ApplyPrivacyMask ks masked) = Inr region"
proof -
  let ?n = "put_be16 sid @ drop 5 mic"
  let ?f = "aes key"
  define n where "n = (let b = (15 + length region) div 16 in if b = 0 then 1 else b)"
  have len: "length ?n = NonceSize" using mic by simp
  have blk: "length (?f b) = blockSize" if "length b = blockSize" for b using aes key that by (simp add: aes_blocks_def)
  have cb: "length (?f (0x01 # ?n @ put_be16 i)) = PrivacyKeySize" for i using len blk by simp
  have n: "length region \<le> 16 * n" "0 < n" by (auto simp: n_def Let_def)
  define ks where "ks = concat (map (\<lambda>i. ?f (0x01 # ?n @ put_be16 (word_of_nat (i + 1)))) [0..<0 + n])"
  have ks: "PrivacyKeystream aes key sid mic (int (length region)) = Inr ks"
    using key mic by (simp add: PrivacyKeystream_def ks_def n_def Let_def)
  have "length ks = 16 * n" unfolding ks_def using cb by (simp add: length_concat o_def sum_list_triv)
  then have mask: "ApplyPrivacyMask ks x = Inr (obfuscate_blocks ?f ?n 0 x)" if "length x = length region" for x
    using keystream_obfuscates [where f = ?f and nonce = ?n and data = x and n = n and k = 0, OF cb] that n by (simp add: ApplyPrivacyMask_def ks_def)
  let ?m = "obfuscate_blocks ?f ?n 0 region"
  have l: "length ?m = length region" by (rule length_obfuscate [OF blk len])
  have "ApplyPrivacyMask ks ?m = Inr region" using mask [OF l] obfuscate_twice [OF blk len] by simp
  moreover have "and_then (PrivacyNonce sid mic) (Obfuscate aes key region) = Inr ?m"
    using key mic len by (simp add: PrivacyNonce_def Obfuscate_def)
  ultimately show ?thesis using l mask ks by auto
qed

text \<open>
  C28. The two implementations of header privacy agree: masking a region with the keystream that
  \<open>PrivacyKeystream\<close> produces for its length gives what \<open>Obfuscate\<close> gives under the nonce of the
  same session id and tag, and doing it twice gives the region back.
\<close>

theorem privacy_implementations_agree:
  assumes aes: "aes_blocks aes"
    and key: "length key = PrivacyKeySize" and mic: "length mic = privacyMICLength"
  shows "\<exists>masked. and_then (PrivacyNonce sid mic) (Obfuscate aes key region) = Inr masked
    \<and> length masked = length region
    \<and> and_then (PrivacyKeystream aes key sid mic (int (length region))) (\<lambda>ks. ApplyPrivacyMask ks region) = Inr masked
    \<and> and_then (PrivacyKeystream aes key sid mic (int (length region))) (\<lambda>ks. ApplyPrivacyMask ks masked) = Inr region"
  by (rule privacy_agree [OF assms])

section \<open>Delivery\<close>

lemma group_header_facts:
  "wf_header (group_header s i)" "MarshalPacket (group_header s i) = Inr (Header_Marshal (group_header s i))"
  "length (Header_Marshal (group_header s i)) = 18"
  "Header_Marshal (group_header s i) ! 0 = 6" "Header_Marshal (group_header s i) ! 3 = 0x81"
  "take 2 (drop 1 (Header_Marshal (group_header s i))) = put_u16 (sd_sessionID s)"
  by (simp_all add: group_header_def wf_header_def wf_variable_def session_rule_def MarshalPacket_def Header_Marshal_def
      node_id_bytes_def Let_def message_flags_def SecurityFlags_def nth_append)

text \<open>The epoch keys of a derived key set belong together.\<close>

definition wf_epoch :: "(bytes \<Rightarrow> bytes \<Rightarrow> bytes) \<Rightarrow> hkdf \<Rightarrow> epoch_key \<Rightarrow> bool" where
  "wf_epoch aes hkdf e \<longleftrightarrow> length (ek_key e) = 16 \<and> ek_ccm e = \<lparr>ccm_block = aes (ek_key e)\<rparr>
     \<and> GroupPrivacyKey hkdf (ek_key e) = Inr (ek_privacy e) \<and> SessionID hkdf (ek_key e) = Inr (ek_sessionID e)"

lemma derive_epochs_wf: "derive_epochs aes hkdf compressed slots = Inr es \<Longrightarrow> list_all (wf_epoch aes hkdf) es"
proof (induction slots arbitrary: es)
  case (Cons slot slots)
  show ?case
  proof (cases "length (fst slot) = 0")
    case False
    with Cons.prems obtain e rest where e: "derive_epoch aes hkdf compressed slot = Inr e"
        "derive_epochs aes hkdf compressed slots = Inr rest" "es = e # rest"
      by (auto simp: and_then_Inr_iff)
    have "wf_epoch aes hkdf e"
      using e(1) by (auto simp: derive_epoch_def wf_epoch_def New_ccm_def and_then_Inr_iff split: if_splits)
    with e Cons.IH [OF e(2)] show ?thesis by simp
  qed (use Cons in simp)
qed simp

definition key_sets_derived :: "(bytes \<Rightarrow> bytes \<Rightarrow> bytes) \<Rightarrow> hkdf \<Rightarrow> group_manager \<Rightarrow> bool" where
  "key_sets_derived aes hkdf m \<longleftrightarrow>
     (\<forall>idx f i ks. map_of (gm_fabrics m) idx = Some f \<and> map_of (fg_keySets f) i = Some ks \<longrightarrow>
        (\<exists>slots compressed. deriveKeySet aes hkdf i slots compressed = Inr ks))"

lemma candidates_sound:
  assumes "c \<in> set (candidates m sid mapped)"
  shows "\<exists>idx ks. map_of (gm_fabrics m) idx = Some (c_fabric c) \<and> map_of (fg_keySets (c_fabric c)) (c_keySetID c) = Some ks
    \<and> c_epoch c \<in> set (ks_epochs ks) \<and> ek_sessionID (c_epoch c) = sid"
proof -
  obtain idx f i ks e where "map_of (gm_fabrics m) idx = Some f" "map_of (fg_keySets f) i = Some ks"
      "e \<in> set (ks_epochs ks)" "ek_sessionID e = sid" "c = \<lparr>c_fabric = f, c_keySetID = i, c_epoch = e\<rparr>"
    using assms by (auto simp: candidates_def split: option.splits if_splits) metis+
  then show ?thesis by auto
qed

lemma candidates_wf:
  assumes "key_sets_derived aes hkdf m" and "c \<in> set (candidates m sid mapped)"
  shows "wf_epoch aes hkdf (c_epoch c) \<and> ek_sessionID (c_epoch c) = sid"
proof -
  obtain idx ks where c: "map_of (gm_fabrics m) idx = Some (c_fabric c)" "map_of (fg_keySets (c_fabric c)) (c_keySetID c) = Some ks"
      "c_epoch c \<in> set (ks_epochs ks)" "ek_sessionID (c_epoch c) = sid"
    using candidates_sound [OF assms(2)] by blast
  then obtain slots compressed where "deriveKeySet aes hkdf (c_keySetID c) slots compressed = Inr ks"
    using assms(1) unfolding key_sets_derived_def by blast
  then obtain es where "derive_epochs aes hkdf compressed slots = Inr es" "ks_epochs ks = es"
    by (auto simp: deriveKeySet_def and_then_Inr_iff split: if_splits)
  then show ?thesis using derive_epochs_wf c(3,4) by (auto simp: list_all_iff)
qed

text \<open>What \<^verbatim>\<open>crypto/hkdf\<close> promises of its result.\<close>

definition hkdf_lengths :: "hkdf \<Rightarrow> bool" where
  "hkdf_lengths hkdf \<longleftrightarrow> (\<forall>k salt info n out. hkdf k salt info n = Some out \<longrightarrow> length out = n)"

text \<open>A sender that uses the epoch key \<open>e\<close>.\<close>

definition uses_epoch :: "sender \<Rightarrow> epoch_key \<Rightarrow> bool" where
  "uses_epoch s e \<longleftrightarrow> sd_key s = ek_key e \<and> sd_privacyKey s = ek_privacy e \<and> sd_sessionID s = ek_sessionID e"

lemma EncryptGroup_header:
  assumes "EncryptGroup aes key (sd_nodeID s) (group_header s i) p = Inr (hb, ct)"
  shows "hb = Header_Marshal (group_header s i) \<and> length key = KeySize \<and>
    Seal \<lparr>ccm_block = aes key\<rparr> [] (buildNonce 0x81 i (sd_nodeID s)) p hb = Inr ct"
proof -
  have f: "h_SessionType (group_header s i) = SessionGroup" "h_DestSize (group_header s i) = DestGroup"
    "h_SourceNodeID (group_header s i) = sd_nodeID s" "h_MessageCounter (group_header s i) = i"
    by (simp_all add: group_header_def)
  show ?thesis
    using assms group_header_facts(2,3,5) [of s i]
    by (auto simp: EncryptGroup_def f New_ccm_def index_def and_then_Inr_iff Let_def split: if_splits)
qed

text \<open>The masked header in front of the ciphertext, and how the receiver takes the mask off.\<close>

lemma unmask_obfuscated:
  assumes aes: "aes_blocks aes"
    and hb: "length hb = 18" "hb ! 0 = 6" and ct: "TagSize \<le> length ct"
    and key: "length key = PrivacyKeySize"
  shows "\<exists>w. ObfuscateGroupHeader aes key sid hb ct = Inr w \<and> length w = 18 \<and> take 4 w = take 4 hb
    \<and> unmask aes key sid (w @ ct) = Some (hb @ ct)"
proof -
  let ?mic = "drop (length ct - TagSize) ct" and ?r = "drop 4 hb"
  have mic: "length ?mic = privacyMICLength" using ct by simp
  have r: "length ?r = 14" using hb(1) by simp
  obtain masked where m: "and_then (PrivacyNonce sid ?mic) (Obfuscate aes key ?r) = Inr masked" "length masked = 14"
      "and_then (PrivacyKeystream aes key sid ?mic (int 14)) (\<lambda>ks. ApplyPrivacyMask ks masked) = Inr ?r"
    using privacy_agree [OF aes key mic, of sid ?r] unfolding r by blast
  obtain nonce where nonce: "PrivacyNonce sid ?mic = Inr nonce" "Obfuscate aes key ?r nonce = Inr masked"
    using m(1) unfolding and_then_Inr_iff by blast
  obtain ks where ks: "PrivacyKeystream aes key sid ?mic (int 14) = Inr ks" "ApplyPrivacyMask ks masked = Inr ?r"
    using m(3) unfolding and_then_Inr_iff by blast
  let ?w = "take 4 hb @ masked"
  have w: "ObfuscateGroupHeader aes key sid hb ct = Inr ?w"
    using nonce hb(1) ct by (simp add: ObfuscateGroupHeader_def Let_def)
  have f: "(?w @ ct) ! 0 = 6" using hb by (simp add: nth_append)
  then have p: "protectedHeaderEnd (?w @ ct) = Inr 18" using hb(1) by (simp add: protectedHeaderEnd_def index_def)
  have parts: "drop (length (?w @ ct) - TagSize) (?w @ ct) = ?mic" "take 14 (drop 4 (?w @ ct)) = masked"
    "take 4 (?w @ ct) = take 4 hb" "drop 18 (?w @ ct) = ct"
    using hb(1) m(2) ct by simp_all
  have "unmask aes key sid (?w @ ct) = Some (take 4 hb @ ?r @ ct)"
    using ct hb(1) m(2) ks unfolding unmask_def Let_def p parts by (simp add: parts del: append_assoc)
  moreover have "take 4 hb @ ?r @ ct = hb @ ct" by (metis append_assoc append_take_drop_id)
  ultimately show ?thesis using w hb(1) m(2) by (intro exI [of _ ?w]) simp
qed

lemma tryDecrypt_encode:
  assumes aes: "aes_blocks aes"
    and "wf_epoch aes hkdf e" and priv: "length (ek_privacy e) = PrivacyKeySize" and "uses_epoch s e"
    and enc: "Sender_encode aes s i x payload protocol opcode = Inr d" and "c_epoch c = e"
  shows "tryDecrypt aes d (sd_sessionID s) True c =
      Some ((group_header s i)\<lparr>h_Raw := Header_Marshal (group_header s i)\<rparr>,
            ProtocolHeader_Marshal (group_protocol x protocol opcode) @ payload)
    \<and> 34 \<le> length d \<and> take 4 d = take 4 (Header_Marshal (group_header s i))"
proof -
  let ?hb = "Header_Marshal (group_header s i)" and ?p = "ProtocolHeader_Marshal (group_protocol x protocol opcode) @ payload"
  note gh = group_header_facts [of s i]
  obtain hb ct w where d: "EncryptGroup aes (sd_key s) (sd_nodeID s) (group_header s i) ?p = Inr (hb, ct)"
      "ObfuscateGroupHeader aes (sd_privacyKey s) (sd_sessionID s) hb ct = Inr w" "d = w @ ct"
    using enc by (auto simp: Sender_encode_def Let_def and_then_Inr_iff)
  have hb: "hb = ?hb" and seal: "Seal (ek_ccm e) [] (buildNonce 0x81 i (sd_nodeID s)) ?p ?hb = Inr ct"
    using EncryptGroup_header [OF d(1)] assms(2,4) by (auto simp: wf_epoch_def uses_epoch_def)
  have c: "block_cipher (ek_ccm e)" using aes assms(2) by (simp add: wf_epoch_def block_cipher_def aes_blocks_def)
  have ct: "TagSize \<le> length ct" using length_Seal [OF c seal] by simp
  have sp: "sd_privacyKey s = ek_privacy e" using assms(4) by (simp add: uses_epoch_def)
  have un: "unmask aes (ek_privacy e) (sd_sessionID s) d = Some (?hb @ ct)" "length w = 18" "take 4 w = take 4 ?hb"
    using unmask_obfuscated [OF aes gh(3,4) ct priv, of "sd_sessionID s"] d(2) unfolding hb sp d(3) by auto
  have o: "Open (ek_ccm e) [] (buildNonce 0x81 i (sd_nodeID s)) ct ?hb = Inr ?p"
    using Open_iff_Seal [OF c, of "[]"] seal by auto
  have h: "h_MessageCounter (group_header s i) = i" "h_SourceNodeID (group_header s i) = sd_nodeID s"
    by (simp_all add: group_header_def)
  have "tryDecrypt aes d (sd_sessionID s) True c = Some ((group_header s i)\<lparr>h_Raw := ?hb\<rparr>, ?p)"
    using un ct d(3) o wf_header_roundtrip [OF gh(1), of ct] gh(3,5)
    by (simp add: tryDecrypt_def assms(6) NonceSecurityFlags_def AAD_def index_def h buildNonce_def Let_def)
  then show ?thesis using un(2,3) ct d(3) by simp
qed

lemma try_candidates_first:
  assumes "\<forall>c \<in> set cs. tryDecrypt aes d sid pr c \<in> {None, Some (hdr, p)}"
    and "\<exists>c \<in> set cs. tryDecrypt aes d sid pr c = Some (hdr, p)"
    and "h_DestSize hdr = DestGroup" "h_DestGroupID hdr \<noteq> 0"
  shows "\<exists>c \<in> set cs. tryDecrypt aes d sid pr c = Some (hdr, p) \<and>
    (\<forall>m. try_candidates aes d sid pr m cs = (case completeMessage m hdr p c of (msg, m') \<Rightarrow> (Inr msg, m')))"
  using assms(1,2)
proof (induction cs)
  case (Cons c cs)
  show ?case
  proof (cases "tryDecrypt aes d sid pr c")
    case None
    with Cons show ?thesis by fastforce
  next
    case (Some y)
    with Cons.prems(1) have "tryDecrypt aes d sid pr c = Some (hdr, p)" by auto
    then show ?thesis using assms(3,4) by (intro bexI [of _ c]) auto
  qed
qed simp

lemma Sender_encode_succeeds:
  assumes aes: "aes_blocks aes"
    and "length (sd_key s) = KeySize" and "length (sd_privacyKey s) = PrivacyKeySize"
    and "length (ProtocolHeader_Marshal (group_protocol x protocol opcode) @ payload) \<le> 0xFFFF"
  shows "\<exists>d. Sender_encode aes s i x payload protocol opcode = Inr d"
proof -
  let ?h = "group_header s i" and ?p = "ProtocolHeader_Marshal (group_protocol x protocol opcode) @ payload"
  let ?c = "\<lparr>ccm_block = aes (sd_key s)\<rparr>"
  note gh = group_header_facts [of s i]
  have f: "h_SessionType ?h = SessionGroup" "h_DestSize ?h = DestGroup" "h_SourceNodeID ?h = sd_nodeID s" "h_MessageCounter ?h = i"
    by (simp_all add: group_header_def)
  have len: "length (buildNonce 0x81 i (sd_nodeID s)) = NonceSize" by (simp add: buildNonce_def)
  then obtain ct where ct: "Seal ?c [] (buildNonce 0x81 i (sd_nodeID s)) ?p (Header_Marshal ?h) = Inr ct"
    using assms(4) by (simp add: Seal_def Let_def)
  have c: "block_cipher ?c" using aes assms(2) by (simp add: block_cipher_def aes_blocks_def)
  have "EncryptGroup aes (sd_key s) (sd_nodeID s) ?h ?p = Inr (Header_Marshal ?h, ct)"
    using gh(2,3,5) ct assms(2) by (simp add: EncryptGroup_def f New_ccm_def index_def Let_def)
  moreover have "TagSize \<le> length ct" using length_Seal [OF c ct] by simp
  then obtain w where "ObfuscateGroupHeader aes (sd_privacyKey s) (sd_sessionID s) (Header_Marshal ?h) ct = Inr w"
    using unmask_obfuscated [OF aes gh(3,4) _ assms(3)] by blast
  ultimately show ?thesis by (simp add: Sender_encode_def Let_def)
qed

lemma completeMessage_replay:
  assumes "completeMessage m hdr p c = (msg, m')"
  shows "completeMessage m' hdr p c = (msg\<lparr>g_Duplicate := True\<rparr>, m') \<and> gm_fabrics m' = gm_fabrics m
    \<and> g_Header msg = hdr \<and> g_Payload msg = p \<and> g_GroupID msg = h_DestGroupID hdr
    \<and> g_SourceNodeID msg = h_SourceNodeID hdr \<and> g_FabricIndex msg = fg_index (c_fabric c)"
proof -
  let ?k = "ek_key (c_epoch c)" and ?n = "h_SourceNodeID hdr" and ?i = "h_MessageCounter hdr"
  obtain ok w where a: "Accept (receptionWindow m ?k ?n) ?i = (ok, w)" by (cases "Accept (receptionWindow m ?k ?n) ?i")
  have m': "m' = set_window m ?k ?n w" using assms a by (simp add: completeMessage_def Let_def)
  have w: "receptionWindow m' ?k ?n = w" by (simp add: m' receptionWindow_def set_window_def Let_def)
  have "Accept w ?i = (False, w)"
    using Accept_replay [of "receptionWindow m ?k ?n" ?i] Accept_replay [of w ?i] a
    by (cases "Accept w ?i") auto
  moreover have "set_window m' ?k ?n w = m'" by (simp add: m' set_window_def Let_def)
  moreover have "gm_fabrics m' = gm_fabrics m" by (simp add: m' set_window_def Let_def)
  ultimately show ?thesis using assms a w by (auto simp: completeMessage_def Let_def)
qed

text \<open>
  C10. A group message reaches every node that holds its key. When the key of the sender is one of
  the receiver's candidates for the session id, and no candidate with another key happens to
  authenticate the datagram, then sealing succeeds, and \<open>Decode\<close> of the datagram, its header masked,
  returns the payload under the sender's group, node and counter; the same datagram once more is
  authenticated again and flagged a duplicate.
\<close>

theorem group_message_delivered:
  assumes aes: "aes_blocks aes"
    and hkdf: "hkdf_lengths hkdf"
    and derived: "key_sets_derived aes hkdf m"
    and c: "c \<in> set (candidates m (sd_sessionID s) True)" "uses_epoch s (c_epoch c)"
    and "sd_groupID s \<noteq> 0"
    and "length (ProtocolHeader_Marshal (group_protocol x protocol opcode) @ payload) \<le> 0xFFFF"
  shows "\<exists>d. Sender_encode aes s i x payload protocol opcode = Inr d \<and>
    ((\<forall>c' \<in> set (candidates m (sd_sessionID s) True).
        ek_key (c_epoch c') \<noteq> sd_key s \<longrightarrow> tryDecrypt aes d (sd_sessionID s) True c' = None) \<longrightarrow>
     (\<exists>msg m'. Group_Decode aes m d = (Inr msg, m')
        \<and> g_Payload msg = ProtocolHeader_Marshal (group_protocol x protocol opcode) @ payload
        \<and> g_GroupID msg = sd_groupID s \<and> g_SourceNodeID msg = sd_nodeID s \<and> h_MessageCounter (g_Header msg) = i
        \<and> Group_Decode aes m' d = (Inr (msg\<lparr>g_Duplicate := True\<rparr>), m')))"
proof -
  let ?sid = "sd_sessionID s" and ?cs = "candidates m (sd_sessionID s) True"
  let ?p = "ProtocolHeader_Marshal (group_protocol x protocol opcode) @ payload"
  let ?h = "(group_header s i)\<lparr>h_Raw := Header_Marshal (group_header s i)\<rparr>"
  have priv: "length (ek_privacy e) = PrivacyKeySize" if "wf_epoch aes hkdf e" for e
    using that hkdf by (auto simp: hkdf_lengths_def wf_epoch_def GroupPrivacyKey_def DerivePrivacyKey_def split: if_splits option.splits)
  have same: "uses_epoch s (c_epoch c')" if "c' \<in> set ?cs" "ek_key (c_epoch c') = sd_key s" for c'
    using candidates_wf [OF derived that(1)] candidates_wf [OF derived c(1)] that(2) c(2)
    unfolding wf_epoch_def uses_epoch_def by (metis sum.inject(2))
  have wf: "wf_epoch aes hkdf (c_epoch c)" using candidates_wf [OF derived c(1)] by simp
  have keys: "length (sd_key s) = KeySize" "length (sd_privacyKey s) = PrivacyKeySize"
    using wf priv [OF wf] c(2) unfolding wf_epoch_def uses_epoch_def by metis+
  obtain d where d: "Sender_encode aes s i x payload protocol opcode = Inr d"
    using Sender_encode_succeeds [OF aes keys assms(7)] by blast
  have opens: "tryDecrypt aes d ?sid True c' = Some (?h, ?p)" if "c' \<in> set ?cs" "ek_key (c_epoch c') = sd_key s" for c'
    using tryDecrypt_encode [OF aes _ _ same [OF that] d] candidates_wf [OF derived that(1)] priv by blast
  have start: "34 \<le> length d" "take 4 d = take 4 (Header_Marshal (group_header s i))"
    using tryDecrypt_encode [OF aes wf priv [OF wf] c(2) d] by blast+
  have Decode: "Group_Decode aes n d = try_candidates aes d ?sid True n ?cs" if "gm_fabrics n = gm_fabrics m" for n
  proof -
    note gh = group_header_facts [of s i]
    have nth: "d ! k = Header_Marshal (group_header s i) ! k" if "k < 4" for k
      using start(2) that by (metis nth_take)
    have "take 2 (drop 1 d) = take 2 (drop 1 (take 4 d))" by (simp add: drop_take)
    also have "\<dots> = put_u16 ?sid" unfolding start(2) using gh(6) by (simp add: drop_take)
    finally have sid: "word_of_nat (le_value (take 2 (drop 1 d))) = ?sid"
      by (simp add: put_u16_def word_of_nat_le_value)
    have cs: "candidates n k b = candidates m k b" for k b using that by (simp add: candidates_def)
    have "?cs \<noteq> []" using c(1) by auto
    then show ?thesis
      using start(1) nth [of 0] nth [of 3] gh(4,5) unfolding Group_Decode_def sid cs by (simp add: Let_def)
  qed
  show ?thesis
  proof (intro exI [of _ d] conjI impI d)
    assume others: "\<forall>c' \<in> set ?cs. ek_key (c_epoch c') \<noteq> sd_key s \<longrightarrow> tryDecrypt aes d ?sid True c' = None"
    have h: "h_DestSize ?h = DestGroup" "h_DestGroupID ?h = sd_groupID s" "h_SourceNodeID ?h = sd_nodeID s" "h_MessageCounter ?h = i"
      by (simp_all add: group_header_def)
    have all: "\<forall>c' \<in> set ?cs. tryDecrypt aes d ?sid True c' \<in> {None, Some (?h, ?p)}" using opens others by blast
    have one: "\<exists>c' \<in> set ?cs. tryDecrypt aes d ?sid True c' = Some (?h, ?p)"
      using opens [OF c(1)] c by (auto simp: uses_epoch_def)
    have "h_DestGroupID ?h \<noteq> 0" using h(2) assms(6) by simp
    from try_candidates_first [OF all one h(1) this] obtain c0 where c0:
        "\<And>n. try_candidates aes d ?sid True n ?cs = (case completeMessage n ?h ?p c0 of (msg, m') \<Rightarrow> (Inr msg, m'))"
      by blast
    obtain msg m' where msg: "completeMessage m ?h ?p c0 = (msg, m')" by (cases "completeMessage m ?h ?p c0")
    note r = completeMessage_replay [OF msg]
    have "Group_Decode aes m d = (Inr msg, m')" using Decode [of m] c0 msg by simp
    moreover have "Group_Decode aes m' d = (Inr (msg\<lparr>g_Duplicate := True\<rparr>), m')" using Decode [of m'] c0 r by simp
    ultimately show "\<exists>msg m'. Group_Decode aes m d = (Inr msg, m') \<and> g_Payload msg = ?p \<and> g_GroupID msg = sd_groupID s
        \<and> g_SourceNodeID msg = sd_nodeID s \<and> h_MessageCounter (g_Header msg) = i
        \<and> Group_Decode aes m' d = (Inr (msg\<lparr>g_Duplicate := True\<rparr>), m')"
      using r h by (intro exI [of _ msg] exI [of _ m']) simp
  qed
qed

section \<open>Example\<close>

text \<open>A stand-in for the key derivation, and a node whose fabric 1 maps the group 5 to the key set 2.\<close>

definition toy_hkdf :: hkdf where
  "toy_hkdf k salt info n = Some (take n (k @ salt @ replicate n 1))"

definition sample_key_set :: key_set where
  "sample_key_set = (case deriveKeySet toy_aes toy_hkdf 2 [(replicate 16 9, 0), ([], 0), ([], 0)] [1, 2, 3, 4, 5, 6, 7, 8] of Inr ks \<Rightarrow> ks)"

definition sample_fabric :: fabric_groups where
  "sample_fabric = \<lparr>fg_index = 1, fg_nodeID = 77, fg_keySets = [(2, sample_key_set)], fg_idMap = [(5, 2)], fg_table = [(5, [1, 3])]\<rparr>"

definition sample_groups :: group_manager where
  "sample_groups = \<lparr>gm_fabrics = [(1, sample_fabric)], gm_reception = (\<lambda>_. None)\<rparr>"

definition sample_epoch :: epoch_key where
  "sample_epoch = \<lparr>ek_key = replicate 16 9, ek_privacy = replicate 16 9, ek_sessionID = 0x0909,
     ek_ccm = \<lparr>ccm_block = toy_aes (replicate 16 9)\<rparr>, ek_start = 0\<rparr>"

definition sample_sender :: sender where
  "sample_sender = \<lparr>sd_sessionID = 0x0909, sd_groupID = 5, sd_key = replicate 16 9, sd_privacyKey = replicate 16 9, sd_nodeID = 42\<rparr>"

lemma sample_derivation:
  "OperationalKey toy_hkdf (replicate 16 9) compressed = Inr (replicate 16 9)"
  "GroupPrivacyKey toy_hkdf (replicate 16 9) = Inr (replicate 16 9)"
  "SessionID toy_hkdf (replicate 16 9) = Inr 0x0909"
proof -
  show "OperationalKey toy_hkdf (replicate 16 9) compressed = Inr (replicate 16 9)"
    by (simp add: OperationalKey_def toy_hkdf_def)
  show "GroupPrivacyKey toy_hkdf (replicate 16 9) = Inr (replicate 16 9)"
    by (simp add: GroupPrivacyKey_def DerivePrivacyKey_def toy_hkdf_def)
  have "toy_hkdf (replicate 16 9) [] info 2 = Some [9, 9]" for info
    by (simp add: toy_hkdf_def) (simp add: numeral_2_eq_2)
  moreover have "(get_be16 [9, 9] :: (group_error, u16) go) = Inr 0x0909" by code_simp
  ultimately show "SessionID toy_hkdf (replicate 16 9) = Inr 0x0909" by (simp add: SessionID_def)
qed

lemma sample_key_set_eq:
  "deriveKeySet toy_aes toy_hkdf 2 [(replicate 16 9, 0), ([], 0), ([], 0)] [1, 2, 3, 4, 5, 6, 7, 8] = Inr sample_key_set"
  "sample_key_set = \<lparr>ks_id = 2, ks_epochs = [sample_epoch]\<rparr>"
proof -
  have "deriveKeySet toy_aes toy_hkdf 2 [(replicate 16 9, 0), ([], 0), ([], 0)] [1, 2, 3, 4, 5, 6, 7, 8]
      = Inr \<lparr>ks_id = 2, ks_epochs = [sample_epoch]\<rparr>"
    by (simp add: deriveKeySet_def derive_epoch_def sample_derivation New_ccm_def sample_epoch_def)
  then show "deriveKeySet toy_aes toy_hkdf 2 [(replicate 16 9, 0), ([], 0), ([], 0)] [1, 2, 3, 4, 5, 6, 7, 8] = Inr sample_key_set"
    "sample_key_set = \<lparr>ks_id = 2, ks_epochs = [sample_epoch]\<rparr>" by (simp_all add: sample_key_set_def)
qed

lemma sample_groups_derived: "key_sets_derived toy_aes toy_hkdf sample_groups"
  unfolding key_sets_derived_def
  using sample_key_set_eq(1) by (auto simp: sample_groups_def sample_fabric_def split: if_splits)

lemma sample_candidates:
  "candidates sample_groups 0x0909 True = [\<lparr>c_fabric = sample_fabric, c_keySetID = 2, c_epoch = sample_epoch\<rparr>]"
  by (simp add: candidates_def sample_groups_def sample_fabric_def sample_key_set_eq(2)) (simp add: sample_epoch_def)

theorem group_message_delivered_witness:
  "\<exists>d msg m'. Sender_encode toy_aes sample_sender 7 3 [1, 2] 1 8 = Inr d \<and> Group_Decode toy_aes sample_groups d = (Inr msg, m')
     \<and> g_Payload msg = ProtocolHeader_Marshal (group_protocol 3 1 8) @ [1, 2] \<and> g_GroupID msg = 5 \<and> g_SourceNodeID msg = 42
     \<and> Group_Decode toy_aes m' d = (Inr (msg\<lparr>g_Duplicate := True\<rparr>), m')"
proof -
  have h: "hkdf_lengths toy_hkdf" by (auto simp: hkdf_lengths_def toy_hkdf_def)
  have s: "sd_sessionID sample_sender = 0x0909" "sd_groupID sample_sender = 5" "sd_key sample_sender = ek_key sample_epoch"
    "sd_nodeID sample_sender = 42" "uses_epoch sample_sender sample_epoch"
    by (simp_all add: sample_sender_def sample_epoch_def uses_epoch_def)
  have c: "\<lparr>c_fabric = sample_fabric, c_keySetID = 2, c_epoch = sample_epoch\<rparr>
      \<in> set (candidates sample_groups (sd_sessionID sample_sender) True)"
    by (simp add: s sample_candidates)
  have p: "length (ProtocolHeader_Marshal (group_protocol 3 1 8) @ [1, 2]) \<le> 0xFFFF"
    by (simp add: ProtocolHeader_Marshal_def group_protocol_def)
  have u: "uses_epoch sample_sender (c_epoch \<lparr>c_fabric = sample_fabric, c_keySetID = 2, c_epoch = sample_epoch\<rparr>)"
    using s(5) by simp
  have g: "sd_groupID sample_sender \<noteq> 0" using s(2) by simp
  from group_message_delivered [OF toy_aes_blocks h sample_groups_derived c u g p, of 7] show ?thesis
    unfolding s(1-4) sample_candidates by auto
qed

theorem privacy_implementations_agree_witness:
  "\<exists>masked. and_then (PrivacyNonce 7 (replicate 16 2)) (Obfuscate toy_aes (replicate 16 1) [1, 2, 3]) = Inr masked
    \<and> and_then (PrivacyKeystream toy_aes (replicate 16 1) 7 (replicate 16 2) 3) (\<lambda>ks. ApplyPrivacyMask ks masked) = Inr [1, 2, 3]"
  using privacy_implementations_agree [OF toy_aes_blocks, of "replicate 16 1" "replicate 16 2" 7 "[1, 2, 3]"] by auto

end
