(* ===== verification/Group_Counter.thy ===== *)
theory Group_Counter
  imports Mrp_Counter
begin

text \<open>
  The persisted counter of group messages (\<^verbatim>\<open>groups/counter.go\<close>). The store keeps a mark ahead of
  the counter; the mark is moved before a value at or past it is handed out. Every access to the
  store may fail, and a write that reports an error may have reached the disk or not
  (\<open>write_outcome\<close>). The counter and the mark are numbers of 64 bits that never exceed \<open>2 ^ 32 + 1000\<close>,
  so they are natural numbers here. Logging is left out.
\<close>

section \<open>The counter\<close>

abbreviation groupDataCounterReserve :: nat where "groupDataCounterReserve \<equiv> 1000"
abbreviation maxCounterValue :: nat where "maxCounterValue \<equiv> 0xFFFFFFFF"

datatype write_outcome = Stored | Refused | Stored_Unacknowledged

datatype counter_error = ErrNoCounterStore | ErrCounterLoad | ErrCounterInvalid | ErrCounterRandom | ErrCounterPersist

record data_counter =
  dc_value :: nat
  dc_reserved :: nat

definition randomCounterStart :: "u32 option \<Rightarrow> u32 option" where
  "randomCounterStart rand = map_option (\<lambda>r. drop_bit 4 r + 1) rand"

text \<open>What the store holds afterwards is returned with the result.\<close>

definition SetMetadataCounter :: "write_outcome \<Rightarrow> nat \<Rightarrow> nat option \<Rightarrow> bool \<times> nat option" where
  "SetMetadataCounter w v stored =
     (case w of Stored \<Rightarrow> (True, Some v) | Refused \<Rightarrow> (False, stored) | Stored_Unacknowledged \<Rightarrow> (False, Some v))"

definition reserveAhead :: "write_outcome \<Rightarrow> data_counter \<Rightarrow> nat option \<Rightarrow> (counter_error, unit) go \<times> data_counter \<times> nat option" where
  "reserveAhead w c stored =
     (let reserved = min (dc_value c + groupDataCounterReserve) maxCounterValue in
      case SetMetadataCounter w reserved stored of
        (True, stored') \<Rightarrow> (Inr (), c\<lparr>dc_reserved := reserved\<rparr>, stored')
      | (False, stored') \<Rightarrow> (Inl (Fail ErrCounterPersist), c, stored'))"

definition newDataCounter ::
  "bool \<Rightarrow> u32 option \<Rightarrow> write_outcome \<Rightarrow> nat option \<Rightarrow> (counter_error, data_counter) go \<times> nat option" where
  "newDataCounter readable rand w stored =
     (if \<not> readable then (Inl (Fail ErrCounterLoad), stored)
      else let reserve = (\<lambda>v. case reserveAhead w \<lparr>dc_value = v, dc_reserved = 0\<rparr> stored of
                           (Inl e, _, stored') \<Rightarrow> (Inl e, stored')
                         | (Inr _, c, stored') \<Rightarrow> (Inr c, stored'))
           in case stored of
                Some v \<Rightarrow> if v > maxCounterValue then (Inl (Fail ErrCounterInvalid), stored) else reserve v
              | None \<Rightarrow> (case randomCounterStart rand of
                  None \<Rightarrow> (Inl (Fail ErrCounterRandom), stored)
                | Some start \<Rightarrow> reserve (unat start)))"

definition counter_next ::
  "write_outcome \<Rightarrow> data_counter \<Rightarrow> nat option \<Rightarrow> (counter_error, u32) go \<times> data_counter \<times> nat option" where
  "counter_next w c stored =
     (let v = dc_value c + 1;
          c = c\<lparr>dc_value := (if v > maxCounterValue then 0 else v)\<rparr>
      in if dc_value c \<ge> dc_reserved c \<or> dc_value c + groupDataCounterReserve < dc_reserved c then
           (case reserveAhead w c stored of
              (Inl e, c', stored') \<Rightarrow> (Inl e, c', stored')
            | (Inr _, c', stored') \<Rightarrow> (Inr (word_of_nat (dc_value c')), c', stored'))
         else (Inr (word_of_nat (dc_value c)), c, stored))"

text \<open>\<open>cn_keepsCounter\<close> tells whether the store of the node is a \<open>CounterStore\<close>.\<close>

record counter_node =
  cn_keepsCounter :: bool
  cn_stored :: "nat option"
  cn_counter :: "data_counter option"

text \<open>\<open>groupDataCounter\<close>: the counter is created on first use; a failed creation is not kept.\<close>

definition groupDataCounter ::
  "bool \<Rightarrow> u32 option \<Rightarrow> write_outcome \<Rightarrow> counter_node \<Rightarrow> (counter_error, data_counter) go \<times> counter_node" where
  "groupDataCounter readable rand w n =
     (case cn_counter n of
        Some c \<Rightarrow> (Inr c, n)
      | None \<Rightarrow>
          if \<not> cn_keepsCounter n then (Inl (Fail ErrNoCounterStore), n)
          else (case newDataCounter readable rand w (cn_stored n) of
             (Inl e, stored) \<Rightarrow> (Inl e, n\<lparr>cn_stored := stored\<rparr>)
           | (Inr c, stored) \<Rightarrow> (Inr c, n\<lparr>cn_stored := stored, cn_counter := Some c\<rparr>)))"

text \<open>How \<open>seal\<close> takes the number of one message.\<close>

definition take_number ::
  "bool \<Rightarrow> u32 option \<Rightarrow> write_outcome \<Rightarrow> write_outcome \<Rightarrow> counter_node \<Rightarrow> (counter_error, u32) go \<times> counter_node" where
  "take_number readable rand w w' n =
     (case groupDataCounter readable rand w n of
        (Inl e, n') \<Rightarrow> (Inl e, n')
      | (Inr c, n') \<Rightarrow>
          (case counter_next w' c (cn_stored n') of
             (r, c', stored) \<Rightarrow> (r, n'\<lparr>cn_stored := stored, cn_counter := Some c'\<rparr>)))"

section \<open>Runs\<close>

text \<open>A life of a node: messages are numbered, and at any time the process ends and starts again.\<close>

datatype counter_event = Number bool "u32 option" write_outcome write_outcome | Restart

fun counter_run :: "counter_node \<Rightarrow> counter_event list \<Rightarrow> u32 list" where
  "counter_run n [] = []"
| "counter_run n (Restart # es) = counter_run (n\<lparr>cn_counter := None\<rparr>) es"
| "counter_run n (Number readable rand w w' # es) =
     (case take_number readable rand w w' n of
        (Inl e, n') \<Rightarrow> counter_run n' es
      | (Inr v, n') \<Rightarrow> v # counter_run n' es)"

text \<open>How far an event can move the mark.\<close>

fun cost :: "counter_event \<Rightarrow> nat" where
  "cost Restart = 1000"
| "cost (Number readable rand w w') = (if w = Stored_Unacknowledged then 1001 else 1)"

text \<open>The state: \<open>h\<close> bounds the values handed out, \<open>B\<close> what the counter may have reached.\<close>

definition node_inv :: "nat \<Rightarrow> nat \<Rightarrow> counter_node \<Rightarrow> bool" where
  "node_inv h B n \<longleftrightarrow> B \<le> maxCounterValue \<and>
     (case (cn_counter n, cn_stored n) of
        (Some c, Some st) \<Rightarrow> h \<le> dc_value c \<and> dc_reserved c \<le> st \<and> h \<le> st \<and> st \<le> dc_value c + 1000 \<and> dc_value c + 1000 \<le> B
      | (Some c, None) \<Rightarrow> False
      | (None, Some st) \<Rightarrow> h \<le> st \<and> st + 1000 \<le> B
      | (None, None) \<Rightarrow> h = 0 \<and> 2 ^ 28 + 2000 \<le> B)"

lemma seed_bound: "randomCounterStart rand = Some start \<Longrightarrow> unat start \<le> 2 ^ 28"
proof -
  assume "randomCounterStart rand = Some start"
  then obtain r where r: "start = drop_bit 4 r + 1" by (auto simp: randomCounterStart_def)
  have "unat (drop_bit 4 r :: u32) = unat r div 16" by (simp add: drop_bit_eq_div unat_div)
  then have "unat (drop_bit 4 r :: u32) < 2 ^ 28" using unat_bounds(3) [of r] by simp
  then show ?thesis by (simp add: r unat_word_ariths(1))
qed

lemma reserve_mark:
  assumes "v + 1000 \<le> maxCounterValue"
  shows "reserveAhead w \<lparr>dc_value = v, dc_reserved = r\<rparr> stored = (case w of
      Stored \<Rightarrow> (Inr (), \<lparr>dc_value = v, dc_reserved = v + 1000\<rparr>, Some (v + 1000))
    | Refused \<Rightarrow> (Inl (Fail ErrCounterPersist), \<lparr>dc_value = v, dc_reserved = r\<rparr>, stored)
    | Stored_Unacknowledged \<Rightarrow> (Inl (Fail ErrCounterPersist), \<lparr>dc_value = v, dc_reserved = r\<rparr>, Some (v + 1000)))"
  using assms by (cases w) (simp_all add: reserveAhead_def SetMetadataCounter_def Let_def)

lemma node_inv_mono: "node_inv h B n \<Longrightarrow> B \<le> B' \<Longrightarrow> B' \<le> maxCounterValue \<Longrightarrow> node_inv h B' n"
  by (auto simp: node_inv_def split: option.splits)

lemma node_invI:
  "cn_counter n = Some c \<Longrightarrow> cn_stored n = Some st \<Longrightarrow> B \<le> maxCounterValue \<Longrightarrow> h \<le> dc_value c \<Longrightarrow> dc_reserved c \<le> st
    \<Longrightarrow> h \<le> st \<Longrightarrow> st \<le> dc_value c + 1000 \<Longrightarrow> dc_value c + 1000 \<le> B \<Longrightarrow> node_inv h B n"
  by (simp add: node_inv_def)

text \<open>Creating the counter hands nothing out and starts at the mark.\<close>

lemma created_inv:
  assumes inv: "node_inv h B n" and room: "B + (if w = Stored_Unacknowledged then 1000 else 0) \<le> maxCounterValue"
    and step: "groupDataCounter readable rand w n = (r, n')"
  shows "case r of
      Inr c \<Rightarrow> cn_counter n' = Some c \<and> node_inv h B n'
    | Inl e \<Rightarrow> node_inv h (B + (if w = Stored_Unacknowledged then 1000 else 0)) n'"
proof (cases "cn_counter n")
  case (Some c)
  then show ?thesis using step inv by (auto simp: groupDataCounter_def)
next
  case None
  show ?thesis
  proof (cases "cn_keepsCounter n \<and> readable \<and> (cn_stored n = None \<longrightarrow> randomCounterStart rand \<noteq> None)")
    case False
    then have "\<exists>e. newDataCounter readable rand w (cn_stored n) = (Inl e, cn_stored n)" if "cn_keepsCounter n"
      using that
      by (cases readable; cases "cn_stored n"; cases "randomCounterStart rand") (simp_all add: newDataCounter_def Let_def)
    then obtain e where "r = Inl e" "n' = n" using None step by (cases "cn_keepsCounter n") (auto simp: groupDataCounter_def)
    then show ?thesis using node_inv_mono [OF inv _ room] by simp
  next
    case True
    define v where "v = (case cn_stored n of Some v \<Rightarrow> v | None \<Rightarrow> unat (the (randomCounterStart rand)))"
    have v: "v + 1000 \<le> B" "h \<le> v" "B \<le> maxCounterValue" "cn_stored n = None \<Longrightarrow> v + 2000 \<le> B"
      using inv None True seed_bound [of rand] by (auto simp: node_inv_def v_def split: option.splits)
    have new: "newDataCounter readable rand w (cn_stored n) =
        (case w of Stored \<Rightarrow> (Inr \<lparr>dc_value = v, dc_reserved = v + 1000\<rparr>, Some (v + 1000))
         | Refused \<Rightarrow> (Inl (Fail ErrCounterPersist), cn_stored n)
         | Stored_Unacknowledged \<Rightarrow> (Inl (Fail ErrCounterPersist), Some (v + 1000)))"
      using True v reserve_mark [of v w 0 "cn_stored n"]
      by (cases w; cases "cn_stored n") (auto simp: newDataCounter_def v_def Let_def)
    show ?thesis
      using step None True v inv room unfolding groupDataCounter_def new
      by (cases w) (auto simp: node_inv_def split: option.splits)
  qed
qed

lemma next_inv:
  assumes inv: "node_inv h B n" and c: "cn_counter n = Some c" and room: "B + 1 \<le> maxCounterValue"
    and step: "counter_next w c (cn_stored n) = (r, c', stored)"
  shows "case r of
      Inr v \<Rightarrow> h < unat v \<and> node_inv (unat v) (B + 1) (n\<lparr>cn_stored := stored, cn_counter := Some c'\<rparr>)
    | Inl e \<Rightarrow> node_inv h (B + 1) (n\<lparr>cn_stored := stored, cn_counter := Some c'\<rparr>)"
proof -
  obtain st where st: "cn_stored n = Some st" "h \<le> dc_value c" "dc_reserved c \<le> st" "h \<le> st" "st \<le> dc_value c + 1000"
      "dc_value c + 1000 \<le> B"
    using inv c by (auto simp: node_inv_def split: option.splits)
  obtain v res where cv: "c = \<lparr>dc_value = v, dc_reserved = res\<rparr>" by (cases c) simp
  let ?c = "\<lparr>dc_value = v + 1, dc_reserved = res\<rparr>"
  have no_wrap: "v + 1 \<le> maxCounterValue" "\<not> v + 1 + 1000 < res" using st room cv by simp_all
  define x where "x = (word_of_nat (v + 1) :: u32)"
  have u: "unat x = v + 1" unfolding x_def using no_wrap(1) by (subst unat_of_nat) simp
  have nx: "counter_next w c (cn_stored n) =
      (if v + 1 < res then (Inr x, ?c, cn_stored n)
       else case w of
         Stored \<Rightarrow> (Inr x, \<lparr>dc_value = v + 1, dc_reserved = v + 1 + 1000\<rparr>, Some (v + 1 + 1000))
       | Refused \<Rightarrow> (Inl (Fail ErrCounterPersist), ?c, cn_stored n)
       | Stored_Unacknowledged \<Rightarrow> (Inl (Fail ErrCounterPersist), ?c, Some (v + 1 + 1000)))"
    using no_wrap reserve_mark [of "v + 1" w res "cn_stored n"] st(6) room
    by (cases w) (simp_all add: counter_next_def cv Let_def x_def not_less)
  have b: "h \<le> v" "res \<le> st" "h \<le> st" "st \<le> v + 1000" "v + 1000 \<le> B" using st cv by simp_all
  show ?thesis
  proof (cases "v + 1 < res")
    case True
    then have "r = Inr x" "c' = ?c" "stored = Some st" using step [unfolded nx] st(1) by simp_all
    then show ?thesis using True b room u by (auto intro!: node_invI)
  next
    case False
    then show ?thesis using step [unfolded nx, unfolded st(1)] b room u by (cases w) (auto intro!: node_invI)
  qed
qed

lemma counter_run_increasing:
  assumes "node_inv h B n" and "B + sum_list (map cost es) \<le> maxCounterValue"
  shows "sorted_wrt (<) (map unat (counter_run n es)) \<and> (\<forall>v \<in> set (counter_run n es). h < unat v)"
  using assms
proof (induction n es arbitrary: h B rule: counter_run.induct)
  case (2 n es)
  have "node_inv h (B + 1000) (n\<lparr>cn_counter := None\<rparr>)"
    using 2(2,3) by (auto simp: node_inv_def split: option.splits)
  from 2(1) [OF this] 2(3) show ?case by simp
next
  case (3 n readable rand w w' es)
  let ?k = "if w = Stored_Unacknowledged then 1000 else 0"
  obtain r n1 where g: "groupDataCounter readable rand w n = (r, n1)" by (cases "groupDataCounter readable rand w n")
  have room: "B + ?k + 1 + sum_list (map cost es) \<le> maxCounterValue"
    using 3(4) by (cases "w = Stored_Unacknowledged") simp_all
  have g': "case r of Inr c \<Rightarrow> cn_counter n1 = Some c \<and> node_inv h B n1 | Inl e \<Rightarrow> node_inv h (B + ?k) n1"
    by (rule created_inv [OF 3(3) _ g]) (use room in simp)
  show ?case
  proof (cases r)
    case (Inl e)
    then have t: "take_number readable rand w w' n = (Inl e, n1)" using g by (simp add: take_number_def)
    from Inl g' have "node_inv h (B + ?k) n1" by simp
    from 3(1) [OF t [symmetric] refl this] room t show ?thesis by simp
  next
    case (Inr c)
    then have c: "cn_counter n1 = Some c" "node_inv h B n1" using g' by simp_all
    obtain q c' stored where nx: "counter_next w' c (cn_stored n1) = (q, c', stored)"
      by (cases "counter_next w' c (cn_stored n1)")
    let ?n = "n1\<lparr>cn_stored := stored, cn_counter := Some c'\<rparr>"
    have t: "take_number readable rand w w' n = (q, ?n)" using g Inr nx by (simp add: take_number_def)
    have q: "case q of Inr v \<Rightarrow> h < unat v \<and> node_inv (unat v) (B + 1) ?n | Inl e \<Rightarrow> node_inv h (B + 1) ?n"
      by (rule next_inv [OF c(2,1) _ nx]) (use room in simp)
    show ?thesis
    proof (cases q)
      case (Inl e)
      with q have "node_inv h (B + 1) ?n" by simp
      from 3(1) [OF t [unfolded Inl, symmetric] refl this] room t Inl show ?thesis by simp
    next
      case (Inr v)
      with q have "h < unat v" "node_inv (unat v) (B + 1) ?n" by simp_all
      from 3(2) [OF t [unfolded Inr, symmetric] refl this(2)] this(1) room t Inr show ?thesis by fastforce
    qed
  qed
qed simp

text \<open>An event that the store and the random source do not disturb.\<close>

fun undisturbed :: "counter_event \<Rightarrow> bool" where
  "undisturbed Restart = True"
| "undisturbed (Number readable rand w w') = (readable \<and> rand \<noteq> None \<and> w = Stored \<and> w' = Stored)"

fun is_number :: "counter_event \<Rightarrow> bool" where
  "is_number Restart = False"
| "is_number (Number readable rand w w') = True"

definition valid_store :: "counter_node \<Rightarrow> bool" where
  "valid_store n \<longleftrightarrow> cn_keepsCounter n \<and> (\<forall>v. cn_stored n = Some v \<longrightarrow> v \<le> maxCounterValue)"

lemma undisturbed_number:
  assumes "valid_store n" and "undisturbed (Number readable rand w w')"
  shows "\<exists>v n'. take_number readable rand w w' n = (Inr v, n') \<and> valid_store n'"
proof -
  have "\<exists>c n'. groupDataCounter readable rand w n = (Inr c, n') \<and> valid_store n'"
    using assms
    by (cases "cn_counter n"; cases "cn_stored n")
      (auto simp: groupDataCounter_def newDataCounter_def randomCounterStart_def reserveAhead_def SetMetadataCounter_def
        valid_store_def Let_def)
  then obtain c n1 where g: "groupDataCounter readable rand w n = (Inr c, n1)" "valid_store n1" by blast
  have "\<exists>v c' stored. counter_next w' c (cn_stored n1) = (Inr v, c', stored) \<and> (\<forall>v. stored = Some v \<longrightarrow> v \<le> maxCounterValue)"
    using g(2) assms(2) by (auto simp: counter_next_def reserveAhead_def SetMetadataCounter_def valid_store_def Let_def)
  then show ?thesis using g by (auto simp: take_number_def valid_store_def)
qed

lemma undisturbed_run:
  "valid_store n \<Longrightarrow> list_all undisturbed es \<Longrightarrow> length (counter_run n es) = length (filter is_number es)"
proof (induction n es rule: counter_run.induct)
  case (2 n es)
  then show ?case by (simp add: valid_store_def)
next
  case (3 n readable rand w w' es)
  have "undisturbed (Number readable rand w w')" "list_all undisturbed es" using 3(4) by simp_all
  moreover from undisturbed_number [OF 3(3) this(1)] obtain v n' where
    t: "take_number readable rand w w' n = (Inr v, n')" "valid_store n'" by blast
  ultimately show ?case using 3(2) [OF t(1) [symmetric] refl t(2)] by simp
qed simp

text \<open>
  C6. No group message number is used twice, over any number of restarts: whatever the store
  does (reads that fail, writes that are lost, writes that are stored but reported as failed),
  the numbers handed out over the life of a node only increase, as long as the 32 bits last:
  a restart costs 1000 numbers, a message one. When the store keeps counters and nothing fails, every
  message gets a number.
\<close>

theorem group_numbers_unique:
  assumes "2 ^ 28 + 2000 + sum_list (map cost es) \<le> maxCounterValue"
  shows "let numbers = counter_run \<lparr>cn_keepsCounter = keeps, cn_stored = None, cn_counter = None\<rparr> es in
    sorted_wrt (<) numbers \<and> distinct numbers
    \<and> (keeps \<and> list_all undisturbed es \<longrightarrow> length numbers = length (filter is_number es))"
proof -
  let ?n = "\<lparr>cn_keepsCounter = keeps, cn_stored = None, cn_counter = None\<rparr> :: counter_node"
  have "node_inv 0 (2 ^ 28 + 2000) ?n" using assms by (simp add: node_inv_def)
  from counter_run_increasing [OF this, of es] assms have s: "sorted_wrt (<) (map unat (counter_run ?n es))" by simp
  then have "sorted_wrt (<) (counter_run ?n es)"
    unfolding sorted_wrt_map by (rule sorted_wrt_mono_rel [rotated]) (simp add: word_less_nat_alt)
  moreover have "distinct (counter_run ?n es)"
    using s by (metis distinct_map strict_sorted_iff)
  moreover have "keeps \<Longrightarrow> valid_store ?n" by (simp add: valid_store_def)
  ultimately show ?thesis using undisturbed_run [of ?n es] unfolding Let_def by blast
qed

theorem group_numbers_unique_witness:
  "let numbers = counter_run \<lparr>cn_keepsCounter = True, cn_stored = None, cn_counter = None\<rparr>
       [Number True (Some 0x20) Stored Stored, Restart, Number True (Some 0) Stored_Unacknowledged Stored,
        Number True (Some 0) Stored Refused, Number True (Some 0) Stored Stored]
   in sorted_wrt (<) numbers \<and> numbers = [4, 2004, 2005]"
proof -
  let ?es = "[Number True (Some 0x20) Stored Stored, Restart, Number True (Some 0) Stored_Unacknowledged Stored,
        Number True (Some 0) Stored Refused, Number True (Some 0) Stored Stored]"
  have "counter_run \<lparr>cn_keepsCounter = True, cn_stored = None, cn_counter = None\<rparr> ?es = [4, 2004, 2005]"
    by (simp add: take_number_def groupDataCounter_def newDataCounter_def counter_next_def reserveAhead_def
        SetMetadataCounter_def randomCounterStart_def Let_def)
  then show ?thesis using group_numbers_unique [of ?es True] by (simp add: Let_def)
qed

end
