(* ===== verification/Tcp.thy ===== *)
theory Tcp
  imports Prelude
begin

text \<open>
  Messages over TCP (\<^verbatim>\<open>transport/tcp\<close>): the length-prefixed frames of \<^verbatim>\<open>frame.go\<close> and the loops of
  \<^verbatim>\<open>conn.go\<close> that write frames and take messages out of what the socket delivers. Sockets, goroutines
  and the turns of the handlers are not part of it. A length is a number of 32 bits; \<open>int\<close> has 64.
\<close>

section \<open>Frames\<close>

abbreviation FramingHeaderSize :: nat where "FramingHeaderSize \<equiv> 4"
abbreviation DefaultMaxPayloadSize :: int where "DefaultMaxPayloadSize \<equiv> 64000"

datatype tcp_error = ErrMessageTooLarge | ErrConnClosed | ErrZeroLengthFrame | ErrFrameTooLarge

definition encodeFrame :: "bytes \<Rightarrow> int \<Rightarrow> (tcp_error, bytes) go" where
  "encodeFrame msg maxPayloadSize =
     (if int (length msg) > maxPayloadSize then Inl (Fail ErrMessageTooLarge)
      else Inr (put_u32 (word_of_nat (length msg)) @ msg))"

record assembler =
  a_maxPayloadSize :: int
  a_buf :: bytes

definition newAssembler :: "int \<Rightarrow> assembler" where
  "newAssembler maxPayloadSize = \<lparr>a_maxPayloadSize = maxPayloadSize, a_buf = []\<rparr>"

text \<open>The loop of \<open>push\<close>: the messages, the error that ends the connection, and what stays in the buffer.\<close>

function extract_messages :: "int \<Rightarrow> bytes \<Rightarrow> bytes list \<times> tcp_error option \<times> bytes" where
  "extract_messages maxPayloadSize buf =
     (if length buf < FramingHeaderSize then ([], None, buf)
      else let n = le_value (take 4 buf) in
        if n = 0 then ([], Some ErrZeroLengthFrame, buf)
        else if int n > maxPayloadSize then ([], Some ErrFrameTooLarge, buf)
        else if length buf < FramingHeaderSize + n then ([], None, buf)
        else case extract_messages maxPayloadSize (drop (FramingHeaderSize + n) buf) of
               (out, e, rest) \<Rightarrow> (take n (drop FramingHeaderSize buf) # out, e, rest))"
  by pat_completeness auto
termination
  by (relation "measure (\<lambda>(_, buf). length buf)") auto

declare extract_messages.simps [simp del]

definition push :: "assembler \<Rightarrow> bytes \<Rightarrow> bytes list \<times> tcp_error option \<times> assembler" where
  "push a chunk = (case extract_messages (a_maxPayloadSize a) (a_buf a @ chunk) of
     (out, e, rest) \<Rightarrow> (out, e, a\<lparr>a_buf := rest\<rparr>))"

section \<open>Connections\<close>

definition effective_limit :: "int \<Rightarrow> int" where
  "effective_limit maxPayloadSize = (if maxPayloadSize \<le> 0 then DefaultMaxPayloadSize else maxPayloadSize)"

text \<open>\<open>Send\<close> on a connection that is open or closed: what is written to the socket.\<close>

definition Conn_Send :: "bool \<Rightarrow> int \<Rightarrow> bytes \<Rightarrow> (tcp_error, bytes) go" where
  "Conn_Send closed maxPayloadSize msg = (if closed then Inl (Fail ErrConnClosed) else encodeFrame msg maxPayloadSize)"

text \<open>The reads of \<open>serve\<close>: every message that a chunk completes is handed on; an error closes the connection.\<close>

fun serve_chunks :: "assembler \<Rightarrow> bytes list \<Rightarrow> bytes list \<times> tcp_error option" where
  "serve_chunks a [] = ([], None)"
| "serve_chunks a (chunk # chunks) =
     (case push a chunk of
        (out, Some e, _) \<Rightarrow> (out, Some e)
      | (out, None, a') \<Rightarrow> (case serve_chunks a' chunks of (out', e) \<Rightarrow> (out @ out', e)))"

section \<open>Chunks\<close>

lemma extract_append:
  "extract_messages m (x @ y) = (case extract_messages m x of
     (out, Some e, rest) \<Rightarrow> (out, Some e, rest @ y)
   | (out, None, rest) \<Rightarrow> (case extract_messages m (rest @ y) of (out', e, rest') \<Rightarrow> (out @ out', e, rest')))"
proof (induction m x rule: extract_messages.induct)
  case (1 m x)
  let ?n = "le_value (take 4 x)"
  consider (short) "length x < 4" | (zero) "4 \<le> length x" "?n = 0" | (large) "4 \<le> length x" "?n \<noteq> 0" "int ?n > m"
    | (part) "4 \<le> length x" "?n \<noteq> 0" "int ?n \<le> m" "length x < 4 + ?n"
    | (whole) "4 \<le> length x" "?n \<noteq> 0" "int ?n \<le> m" "4 + ?n \<le> length x"
    by linarith
  then show ?case
  proof cases
    case short
    then have "extract_messages m x = ([], None, x)" by (simp add: extract_messages.simps [of m x])
    then show ?thesis by simp
  next
    case zero
    then show ?thesis by (simp add: extract_messages.simps [of m x] extract_messages.simps [of m "x @ y"])
  next
    case large
    then show ?thesis by (simp add: extract_messages.simps [of m x] extract_messages.simps [of m "x @ y"] Let_def)
  next
    case part
    then have "extract_messages m x = ([], None, x)" by (simp add: extract_messages.simps [of m x])
    then show ?thesis by simp
  next
    case whole
    obtain out e rest where r: "extract_messages m (drop (4 + ?n) x) = (out, e, rest)" by (cases "extract_messages m (drop (4 + ?n) x)")
    have x: "extract_messages m x = (take ?n (drop 4 x) # out, e, rest)"
      using whole r by (simp add: extract_messages.simps [of m x] Let_def)
    have xy: "extract_messages m (x @ y) = (case extract_messages m (drop (4 + ?n) x @ y) of
        (out, e, rest) \<Rightarrow> (take ?n (drop 4 x) # out, e, rest))"
      using whole by (simp add: extract_messages.simps [of m "x @ y"] Let_def)
    have "extract_messages m (drop (4 + ?n) x @ y) = (case extract_messages m (drop (4 + ?n) x) of
        (out, Some e, rest) \<Rightarrow> (out, Some e, rest @ y)
      | (out, None, rest) \<Rightarrow> (case extract_messages m (rest @ y) of (out', e, rest') \<Rightarrow> (out @ out', e, rest')))"
      by (rule 1) (use whole in simp_all)
    then show ?thesis unfolding x xy r by (cases e; cases "extract_messages m (rest @ y)") auto
  qed
qed

lemma extract_rest: "extract_messages m x = (out, None, rest) \<Longrightarrow> extract_messages m rest = ([], None, rest)"
proof (induction m x arbitrary: out rest rule: extract_messages.induct)
  case (1 m x)
  let ?n = "le_value (take 4 x)"
  show ?case
  proof (cases "4 \<le> length x \<and> ?n \<noteq> 0 \<and> int ?n \<le> m \<and> 4 + ?n \<le> length x")
    case True
    then obtain out' where "extract_messages m (drop (4 + ?n) x) = (out', None, rest)"
      using 1(2) by (auto simp: extract_messages.simps [of m x] Let_def split: prod.splits)
    from 1(1) [OF _ refl _ _ _ this] True show ?thesis by simp
  next
    case False
    then have "rest = x \<and> out = []"
      using 1(2) by (auto simp: extract_messages.simps [of m x] Let_def split: if_splits)
    with 1(2) show ?thesis by simp
  qed
qed

text \<open>How the stream is cut into chunks does not matter.\<close>

lemma serve_chunks_concat:
  assumes "extract_messages (a_maxPayloadSize a) (a_buf a) = ([], None, a_buf a)"
  shows "serve_chunks a chunks =
    (case extract_messages (a_maxPayloadSize a) (a_buf a @ concat chunks) of (out, e, _) \<Rightarrow> (out, e))"
  using assms
proof (induction chunks arbitrary: a)
  case (Cons chunk chunks)
  let ?m = "a_maxPayloadSize a"
  obtain out e rest where x: "extract_messages ?m (a_buf a @ chunk) = (out, e, rest)"
    by (cases "extract_messages ?m (a_buf a @ chunk)")
  have p: "push a chunk = (out, e, a\<lparr>a_buf := rest\<rparr>)" using x by (simp add: push_def)
  have app: "extract_messages ?m (a_buf a @ concat (chunk # chunks)) = (case extract_messages ?m (a_buf a @ chunk) of
     (out, Some e, rest) \<Rightarrow> (out, Some e, rest @ concat chunks)
   | (out, None, rest) \<Rightarrow> (case extract_messages ?m (rest @ concat chunks) of (out', e, rest') \<Rightarrow> (out @ out', e, rest')))"
    using extract_append [of ?m "a_buf a @ chunk" "concat chunks"] by simp
  show ?case
  proof (cases e)
    case (Some err)
    then show ?thesis unfolding app x using p by simp
  next
    case None
    have "extract_messages ?m rest = ([], None, rest)" by (rule extract_rest [OF x [unfolded None]])
    then have "serve_chunks (a\<lparr>a_buf := rest\<rparr>) chunks = (case extract_messages ?m (rest @ concat chunks) of (out, e, _) \<Rightarrow> (out, e))"
      using Cons.IH [of "a\<lparr>a_buf := rest\<rparr>"] by simp
    then show ?thesis unfolding app x None using p None by (auto split: prod.splits)
  qed
qed simp

section \<open>Streams\<close>

lemma extract_frame:
  assumes "msg \<noteq> []" and "int (length msg) \<le> m" and "length msg < 2 ^ 32"
  shows "extract_messages m (put_u32 (word_of_nat (length msg)) @ msg @ rest) =
    (case extract_messages m rest of (out, e, r) \<Rightarrow> (msg # out, e, r))"
proof -
  let ?b = "put_u32 (word_of_nat (length msg)) @ msg @ rest"
  have "take 4 ?b = put_u32 (word_of_nat (length msg))" by simp
  moreover have "le_value (put_u32 (word_of_nat (length msg))) = length msg"
    using assms(3) by (simp add: put_u32_def le_value_le_bytes unat_of_nat)
  ultimately show ?thesis using assms by (simp add: extract_messages.simps [of m ?b] Let_def)
qed

definition frames :: "bytes list \<Rightarrow> bytes" where
  "frames msgs = concat (map (\<lambda>m. put_u32 (word_of_nat (length m)) @ m) msgs)"

lemma extract_frames:
  assumes "\<forall>msg \<in> set msgs. msg \<noteq> [] \<and> int (length msg) \<le> m \<and> length msg < 2 ^ 32"
  shows "extract_messages m (frames msgs @ rest) = (case extract_messages m rest of (out, e, r) \<Rightarrow> (msgs @ out, e, r))"
  using assms
proof (induction msgs)
  case (Cons msg msgs)
  then show ?case using extract_frame [of msg m "frames msgs @ rest"] by (auto simp: frames_def split: prod.splits)
qed (simp add: frames_def split: prod.splits)

text \<open>
  C12. A TCP stream carries its messages. However the network cuts the bytes, when the frames of
  non-empty messages within the limit were sent, followed by any other bytes, the receiver hands on
  exactly these messages in their order, and then what it finds in the rest; the rest alone
  decides whether the connection is closed with an error, and with which.
\<close>

theorem tcp_stream_faithful:
  assumes "\<forall>msg \<in> set msgs. msg \<noteq> [] \<and> length msg < 2 ^ 32"
    and "list_all2 (\<lambda>msg frame. Conn_Send False m msg = Inr frame) msgs fs"
    and "concat chunks = concat fs @ rest"
  shows "serve_chunks (newAssembler m) chunks =
    (case serve_chunks (newAssembler m) [rest] of (out, e) \<Rightarrow> (msgs @ out, e))"
proof -
  have "\<forall>msg \<in> set msgs. int (length msg) \<le> m" using assms(2)
    by (induction msgs fs rule: list_all2_induct) (auto simp: Conn_Send_def encodeFrame_def split: if_splits)
  then have fit: "\<forall>msg \<in> set msgs. msg \<noteq> [] \<and> int (length msg) \<le> m \<and> length msg < 2 ^ 32"
    using assms(1) by blast
  have "concat fs = frames msgs" using assms(2)
    by (induction msgs fs rule: list_all2_induct) (auto simp: frames_def Conn_Send_def encodeFrame_def split: if_splits)
  then have stream: "concat chunks = frames msgs @ rest" using assms(3) by simp
  have e: "extract_messages (a_maxPayloadSize (newAssembler m)) (a_buf (newAssembler m)) = ([], None, a_buf (newAssembler m))"
    by (simp add: newAssembler_def extract_messages.simps [of m "[]"])
  show ?thesis
    unfolding serve_chunks_concat [OF e] using extract_frames [OF fit, of rest]
    by (simp add: newAssembler_def stream split: prod.splits)
qed

text \<open>Two messages, cut inside the first length and after the second.\<close>

theorem tcp_stream_faithful_witness:
  "serve_chunks (newAssembler 10) [[2, 0], [0, 0, 7, 8, 1, 0], [0, 0, 9, 0, 0], [0, 0]] = ([[7, 8], [9]], Some ErrZeroLengthFrame)"
proof -
  have f: "list_all2 (\<lambda>msg frame. Conn_Send False 10 msg = Inr frame) [[7, 8], [9]] [[2, 0, 0, 0, 7, 8], [1, 0, 0, 0, 9]]"
    by (simp add: Conn_Send_def encodeFrame_def put_u32_def) code_simp
  have r: "serve_chunks (newAssembler 10) [[0, 0, 0, 0]] = ([], Some ErrZeroLengthFrame)" by code_simp
  show ?thesis
    using tcp_stream_faithful [OF _ f, of "[[2, 0], [0, 0, 7, 8, 1, 0], [0, 0, 9, 0, 0], [0, 0]]" "[0, 0, 0, 0]"]
    unfolding r by simp
qed

end
