(* ===== verification/Access_Control.thy ===== *)
theory Access_Control
  imports Prelude
begin

text \<open>
  Access control: the entries of \<^verbatim>\<open>store/acl.go\<close> as the in-memory store keeps them
  (\<^verbatim>\<open>store/memstore/memstore.go\<close>), the check of the dispatcher (\<^verbatim>\<open>endpoint/dispatcher.go\<close>) and the two
  gates of the interaction model that call it (\<^verbatim>\<open>im/fabric_context.go\<close>, \<^verbatim>\<open>im/group.go\<close>). What a context
  carries of a request is the record \<open>request\<close>; a source of entries that may be missing or fail is an
  optional function with an optional result. The feature map that the root's AccessControl server
  answers is part of the endpoint.
\<close>

unbundle bit_operations_syntax

section \<open>Entries\<close>

abbreviation PrivilegeView :: byte where "PrivilegeView \<equiv> 1"
abbreviation PrivilegeProxyView :: byte where "PrivilegeProxyView \<equiv> 2"
abbreviation PrivilegeOperate :: byte where "PrivilegeOperate \<equiv> 3"
abbreviation PrivilegeManage :: byte where "PrivilegeManage \<equiv> 4"
abbreviation PrivilegeAdminister :: byte where "PrivilegeAdminister \<equiv> 5"

abbreviation AuthModePASE :: byte where "AuthModePASE \<equiv> 1"
abbreviation AuthModeCASE :: byte where "AuthModeCASE \<equiv> 2"
abbreviation AuthModeGroup :: byte where "AuthModeGroup \<equiv> 3"

record acl_target =
  t_Cluster :: "u32 option"
  t_Endpoint :: "u16 option"
  t_DeviceType :: "u32 option"

record acl_entry =
  e_ID :: int
  e_FabricIndex :: byte
  e_Privilege :: byte
  e_AuthMode :: byte
  e_Subjects :: "u64 list"
  e_Targets :: "acl_target list"
  e_Position :: u16

record acl_store =
  st_fabrics :: "byte list"
  st_acl :: "byte \<Rightarrow> acl_entry list"
  st_aclNextID :: int

datatype acl_error = ErrUnknownFabric | ErrPrivilege nat | ErrAuthMode nat

definition ListACL :: "acl_store \<Rightarrow> byte \<Rightarrow> acl_entry list" where
  "ListACL s fabricIndex = st_acl s fabricIndex"

fun number_entries :: "acl_store \<Rightarrow> byte \<Rightarrow> nat \<Rightarrow> acl_entry list \<Rightarrow> (acl_error, acl_entry list) go" where
  "number_entries s fabricIndex i [] = Inr []"
| "number_entries s fabricIndex i (e # es) =
     (if e_Privilege e < PrivilegeView \<or> e_Privilege e > PrivilegeAdminister then Inl (Fail (ErrPrivilege i))
      else if e_AuthMode e < AuthModePASE \<or> e_AuthMode e > AuthModeGroup then Inl (Fail (ErrAuthMode i))
      else and_then (number_entries s fabricIndex (i + 1) es) (\<lambda>out.
        Inr (e\<lparr>e_ID := st_aclNextID s + int i, e_FabricIndex := fabricIndex, e_Position := word_of_nat i\<rparr> # out)))"

definition ReplaceACL :: "acl_store \<Rightarrow> byte \<Rightarrow> acl_entry list \<Rightarrow> (acl_error, acl_store) go" where
  "ReplaceACL s fabricIndex entries =
     (if length entries > 0 \<and> fabricIndex \<notin> set (st_fabrics s) then Inl (Fail ErrUnknownFabric)
      else and_then (number_entries s fabricIndex 0 entries) (\<lambda>out.
        Inr (s\<lparr>st_aclNextID := st_aclNextID s + int (length entries), st_acl := (st_acl s)(fabricIndex := out)\<rparr>)))"

section \<open>Matching\<close>

abbreviation deviceTypeRootNode :: u32 where "deviceTypeRootNode \<equiv> 0x0016"
abbreviation deviceTypeAggregator :: u32 where "deviceTypeAggregator \<equiv> 0x000E"
abbreviation matterDeviceTypeBridgedNode :: u32 where "matterDeviceTypeBridgedNode \<equiv> 0x0013"

text \<open>What reading the feature map of a cluster server gives.\<close>

datatype feature_read = No_Attribute | Not_Uint32 | Feature_Map u32

record endpoint_info =
  ep_ID :: u16
  ep_Aggregator :: bool
  ep_Part :: bool
  ep_DeviceType :: u16
  ep_DeviceTypes :: "u16 list"
  ep_servers :: "(u32 \<times> feature_read) list"

definition IsRoot :: "endpoint_info \<Rightarrow> bool" where
  "IsRoot e \<longleftrightarrow> ep_ID e = 0"

definition FindByID :: "endpoint_info list \<Rightarrow> u16 \<Rightarrow> endpoint_info option" where
  "FindByID eps i = find (\<lambda>ep. ep_ID ep = i) eps"

definition endpointHasDeviceType :: "endpoint_info option \<Rightarrow> u32 \<Rightarrow> bool" where
  "endpointHasDeviceType ep deviceType =
     (case ep of
        None \<Rightarrow> False
      | Some e \<Rightarrow>
          if IsRoot e then deviceType = deviceTypeRootNode
          else if ep_Aggregator e then deviceType = deviceTypeAggregator
          else if ep_Part e then deviceType = ucast (ep_DeviceType e)
          else deviceType = ucast (ep_DeviceType e) \<or> deviceType = matterDeviceTypeBridgedNode)"

text \<open>The device types that the Descriptor of a bridged endpoint lists.\<close>

definition add_listed :: "u16 list \<Rightarrow> u16 \<Rightarrow> u16 list" where
  "add_listed out i = (if i \<in> set out then out else out @ [i])"

definition listedDeviceTypes :: "endpoint_info \<Rightarrow> u16 list" where
  "listedDeviceTypes ep =
     (let out = (if ep_Part ep \<or> ep_DeviceType ep \<noteq> 0 then add_listed [] (ep_DeviceType ep) else []);
          out = foldl (\<lambda>out i. if i \<noteq> 0 then add_listed out i else out) out (ep_DeviceTypes ep)
      in if \<not> ep_Part ep then add_listed out (ucast matterDeviceTypeBridgedNode) else out)"

definition aclTargetMatches :: "acl_target list \<Rightarrow> endpoint_info option \<Rightarrow> u16 \<Rightarrow> u32 \<Rightarrow> bool" where
  "aclTargetMatches targets ep endpoint clusterID =
     (length targets = 0 \<or>
      list_ex (\<lambda>t. \<not> (case t_Cluster t of Some c \<Rightarrow> c \<noteq> clusterID | None \<Rightarrow> False)
                 \<and> \<not> (case t_Endpoint t of Some x \<Rightarrow> x \<noteq> endpoint | None \<Rightarrow> False)
                 \<and> \<not> (case t_DeviceType t of Some dt \<Rightarrow> \<not> endpointHasDeviceType ep dt | None \<Rightarrow> False)) targets)"

abbreviation kMinCASEAuthTag :: u64 where "kMinCASEAuthTag \<equiv> 0xFFFFFFFD00000000"
abbreviation kMaxCASEAuthTag :: u64 where "kMaxCASEAuthTag \<equiv> 0xFFFFFFFDFFFFFFFF"
abbreviation kMaskCASEAuthTag :: u64 where "kMaskCASEAuthTag \<equiv> 0x00000000FFFFFFFF"
abbreviation kCATIdentifierMask :: u32 where "kCATIdentifierMask \<equiv> 0xFFFF0000"
abbreviation kCATVersionMask :: u32 where "kCATVersionMask \<equiv> 0x0000FFFF"

definition isCASEAuthTagSubject :: "u64 \<Rightarrow> bool" where
  "isCASEAuthTagSubject s \<longleftrightarrow> s \<ge> kMinCASEAuthTag \<and> s \<le> kMaxCASEAuthTag"

definition cat_identifier :: "u32 \<Rightarrow> u16" where
  "cat_identifier cat = ucast (drop_bit 16 (cat AND kCATIdentifierMask) AND 0xFFFF)"

definition cat_version :: "u32 \<Rightarrow> u16" where
  "cat_version cat = ucast ((cat AND kCATVersionMask) AND 0xFFFF)"

definition matchesCATSubject :: "u32 \<Rightarrow> u32 list \<Rightarrow> bool" where
  "matchesCATSubject entryCAT subjectCATs =
     list_ex (\<lambda>sub. sub \<noteq> 0 \<and> cat_identifier sub = cat_identifier entryCAT \<and> cat_version sub \<noteq> 0
                \<and> cat_version sub \<ge> cat_version entryCAT) subjectCATs"

definition aclSubjectMatches :: "u64 list \<Rightarrow> u64 \<Rightarrow> u32 list \<Rightarrow> bool" where
  "aclSubjectMatches subjects subjectNodeID subjectCATs =
     (length subjects = 0 \<or>
      list_ex (\<lambda>s. if isCASEAuthTagSubject s then matchesCATSubject (ucast (s AND kMaskCASEAuthTag)) subjectCATs
                  else subjectNodeID \<noteq> 0 \<and> s = subjectNodeID) subjects)"

definition privilegeRank :: "byte \<Rightarrow> nat" where
  "privilegeRank p =
     (if p = PrivilegeAdminister then 4 else if p = PrivilegeManage then 3 else if p = PrivilegeOperate then 2
      else if p = PrivilegeView \<or> p = PrivilegeProxyView then 1 else 0)"

section \<open>The check\<close>

datatype im_status = StatusSuccess | StatusUnsupportedAccess | StatusUnsupportedEndpoint

record group_subject =
  gs_GroupID :: u16
  gs_HasValidMapping :: bool
  gs_Endpoints :: "u16 list"

record request =
  rq_PASE :: bool
  rq_group :: "group_subject option"

type_synonym acl_lister = "byte \<Rightarrow> acl_entry list option"

record dispatcher =
  d_topology :: "endpoint_info list option"
  d_acl :: "acl_lister option"
  d_aux :: "acl_lister option"

definition FabricIndexUnresolvable :: byte where
  "FabricIndexUnresolvable = 255"

definition UnenforcedACL :: acl_lister where
  "UnenforcedACL fabricIndex = Some [\<lparr>e_ID = 0, e_FabricIndex = 0, e_Privilege = PrivilegeAdminister, e_AuthMode = AuthModeCASE,
     e_Subjects = [], e_Targets = [], e_Position = 0\<rparr>]"

definition auxiliaryAdvertised :: "dispatcher \<Rightarrow> bool" where
  "auxiliaryAdvertised d =
     (case d_topology d of
        None \<Rightarrow> False
      | Some eps \<Rightarrow>
          (case FindByID eps 0 of
             None \<Rightarrow> False
           | Some root \<Rightarrow>
               (case find (\<lambda>(cluster, _). cluster = 0x001F) (ep_servers root) of
                  Some (_, Feature_Map fm) \<Rightarrow> fm AND 4 \<noteq> 0
                | _ \<Rightarrow> False)))"

text \<open>The loops keep the highest privilege of the entries that apply.\<close>

definition best_privilege :: "(acl_entry \<Rightarrow> bool) \<Rightarrow> acl_entry list \<Rightarrow> byte" where
  "best_privilege applies entries =
     foldl (\<lambda>best e. if applies e \<and> e_Privilege e > best then e_Privilege e else best) 0 entries"

definition group_entry_applies :: "group_subject \<Rightarrow> endpoint_info option \<Rightarrow> u16 \<Rightarrow> u32 \<Rightarrow> bool \<Rightarrow> acl_entry \<Rightarrow> bool" where
  "group_entry_applies subject ep endpoint clusterID auxEnabled e \<longleftrightarrow>
     e_AuthMode e = AuthModeGroup
   \<and> \<not> (length (e_Subjects e) > 0 \<and> ucast (gs_GroupID subject) \<notin> set (e_Subjects e))
   \<and> \<not> (auxEnabled \<and> length (e_Targets e) = 0 \<and> endpoint = 0)
   \<and> aclTargetMatches (e_Targets e) ep endpoint clusterID"

definition checkGroupACL ::
  "acl_entry list \<Rightarrow> group_subject \<Rightarrow> endpoint_info option \<Rightarrow> u16 \<Rightarrow> u32 \<Rightarrow> byte \<Rightarrow> bool \<Rightarrow> im_status" where
  "checkGroupACL entries subject ep endpoint clusterID requiredPrivilege auxEnabled =
     (if \<not> gs_HasValidMapping subject then StatusUnsupportedAccess
      else let best = best_privilege (group_entry_applies subject ep endpoint clusterID auxEnabled) entries in
        if best = PrivilegeAdminister then StatusUnsupportedAccess
        else if privilegeRank best \<ge> privilegeRank requiredPrivilege then StatusSuccess
        else StatusUnsupportedAccess)"

definition case_entry_applies :: "u64 \<Rightarrow> u32 list \<Rightarrow> endpoint_info option \<Rightarrow> u16 \<Rightarrow> u32 \<Rightarrow> acl_entry \<Rightarrow> bool" where
  "case_entry_applies subjectNodeID subjectCATs ep endpoint clusterID e \<longleftrightarrow>
     e_AuthMode e = AuthModeCASE \<and> aclSubjectMatches (e_Subjects e) subjectNodeID subjectCATs
   \<and> aclTargetMatches (e_Targets e) ep endpoint clusterID"

definition CheckACL ::
  "dispatcher option \<Rightarrow> request \<Rightarrow> byte \<Rightarrow> u64 \<Rightarrow> u32 list \<Rightarrow> u16 \<Rightarrow> u32 \<Rightarrow> byte \<Rightarrow> im_status" where
  "CheckACL dd rq fabricIndex subjectNodeID subjectCATs endpoint clusterID requiredPrivilege =
     (if rq_PASE rq then StatusSuccess
      else if fabricIndex = 0 \<or> fabricIndex = FabricIndexUnresolvable then StatusUnsupportedAccess
      else case dd of
        None \<Rightarrow> StatusUnsupportedAccess
      | Some d \<Rightarrow>
          (case d_acl d of
             None \<Rightarrow> StatusUnsupportedAccess
           | Some acl \<Rightarrow>
               (case acl fabricIndex of
                  None \<Rightarrow> StatusUnsupportedAccess
                | Some entries \<Rightarrow>
                    let ep = (case d_topology d of None \<Rightarrow> None | Some eps \<Rightarrow> FindByID eps endpoint) in
                    (case rq_group rq of
                       Some subject \<Rightarrow>
                         (let auxEnabled = (d_aux d \<noteq> None \<or> auxiliaryAdvertised d) in
                          case d_aux d of
                            None \<Rightarrow> checkGroupACL entries subject ep endpoint clusterID requiredPrivilege auxEnabled
                          | Some lister \<Rightarrow>
                              (case lister fabricIndex of
                                 None \<Rightarrow> StatusUnsupportedAccess
                               | Some aux \<Rightarrow> checkGroupACL (entries @ aux) subject ep endpoint clusterID requiredPrivilege auxEnabled))
                     | None \<Rightarrow>
                         (let best = best_privilege (case_entry_applies subjectNodeID subjectCATs ep endpoint clusterID) entries in
                          if privilegeRank best \<ge> privilegeRank requiredPrivilege then StatusSuccess
                          else StatusUnsupportedAccess)))))"

definition checkSubjectACL ::
  "dispatcher option \<Rightarrow> request \<Rightarrow> byte \<Rightarrow> u64 \<Rightarrow> u32 list \<Rightarrow> u16 \<Rightarrow> u32 \<Rightarrow> byte \<Rightarrow> im_status" where
  "checkSubjectACL c rq fabricIndex subjectNodeID subjectCATs endpoint clusterID privilege =
     (if fabricIndex = 0 then StatusUnsupportedAccess
      else CheckACL c rq fabricIndex subjectNodeID subjectCATs endpoint clusterID privilege)"

text \<open>\<open>hasACL\<close> tells whether the dispatcher checks access at all.\<close>

definition groupAuthorizer ::
  "bool \<Rightarrow> dispatcher option \<Rightarrow> request \<Rightarrow> byte \<Rightarrow> group_subject \<Rightarrow> u16 \<Rightarrow> u32 \<Rightarrow> byte \<Rightarrow> im_status" where
  "groupAuthorizer hasACL d rq fabricIndex subject endpoint clusterID privilege =
     (if endpoint \<notin> set (gs_Endpoints subject) then StatusUnsupportedEndpoint
      else if \<not> hasACL \<or> fabricIndex = 0 then StatusUnsupportedAccess
      else CheckACL d rq fabricIndex 0 [] endpoint clusterID privilege)"

end
