(* ===== verification/Access_Theorems.thy ===== *)
theory Access_Theorems
  imports Access_Control
begin

text \<open>
  Access is granted exactly when an entry grants it: the loops that look for the highest privilege
  decide the existence of one sufficient entry, the bit operations on CASE authenticated tags
  compare identifier and version, and what is written with \<open>ReplaceACL\<close> is what is enforced, on
  that fabric alone.
\<close>

unbundle bit_operations_syntax

section \<open>Privileges\<close>

definition valid_privileges :: "acl_entry list \<Rightarrow> bool" where
  "valid_privileges es \<longleftrightarrow> list_all (\<lambda>e. e_Privilege e \<le> PrivilegeAdminister) es"

lemma privilegeRank_nat:
  "privilegeRank p = (if unat p = 5 then 4 else if unat p = 4 then 3 else if unat p = 3 then 2
     else if unat p = 1 \<or> unat p = 2 then 1 else 0)"
  by (simp add: privilegeRank_def word_unat_eq_iff)

lemma privilegeRank_mono: "a \<le> b \<Longrightarrow> b \<le> PrivilegeAdminister \<Longrightarrow> privilegeRank a \<le> privilegeRank b"
  unfolding privilegeRank_nat word_le_nat_alt by simp

lemma best_privilege_fold:
  fixes b :: byte and applies :: "acl_entry \<Rightarrow> bool"
  defines "f \<equiv> \<lambda>best e. if applies e \<and> e_Privilege e > best then e_Privilege e else best"
  shows "foldl f b es \<in> insert b (e_Privilege ` {e \<in> set es. applies e}) \<and> b \<le> foldl f b es
    \<and> (\<forall>e \<in> set es. applies e \<longrightarrow> e_Privilege e \<le> foldl f b es)"
proof (induction es arbitrary: b)
  case (Cons e es)
  have "b \<le> f b e" "applies e \<Longrightarrow> e_Privilege e \<le> f b e" "f b e = b \<or> applies e \<and> f b e = e_Privilege e"
    by (auto simp: f_def)
  with Cons [of "f b e"] show ?case by (auto intro: order_trans)
qed simp

lemma best_privilege_bounds:
  "best_privilege applies es \<in> insert 0 (e_Privilege ` {e \<in> set es. applies e})"
  "e \<in> set es \<Longrightarrow> applies e \<Longrightarrow> e_Privilege e \<le> best_privilege applies es"
  unfolding best_privilege_def using best_privilege_fold [of applies 0 es] by blast+

lemma best_privilege_rank:
  assumes "valid_privileges es" and "0 < k"
  shows "k \<le> privilegeRank (best_privilege applies es) \<longleftrightarrow> (\<exists>e \<in> set es. applies e \<and> k \<le> privilegeRank (e_Privilege e))"
proof
  assume k: "k \<le> privilegeRank (best_privilege applies es)"
  then have "best_privilege applies es \<noteq> 0" using assms(2) by (auto simp: privilegeRank_def)
  with k best_privilege_bounds(1) [of applies es] show "\<exists>e \<in> set es. applies e \<and> k \<le> privilegeRank (e_Privilege e)" by auto
next
  assume "\<exists>e \<in> set es. applies e \<and> k \<le> privilegeRank (e_Privilege e)"
  then obtain e where e: "e \<in> set es" "applies e" "k \<le> privilegeRank (e_Privilege e)" by blast
  have "best_privilege applies es \<le> PrivilegeAdminister"
    using best_privilege_bounds(1) [of applies es] assms(1) by (auto simp: valid_privileges_def list_all_iff)
  from privilegeRank_mono [OF best_privilege_bounds(2) [where applies = applies, OF e(1,2)] this] e(3)
  show "k \<le> privilegeRank (best_privilege applies es)" by simp
qed

lemma best_privilege_administer:
  assumes "valid_privileges es"
  shows "best_privilege applies es = PrivilegeAdminister \<longleftrightarrow> (\<exists>e \<in> set es. applies e \<and> e_Privilege e = PrivilegeAdminister)"
proof -
  have four: "4 \<le> privilegeRank p \<longleftrightarrow> p = PrivilegeAdminister" for p by (simp add: privilegeRank_def)
  then have "best_privilege applies es = PrivilegeAdminister \<longleftrightarrow> 4 \<le> privilegeRank (best_privilege applies es)"
    by simp
  also have "\<dots> \<longleftrightarrow> (\<exists>e \<in> set es. applies e \<and> 4 \<le> privilegeRank (e_Privilege e))"
    by (rule best_privilege_rank [OF assms]) simp
  also have "\<dots> \<longleftrightarrow> (\<exists>e \<in> set es. applies e \<and> e_Privilege e = PrivilegeAdminister)"
    by (simp only: four)
  finally show ?thesis .
qed

section \<open>Subjects and targets\<close>

text \<open>A tag is a 16-bit identifier above a 16-bit version.\<close>

lemma word_masks: "(0xFFFF :: u32) = mask 16" "(0xFFFF0000 :: u32) = push_bit 16 (mask 16)" "(0xFFFFFFFF :: u64) = mask 32"
  by (simp_all add: mask_eq_exp_minus_1 push_bit_eq_mult)

lemma cat_version_mod: "unat (cat_version c) = unat c mod 2 ^ 16"
proof -
  have "(c AND kCATVersionMask) AND 0xFFFF = take_bit 16 c"
    unfolding word_masks by (simp add: take_bit_eq_mask ac_simps)
  then have "cat_version c = ucast (take_bit 16 c)" by (simp only: cat_version_def)
  then have "unat (cat_version c) = take_bit 16 (take_bit 16 (unat c))"
    by (simp only: unsigned_ucast_eq unsigned_take_bit_eq) simp
  then show ?thesis by (simp add: take_bit_eq_mod)
qed

lemma cat_identifier_div: "unat (cat_identifier c) = unat c div 2 ^ 16"
proof -
  have "drop_bit 16 (c AND kCATIdentifierMask) AND 0xFFFF = drop_bit 16 c"
    unfolding word_masks
  proof (rule bit_word_eqI)
    fix n assume "n < LENGTH(32)"
    show "bit (drop_bit 16 (c AND push_bit 16 (mask 16)) AND mask 16) n \<longleftrightarrow> bit (drop_bit 16 c) n"
      using bit_imp_le_length [of c "16 + n"] by (cases "n < 16") (auto simp: bit_drop_bit_eq bit_and_iff bit_push_bit_iff bit_mask_iff)
  qed
  then have "cat_identifier c = ucast (drop_bit 16 c)" by (simp only: cat_identifier_def)
  then have "unat (cat_identifier c) = take_bit 16 (unat (drop_bit 16 c))"
    by (simp only: unsigned_ucast_eq) simp
  also have "\<dots> = (unat c div 2 ^ 16) mod 2 ^ 16"
    by (simp add: take_bit_eq_mod drop_bit_eq_div unat_div)
  also have "\<dots> = unat c div 2 ^ 16"
  proof (rule mod_less)
    have "unat c < 2 ^ LENGTH(32)" by (rule unsigned_less)
    then show "unat c div 2 ^ 16 < 2 ^ 16" by simp
  qed
  finally show ?thesis .
qed

lemma cat_subject: "isCASEAuthTagSubject s \<longleftrightarrow> unat s div 2 ^ 32 = 0xFFFFFFFD"
proof -
  have "isCASEAuthTagSubject s \<longleftrightarrow> 0xFFFFFFFD * 2 ^ 32 \<le> unat s \<and> unat s < 0xFFFFFFFE * 2 ^ 32"
    by (simp add: isCASEAuthTagSubject_def word_le_nat_alt less_Suc_eq_le [symmetric])
  also have "\<dots> \<longleftrightarrow> unat s div 2 ^ 32 = 0xFFFFFFFD" by (simp, arith)
  finally show ?thesis .
qed

text \<open>
  Whom a list of subjects covers: everybody when it is empty, else a node by its id, and the holder
  of a tag with the identifier of the entry in at least its version.
\<close>

definition covers_subject :: "u64 list \<Rightarrow> u64 \<Rightarrow> u32 list \<Rightarrow> bool" where
  "covers_subject subjects node cats \<longleftrightarrow> subjects = [] \<or>
     (\<exists>s \<in> set subjects.
        if unat s div 2 ^ 32 = 0xFFFFFFFD then
          \<exists>c \<in> set cats. unat c div 2 ^ 16 = unat s mod 2 ^ 32 div 2 ^ 16 \<and> 0 < unat c mod 2 ^ 16
            \<and> unat s mod 2 ^ 16 \<le> unat c mod 2 ^ 16
        else node \<noteq> 0 \<and> s = node)"

lemma aclSubjectMatches_covers: "aclSubjectMatches subjects node cats \<longleftrightarrow> covers_subject subjects node cats"
proof -
  have tag: "unat (ucast (s AND kMaskCASEAuthTag) :: u32) = unat s mod 2 ^ 32" for s :: u64
  proof -
    have "s AND kMaskCASEAuthTag = take_bit 32 s" unfolding word_masks by (simp add: take_bit_eq_mask)
    then have "unat (ucast (s AND kMaskCASEAuthTag) :: u32) = take_bit 32 (take_bit 32 (unat s))"
      by (simp only: unsigned_ucast_eq unsigned_take_bit_eq) simp
    then show ?thesis by (simp add: take_bit_eq_mod)
  qed
  have mod: "unat s mod 2 ^ 32 mod 2 ^ 16 = unat s mod 2 ^ 16" for s :: u64
    by (simp add: mod_mod_cancel)
  have one: "(sub \<noteq> 0 \<and> cat_identifier sub = cat_identifier e \<and> cat_version sub \<noteq> 0 \<and> cat_version e \<le> cat_version sub) \<longleftrightarrow>
      (unat sub div 2 ^ 16 = unat e div 2 ^ 16 \<and> 0 < unat sub mod 2 ^ 16 \<and> unat e mod 2 ^ 16 \<le> unat sub mod 2 ^ 16)" for sub e :: u32
    unfolding word_unat_eq_iff [of "cat_identifier sub"] word_unat_eq_iff [of "cat_version sub"]
      word_le_nat_alt cat_identifier_div cat_version_mod by (cases "sub = 0") simp_all
  have "matchesCATSubject (ucast (s AND kMaskCASEAuthTag)) cats \<longleftrightarrow>
      (\<exists>c \<in> set cats. unat c div 2 ^ 16 = unat s mod 2 ^ 32 div 2 ^ 16 \<and> 0 < unat c mod 2 ^ 16
         \<and> unat s mod 2 ^ 16 \<le> unat c mod 2 ^ 16)" for s :: u64
    unfolding matchesCATSubject_def list_ex_iff one tag mod ..
  then show ?thesis by (auto simp: aclSubjectMatches_def covers_subject_def list_ex_iff cat_subject)
qed

definition covers_target :: "acl_target list \<Rightarrow> endpoint_info option \<Rightarrow> u16 \<Rightarrow> u32 \<Rightarrow> bool" where
  "covers_target targets ep endpoint cluster \<longleftrightarrow> targets = [] \<or>
     (\<exists>t \<in> set targets. t_Cluster t \<in> {None, Some cluster} \<and> t_Endpoint t \<in> {None, Some endpoint}
        \<and> (case t_DeviceType t of None \<Rightarrow> True | Some dt \<Rightarrow> endpointHasDeviceType ep dt))"

lemma aclTargetMatches_covers: "aclTargetMatches targets ep endpoint cluster \<longleftrightarrow> covers_target targets ep endpoint cluster"
proof -
  have "(\<not> (case t_Cluster t of Some c \<Rightarrow> c \<noteq> cluster | None \<Rightarrow> False)
          \<and> \<not> (case t_Endpoint t of Some x \<Rightarrow> x \<noteq> endpoint | None \<Rightarrow> False)
          \<and> \<not> (case t_DeviceType t of Some dt \<Rightarrow> \<not> endpointHasDeviceType ep dt | None \<Rightarrow> False))
      \<longleftrightarrow> t_Cluster t \<in> {None, Some cluster} \<and> t_Endpoint t \<in> {None, Some endpoint}
        \<and> (case t_DeviceType t of None \<Rightarrow> True | Some dt \<Rightarrow> endpointHasDeviceType ep dt)" for t :: acl_target
    by (cases "t_Cluster t"; cases "t_Endpoint t"; cases "t_DeviceType t") auto
  then show ?thesis by (simp add: aclTargetMatches_def covers_target_def list_ex_iff)
qed

section \<open>The decision\<close>

definition entry_grants :: "dispatcher \<Rightarrow> u64 \<Rightarrow> u32 list \<Rightarrow> u16 \<Rightarrow> u32 \<Rightarrow> byte \<Rightarrow> acl_entry \<Rightarrow> bool" where
  "entry_grants d node cats endpoint cluster required e \<longleftrightarrow>
     e_AuthMode e = AuthModeCASE \<and> covers_subject (e_Subjects e) node cats
   \<and> covers_target (e_Targets e) (case d_topology d of None \<Rightarrow> None | Some eps \<Rightarrow> FindByID eps endpoint) endpoint cluster
   \<and> privilegeRank required \<le> privilegeRank (e_Privilege e)"

abbreviation over_CASE :: request where
  "over_CASE \<equiv> \<lparr>rq_PASE = False, rq_group = None\<rparr>"

lemma CheckACL_case:
  assumes "d_acl d = Some acl" and "acl fabric = Some es" and "valid_privileges es" and "0 < privilegeRank required"
  shows "CheckACL (Some d) over_CASE fabric node cats endpoint cluster required = StatusSuccess \<longleftrightarrow>
    fabric \<noteq> 0 \<and> fabric \<noteq> FabricIndexUnresolvable \<and> (\<exists>e \<in> set es. entry_grants d node cats endpoint cluster required e)"
  using assms(1,2) best_privilege_rank [OF assms(3,4)]
  by (auto simp: CheckACL_def Let_def case_entry_applies_def entry_grants_def aclSubjectMatches_covers aclTargetMatches_covers)

lemma number_entries_Inr:
  assumes "number_entries s fabric i es = Inr out"
  shows "valid_privileges out \<and> list_all2 (\<lambda>e e'. e_Privilege e' = e_Privilege e \<and> e_AuthMode e' = e_AuthMode e
    \<and> e_Subjects e' = e_Subjects e \<and> e_Targets e' = e_Targets e) es out"
  using assms
proof (induction es arbitrary: i out)
  case (Cons e es)
  then obtain rest where r: "number_entries s fabric (i + 1) es = Inr rest"
    "out = e\<lparr>e_ID := st_aclNextID s + int i, e_FabricIndex := fabric, e_Position := word_of_nat i\<rparr> # rest"
    "e_Privilege e \<le> PrivilegeAdminister"
    by (auto simp: and_then_Inr_iff not_less split: if_splits)
  with Cons.IH [OF r(1)] show ?case by (simp add: valid_privileges_def)
qed (simp add: valid_privileges_def)

lemma entry_grants_same:
  "list_all2 (\<lambda>e e'. e_Privilege e' = e_Privilege e \<and> e_AuthMode e' = e_AuthMode e \<and> e_Subjects e' = e_Subjects e
      \<and> e_Targets e' = e_Targets e) es out \<Longrightarrow>
   (\<exists>e \<in> set out. entry_grants d node cats endpoint cluster required e)
     \<longleftrightarrow> (\<exists>e \<in> set es. entry_grants d node cats endpoint cluster required e)"
  by (induction es out rule: list_all2_induct) (auto simp: entry_grants_def)

text \<open>
  C3. Access control entries are enforced as they were written. After \<open>ReplaceACL\<close> stored entries for a
  fabric, a request of that fabric over CASE for some privilege passes the gate exactly when one of
  these entries is a CASE entry that covers the subject (any, the node itself, or a tag the subject
  holds in the entry's version or a later one) and the target, and whose privilege is at least the
  one required; and no request of any other fabric is decided otherwise than before.
\<close>

theorem acl_entries_enforced:
  assumes "ReplaceACL st fabric entries = Inr st'" and "fabric \<noteq> 0" and "fabric \<noteq> FabricIndexUnresolvable"
    and "d_acl d = Some (\<lambda>f. Some (ListACL st' f))" and "0 < privilegeRank required"
  shows "(checkSubjectACL (Some d) over_CASE fabric node cats endpoint cluster required = StatusSuccess \<longleftrightarrow>
      (\<exists>e \<in> set entries. entry_grants d node cats endpoint cluster required e))
    \<and> (other \<noteq> fabric \<longrightarrow> checkSubjectACL (Some d) over_CASE other node cats endpoint cluster required =
        checkSubjectACL (Some (d\<lparr>d_acl := Some (\<lambda>f. Some (ListACL st f))\<rparr>)) over_CASE other node cats endpoint cluster required)"
proof -
  obtain out where out: "number_entries st fabric 0 entries = Inr out" "st_acl st' = (st_acl st)(fabric := out)"
    using assms(1) by (auto simp: ReplaceACL_def and_then_Inr_iff split: if_splits)
  note num = number_entries_Inr [OF out(1)]
  have l: "ListACL st' fabric = out" "other \<noteq> fabric \<Longrightarrow> ListACL st' other = ListACL st other"
    using out(2) by (simp_all add: ListACL_def)
  have "checkSubjectACL (Some d) over_CASE fabric node cats endpoint cluster required = StatusSuccess \<longleftrightarrow>
      (\<exists>e \<in> set out. entry_grants d node cats endpoint cluster required e)"
    using CheckACL_case [OF assms(4), of fabric out required node cats endpoint cluster] assms(2,3,5) num l(1)
    by (simp add: checkSubjectACL_def)
  also have "\<dots> \<longleftrightarrow> (\<exists>e \<in> set entries. entry_grants d node cats endpoint cluster required e)"
    using entry_grants_same num by blast
  finally show ?thesis
    using l(2) assms(4) by (simp add: checkSubjectACL_def CheckACL_def auxiliaryAdvertised_def)
qed

section \<open>Group messages\<close>

definition group_entry_grants :: "dispatcher \<Rightarrow> group_subject \<Rightarrow> u16 \<Rightarrow> u32 \<Rightarrow> acl_entry \<Rightarrow> bool" where
  "group_entry_grants d subject endpoint cluster e \<longleftrightarrow>
     e_AuthMode e = AuthModeGroup \<and> (e_Subjects e = [] \<or> ucast (gs_GroupID subject) \<in> set (e_Subjects e))
   \<and> covers_target (e_Targets e) (case d_topology d of None \<Rightarrow> None | Some eps \<Rightarrow> FindByID eps endpoint) endpoint cluster
   \<and> ((d_aux d \<noteq> None \<or> auxiliaryAdvertised d) \<and> endpoint = 0 \<longrightarrow> e_Targets e \<noteq> [])"

lemma group_entry_applies_grants:
  "group_entry_applies subject (case d_topology d of None \<Rightarrow> None | Some eps \<Rightarrow> FindByID eps endpoint) endpoint cluster
     (d_aux d \<noteq> None \<or> auxiliaryAdvertised d) = group_entry_grants d subject endpoint cluster"
  by (rule ext) (auto simp: group_entry_applies_def group_entry_grants_def aclTargetMatches_covers)

lemma checkGroupACL_iff:
  assumes "valid_privileges es" and "0 < privilegeRank required"
  shows "checkGroupACL es subject ep endpoint cluster required aux = StatusSuccess \<longleftrightarrow> gs_HasValidMapping subject
    \<and> (\<exists>e \<in> set es. group_entry_applies subject ep endpoint cluster aux e \<and> privilegeRank required \<le> privilegeRank (e_Privilege e))
    \<and> \<not> (\<exists>e \<in> set es. group_entry_applies subject ep endpoint cluster aux e \<and> e_Privilege e = PrivilegeAdminister)"
  unfolding best_privilege_rank [OF assms, symmetric] best_privilege_administer [OF assms(1), symmetric]
  by (simp add: checkGroupACL_def Let_def)


text \<open>
  The two views of an endpoint's device types agree for an endpoint that lists no further ones; the
  further ones of \<open>DeviceTypes\<close> are in the Descriptor's list but not among those a target matches.
\<close>

lemma device_types_agree:
  assumes "\<not> IsRoot e" and "\<not> ep_Aggregator e" and "ep_DeviceTypes e = []" and "ep_Part e \<or> ep_DeviceType e \<noteq> 0"
  shows "endpointHasDeviceType (Some e) dt \<longleftrightarrow> dt \<in> ucast ` set (listedDeviceTypes e)"
  using assms by (auto simp: endpointHasDeviceType_def listedDeviceTypes_def add_listed_def Let_def)

lemma further_device_types_not_matched:
  defines "e \<equiv> \<lparr>ep_ID = 3, ep_Aggregator = False, ep_Part = False, ep_DeviceType = 0x0100, ep_DeviceTypes = [0x0011], ep_servers = []\<rparr>"
  shows "0x0011 \<in> set (listedDeviceTypes e) \<and> \<not> endpointHasDeviceType (Some e) 0x0011"
  by (simp add: e_def listedDeviceTypes_def add_listed_def endpointHasDeviceType_def IsRoot_def)

section \<open>Examples\<close>

text \<open>An entry that lets holders of the tag 0xAB12, version 2 or later, operate the on/off cluster.\<close>

definition sample_entry :: acl_entry where
  "sample_entry = \<lparr>e_ID = 0, e_FabricIndex = 0, e_Privilege = PrivilegeOperate, e_AuthMode = AuthModeCASE,
     e_Subjects = [0xFFFFFFFDAB120002], e_Targets = [\<lparr>t_Cluster = Some 6, t_Endpoint = None, t_DeviceType = None\<rparr>], e_Position = 0\<rparr>"

definition sample_acl :: acl_store where
  "sample_acl = \<lparr>st_fabrics = [1], st_acl = (\<lambda>_. []), st_aclNextID = 1\<rparr>"

definition written_acl :: acl_store where
  "written_acl = (case ReplaceACL sample_acl 1 [sample_entry] of Inr s \<Rightarrow> s)"

definition sample_dispatcher :: dispatcher where
  "sample_dispatcher = \<lparr>d_topology = None, d_acl = Some (\<lambda>f. Some (ListACL written_acl f)), d_aux = None\<rparr>"

theorem acl_entries_enforced_witness:
  "checkSubjectACL (Some sample_dispatcher) over_CASE 1 5 [0xAB120003] 4 6 PrivilegeOperate = StatusSuccess
   \<and> checkSubjectACL (Some sample_dispatcher) over_CASE 1 5 [0xAB120001] 4 6 PrivilegeOperate \<noteq> StatusSuccess"
proof -
  have w: "ReplaceACL sample_acl 1 [sample_entry] = Inr written_acl"
    by (simp add: written_acl_def ReplaceACL_def sample_acl_def sample_entry_def)
  have f: "(1 :: byte) \<noteq> 0" "(1 :: byte) \<noteq> FabricIndexUnresolvable" by (simp_all add: FabricIndexUnresolvable_def)
  have d: "d_acl sample_dispatcher = Some (\<lambda>f. Some (ListACL written_acl f))" by (simp add: sample_dispatcher_def)
  have p: "0 < privilegeRank PrivilegeOperate" by (simp add: privilegeRank_def)
  note enforced = acl_entries_enforced [OF w f d p, where node = 5 and endpoint = 4 and cluster = 6]
  show ?thesis
    using enforced [where cats = "[0xAB120003]"] enforced [where cats = "[0xAB120001]"]
    by (simp add: entry_grants_def sample_entry_def covers_subject_def covers_target_def)
qed

definition sample_group_entry :: acl_entry where
  "sample_group_entry = sample_entry\<lparr>e_AuthMode := AuthModeGroup, e_Subjects := [5]\<rparr>"


end
