(* ===== verification/Spec2Isabelle.thy ===== *)
theory Spec2Isabelle
  imports Tlv_Theorems Message_Theorems Mrp_Window Mrp_Counter Mrp_Ack Setup_Theorems Btp_Theorems Bdx_Transfer
    Secure_Delivery Group_Delivery Group_Counter Tcp Access_Theorems
begin

text \<open>
  go-fabric, a Matter library in Go: its wire formats, transports, session security, bulk transfers and
  access control.

  \<^bold>\<open>The program and its parts.\<close> A Matter node receives bytes from UDP, from TCP (\<^verbatim>\<open>transport/tcp\<close>, frames
  with a length prefix) or from Bluetooth (\<^verbatim>\<open>transport/btp\<close>, segments with a window). A datagram starts
  with a message header (\<^verbatim>\<open>transport/message\<close>), which names the session. The session opens it
  (\<^verbatim>\<open>secure/channel\<close> over \<^verbatim>\<open>secure/aesccm\<close>; group messages in \<^verbatim>\<open>groups\<close>), checks the counter against the
  reception window (\<^verbatim>\<open>transport/mrp\<close>), and finds a protocol header and a payload. The payload belongs to
  an exchange (\<^verbatim>\<open>client/exchange\<close>): a request of the interaction model, in TLV (\<^verbatim>\<open>tlv\<close>), that access control
  admits (\<^verbatim>\<open>endpoint\<close>, \<^verbatim>\<open>im\<close>, \<^verbatim>\<open>store\<close>), or a message of a bulk transfer (\<^verbatim>\<open>bdx\<close>). What starts it all is
  the code printed on a device (\<^verbatim>\<open>secure/setup\<close>).

  \<^bold>\<open>Conventions.\<close> A Go function that may fail returns \<open>('e, 'a) go\<close> (\<open>Prelude\<close>): a value, a returned error
  \<open>Fail e\<close>, or \<open>Panic\<close>, which is what an index or slice out of range gives. Integers keep their width as
  words; \<open>int\<close> and lengths of slices are unbounded. A method with a pointer receiver takes the record of
  its struct and returns it changed. Code under a mutex is one step. Error texts and logging are left
  out. Randomness, the clock, AES, HKDF and the outcome of calls to the operating system are arguments.
  The two that a theorem relies on are named: \<open>aes_blocks\<close> (the cipher maps a block to a block) and
  \<open>hkdf_lengths\<close> (a derived key has the length asked for). Both have instances, \<open>toy_aes\<close> and \<open>toy_hkdf\<close>.

  \<^bold>\<open>Theories, sources and results.\<close>

  \<^item> \<open>Prelude\<close>, \<open>Wire\<close>, \<open>Frame\<close>: results and faults, little-endian fields (locale \<open>wire_field\<close>), loops that
    consume their input (\<open>consuming_reader\<close>), parsers at a position, and what a sequence of state
    changes keeps (locale \<open>frame\<close>).

  \<^item> \<open>Utf8\<close>, \<open>Tlv\<close>, \<open>Tlv_Decode\<close>, \<open>Tlv_Walk\<close> model \<^verbatim>\<open>tlv/\<close>, one definition per method of \<open>Encoder\<close> and
    \<open>Decoder\<close>; \<open>Tlv_Decode_Lemmas\<close>, \<open>Tlv_Facts\<close>, \<open>Tlv_Cursor\<close>, \<open>Tlv_Roundtrip\<close>, \<open>Tlv_Strict\<close>, \<open>Tlv_Calls\<close> and
    \<open>Tlv_Theorems\<close>: encoder and decoder are inverse, \<open>Validate\<close> and \<open>SplitArrayMembers\<close> accept exactly
    their grammars, bounded text writes keep the longest valid prefix.

  \<^item> \<open>Message\<close> models \<^verbatim>\<open>transport/message/\<close>; \<open>Message_Theorems\<close>: exactly which bytes decode to which
    header, and both ends bind the same bytes.

  \<^item> \<open>Mrp\<close> models \<^verbatim>\<open>window.go\<close>, \<^verbatim>\<open>counter.go\<close>, \<^verbatim>\<open>ack.go\<close>, \<^verbatim>\<open>reliable.go\<close> and \<^verbatim>\<open>status_report.go\<close> of
    \<^verbatim>\<open>transport/mrp/\<close>; \<open>Mrp_Window\<close>: the bitmap refines the set of all accepted counters; \<open>Mrp_Counter\<close>:
    concurrent callers never share a counter; \<open>Mrp_Ack\<close>: no acknowledgement is lost or postponed.

  \<^item> \<open>Ccm\<close> models \<^verbatim>\<open>secure/aesccm/aesccm.go\<close>: \<open>Open\<close> accepts exactly what \<open>Seal\<close> produces. \<open>Channel\<close> models
    \<^verbatim>\<open>secure/channel/\<close> (\<^verbatim>\<open>session.go\<close>, \<^verbatim>\<open>privacy.go\<close>, \<^verbatim>\<open>group.go\<close>). \<open>Secure_Messages\<close> models \<open>NewSecureSession\<close>, \<open>seal\<close>
    and the receive path of \<^verbatim>\<open>client/exchange/manager.go\<close>; \<open>Secure_Delivery\<close>: under reordering,
    duplication and loss each sealed message is delivered as sent and flagged new at most once.

  \<^item> \<open>Group_Messages\<close> models key derivation, \<open>encode\<close> and \<open>Decode\<close> of \<^verbatim>\<open>groups/\<close>; \<open>Group_Delivery\<close>: a group
    message reaches every holder of the key, a replay is flagged. \<open>Group_Counter\<close> models
    \<^verbatim>\<open>groups/counter.go\<close>: no number is used twice, over any restarts and failed writes.

  \<^item> \<open>Setup\<close> models \<^verbatim>\<open>secure/setup/\<close>; \<open>Setup_Base38\<close>, \<open>Setup_Qr\<close>, \<open>Setup_Manual\<close> (locale \<open>check_digit\<close>) and
    \<open>Setup_Theorems\<close>: QR and manual codes decode to what they were made from, and a mistyped digit is
    detected.

  \<^item> \<open>Btp_Codec\<close>, \<open>Btp_Session\<close> model \<^verbatim>\<open>transport/btp/\<close>; \<open>Btp_Steps\<close> is the step relation of all
    interleavings of methods, writes and timers; \<open>Btp_Invariant\<close>, \<open>Btp_Theorems\<close>: the packets written
    reassemble to a prefix of the messages sent, and the window is respected, in every reachable state.

  \<^item> \<open>Tcp\<close> models the frames and the reading loop of \<^verbatim>\<open>transport/tcp/\<close>: however the stream is cut, the
    messages come out as they went in.

  \<^item> \<open>Bdx_Codec\<close>, \<open>Bdx_Flow\<close>, \<open>Bdx_Serve\<close> model \<^verbatim>\<open>bdx/\<close>: messages, messenger, file sink, both flows,
    the responder. \<open>Bdx_Roundtrip\<close>, \<open>Bdx_Report\<close>, \<open>Bdx_Inbound\<close> (locale \<open>sink\<close>), \<open>Bdx_Runs\<close>, \<open>Bdx_In_Runs\<close>
    (locale \<open>storing_sink\<close>), \<open>Bdx_Dialogue\<close> and \<open>Bdx_Transfer\<close>: codecs, reports, exact files against any
    peer, and transfers that complete between two nodes of this implementation.

  \<^item> \<open>Access_Control\<close> models the entries of \<^verbatim>\<open>store/acl.go\<close> as \<^verbatim>\<open>store/memstore/memstore.go\<close> keeps them,
    \<open>CheckACL\<close> and its helpers (\<^verbatim>\<open>endpoint/dispatcher.go\<close>, \<^verbatim>\<open>endpoint/types.go\<close>, \<^verbatim>\<open>endpoint/helpers.go\<close>), and
    \<open>checkSubjectACL\<close> and \<open>groupAuthorizer\<close> of \<^verbatim>\<open>im/\<close>; \<open>Access_Theorems\<close>: access is granted exactly when
    a stored entry grants it.

  \<^item> This theory: no decoder of untrusted input panics, from the TLV reader to the whole receive path.

  \<^bold>\<open>Loops and bounds.\<close> Every loop is a terminating function: over the bytes left to read, over the
  messages of the peer still to come (\<open>Bdx_Flow\<close>), over the segments of the queued message (\<open>Btp_Session\<close>).
  There is no fuel. The compare-and-swap loop of the counter is the step relation of \<open>Mrp_Counter\<close>. In
  \<open>Bdx_Transfer\<close> the two nodes run in rounds; the theorems give a number of rounds that is enough.

  \<^bold>\<open>Not modelled.\<close> Retransmission intervals (\<^verbatim>\<open>transport/mrp/retransmit.go\<close>, floating point), sockets and
  listeners (\<^verbatim>\<open>transport/udp\<close>, the rest of \<^verbatim>\<open>transport/tcp\<close>), goroutine scheduling apart from the interleavings
  named above. Routing of a decoded message to its exchange (\<open>route\<close>), retransmission and timers of
  \<^verbatim>\<open>client/exchange\<close>. Loading group keys from the store and the membership table of \<^verbatim>\<open>groups\<close>. The SQL
  store. Handshakes and certificates (\<^verbatim>\<open>secure/sigma\<close>, \<^verbatim>\<open>secure/spake2\<close>, \<^verbatim>\<open>secure/mattercert\<close>, \<^verbatim>\<open>secure/operational\<close>,
  \<^verbatim>\<open>secure/attestation\<close>): elliptic curves and X.509 of libraries outside the sources carry what they do. The
  interaction model beyond access control (\<^verbatim>\<open>im\<close>, \<^verbatim>\<open>endpoint\<close>, \<^verbatim>\<open>cluster\<close>, \<^verbatim>\<open>bridge\<close>, \<^verbatim>\<open>node\<close>, \<^verbatim>\<open>device\<close>), the
  controller, discovery and the drivers of radios: they assemble data models and talk to hosts and
  networks; the generated tables of \<^verbatim>\<open>cluster/spec\<close> and \<^verbatim>\<open>schema\<close> are data.
\<close>

text \<open>
  C8. No bytes and no text from outside make a decoder panic: the TLV decoding loop, \<open>Validate\<close>,
  \<open>SplitArrayMembers\<close>, both header decoders, the BTP packet decoder, the decoders of onboarding codes, and
  the receive path of a node from the datagram to the message, whose session table it leaves well formed
  so that the next datagram is as safe.
\<close>

theorem decoders_no_panic:
  assumes "secure_table m"
  shows "Tlv_Walk.decode_all (NewDecoder b) \<noteq> Inl Panic \<and> Validate b \<noteq> Inl Panic \<and> SplitArrayMembers b \<noteq> Inl Panic
    \<and> UnmarshalHeader b \<noteq> Inl Panic \<and> UnmarshalProtocolHeader b \<noteq> Inl Panic \<and> DecodePacket b \<noteq> Inl Panic
    \<and> DecodeQRCodes s \<noteq> Inl Panic \<and> DecodeQRCode s \<noteq> Inl Panic \<and> DecodeManualCode s \<noteq> Inl Panic \<and> DecodeExtra b \<noteq> Inl Panic
    \<and> fst (decode_datagram mrp m b) \<noteq> Inl Panic \<and> secure_table (snd (decode_datagram mrp m b))"
  by (intro conjI) (simp_all add: tlv_no_panic header_decoders_no_panic DecodePacket_no_panic setup_no_panic
      decode_datagram_safe [OF assms])

theorem decoders_no_panic_witness:
  "secure_table (end_manager 8 config_a)
    \<and> fst (decode_datagram True (end_manager 8 config_a) [0, 8, 0, 0, 1, 0, 0, 0, 7]) \<noteq> Inl Panic"
proof -
  have t: "secure_table (end_manager 8 config_a)"
    unfolding end_manager_def by (rule NewSecureSession_table) (simp add: secure_table_def empty_manager_def)
  with decoders_no_panic [OF t, of "[0, 8, 0, 0, 1, 0, 0, 0, 7]" "''''" True] show ?thesis by simp
qed

end
